(* ===== verification/Go_Prelude.thy ===== *)
theory Go_Prelude
  imports Main "HOL-Library.Word" "HOL-Library.Multiset"
begin

text \<open>
  What the components of the development share: Go's fixed-width integers, Go maps and the
  order in which \<open>range\<close> visits them, results that may be errors, and the two interfaces
  that the registries of the program implement.

  A Go map is a partial function \<open>'k \<rightharpoonup> 'v\<close>. The language leaves the order of a \<open>range\<close> over
  a map unspecified, so an operation that ranges over a map takes the visiting order as an
  argument, and the theorems hold for every order that visits each key once
  (\<open>range_order\<close>).
\<close>

named_theorems go_map_simps "sizes, keys and values of Go maps"
named_theorems frame_simps "what an operation leaves unchanged"

section \<open>Writing a file\<close>

text \<open>
  \<open>os.WriteFile\<close> truncates the file when it opens it; it may fail to open it, or after some bytes.
\<close>

datatype write_outcome = WriteOk | OpenFails | WriteFails nat

fun write_file :: "write_outcome \<Rightarrow> string option \<Rightarrow> string \<Rightarrow> string option" where
  "write_file WriteOk old data = Some data"
| "write_file OpenFails old data = old"
| "write_file (WriteFails n) old data = Some (take n data)"

section \<open>Machine integers\<close>

type_synonym u64 = "64 word"
type_synonym u8 = "8 word"

text \<open>Go's \<open>int\<close> and \<open>int64\<close>: two's complement on 64 bits, written out on \<open>int\<close>.\<close>

definition int64_min :: int where "int64_min = - 9223372036854775808"
definition int64_max :: int where "int64_max = 9223372036854775807"

definition wrap64 :: "int \<Rightarrow> int" where
  "wrap64 x = (x + 9223372036854775808) mod 18446744073709551616 - 9223372036854775808"

definition in_int64 :: "int \<Rightarrow> bool" where
  "in_int64 x \<longleftrightarrow> int64_min \<le> x \<and> x \<le> int64_max"

lemma in_int64_wrap64 [simp]: "in_int64 (wrap64 x)"
proof -
  have "0 \<le> (x + 9223372036854775808) mod 18446744073709551616"
    and "(x + 9223372036854775808) mod 18446744073709551616 < 18446744073709551616"
    by simp_all
  then show ?thesis
    by (simp add: in_int64_def wrap64_def int64_min_def int64_max_def)
qed

lemma wrap64_id [simp]: "in_int64 x \<Longrightarrow> wrap64 x = x"
  by (simp add: in_int64_def wrap64_def int64_min_def int64_max_def)

lemma wrap64_over:
  assumes "int64_max < x" and "x \<le> 2 * int64_max"
  shows "wrap64 x = x - 18446744073709551616"
proof -
  have "(x + 9223372036854775808) mod 18446744073709551616
      = (x - 9223372036854775808) mod 18446744073709551616"
    by (simp add: mod_eq_dvd_iff)
  with assms show ?thesis
    by (simp add: wrap64_def int64_max_def)
qed

section \<open>Go maps\<close>

definition map_len :: "('k \<rightharpoonup> 'v) \<Rightarrow> nat" where
  "map_len m = card (dom m)"

definition range_order :: "('k \<rightharpoonup> 'v) \<Rightarrow> 'k list \<Rightarrow> bool" where
  "range_order m ks \<longleftrightarrow> distinct ks \<and> set ks = dom m"

definition range_values :: "('k \<rightharpoonup> 'v) \<Rightarrow> 'k list \<Rightarrow> 'v list" where
  "range_values m ks = List.map_filter m ks"

lemma range_orderD:
  assumes "range_order m ks"
  shows range_order_distinct: "distinct ks" and range_order_set: "set ks = dom m"
  using assms by (simp_all add: range_order_def)

lemma range_order_empty [simp]: "range_order Map.empty ks \<longleftrightarrow> ks = []"
  by (auto simp: range_order_def)

lemma range_values_Nil [simp]: "range_values m [] = []"
  by (simp add: range_values_def)

lemma range_values_Cons [simp]:
  "range_values m (k # ks) =
     (case m k of None \<Rightarrow> range_values m ks | Some v \<Rightarrow> v # range_values m ks)"
  by (simp add: range_values_def split: option.splits)

lemma range_values_dom:
  "set ks \<subseteq> dom m \<Longrightarrow> range_values m ks = map (\<lambda>k. the (m k)) ks"
  by (induction ks) auto

lemma length_range_values [go_map_simps]:
  assumes "range_order m ks"
  shows "length (range_values m ks) = map_len m"
proof -
  have "length (range_values m ks) = length ks"
    using assms by (simp add: range_values_dom range_order_def)
  also have "\<dots> = card (set ks)"
    using assms range_order_distinct by (metis distinct_card)
  finally show ?thesis
    using assms by (simp add: map_len_def range_order_def)
qed

lemma set_range_values [go_map_simps]: "set ks = dom m \<Longrightarrow> set (range_values m ks) = ran m"
  by (force simp: range_values_dom ran_def)

lemma mset_range_values_any:
  assumes "range_order m ks" and "range_order m ks'"
  shows "mset (range_values m ks) = mset (range_values m ks')"
proof -
  have "mset ks = mset ks'"
    using assms by (metis range_order_def set_eq_iff_mset_eq_distinct)
  then have "mset (map (\<lambda>k. the (m k)) ks) = mset (map (\<lambda>k. the (m k)) ks')"
    by simp
  with assms show ?thesis
    by (simp add: range_values_dom range_order_def)
qed

lemma map_len_update [go_map_simps]:
  "finite (dom m) \<Longrightarrow> map_len (m(k \<mapsto> v)) = (if k \<in> dom m then map_len m else Suc (map_len m))"
  by (simp add: map_len_def insert_absorb)

lemma map_len_delete [go_map_simps]:
  "finite (dom m) \<Longrightarrow> k \<in> dom m \<Longrightarrow> map_len (m(k := None)) = map_len m - 1"
  by (simp add: map_len_def)

lemma map_len_empty [simp]: "map_len Map.empty = 0"
  by (simp add: map_len_def)

lemma ball_range_order:
  "range_order m ks \<Longrightarrow> (\<forall>k \<in> set ks. \<forall>v. m k = Some v \<longrightarrow> Q v) \<longleftrightarrow> (\<forall>v \<in> ran m. Q v)"
  by (auto simp: range_order_def ran_def)

lemma range_order_finite: "range_order m ks \<Longrightarrow> finite (dom m)"
  by (metis range_order_def List.finite_set)

end
