(* ===== verification/Go_Strings.thy ===== *)
theory Go_Strings
  imports Go_Prelude
begin

text \<open>
  The functions of Go's \<open>strings\<close>, \<open>strconv\<close> and \<open>unicode/utf8\<close> that the program uses. A Go
  string is a sequence of bytes, so it is a HOL \<open>string\<close> (a list of 8-bit characters); where
  Go decodes UTF-8 (\<open>range\<close> over a string, \<open>TrimSpace\<close>, \<open>Fields\<close>, \<open>ToLower\<close>) the model
  decodes it too, an invalid byte being one rune U+FFFD of width one. The one table that is
  an argument is the case table of \<open>unicode.ToLower\<close> beyond ASCII.
\<close>

section \<open>UTF-8\<close>

definition byte :: "char \<Rightarrow> nat" where "byte c = of_char c"

definition is_cont :: "nat \<Rightarrow> nat \<Rightarrow> char \<Rightarrow> bool" where
  "is_cont lo hi c \<longleftrightarrow> lo \<le> byte c \<and> byte c \<le> hi"

definition rune_error :: nat where "rune_error = 65533"

text \<open>\<open>utf8.DecodeRuneInString\<close>: the rune and the number of bytes it takes.\<close>

definition decode2 :: "nat \<Rightarrow> string \<Rightarrow> nat \<times> nat" where
  "decode2 b s = (case s of
     c # _ \<Rightarrow> if is_cont 128 191 c then ((b - 192) * 64 + (byte c - 128), 2) else (rune_error, 1)
   | _ \<Rightarrow> (rune_error, 1))"

definition decode3 :: "nat \<Rightarrow> string \<Rightarrow> nat \<times> nat" where
  "decode3 b s = (case s of
     c # d # _ \<Rightarrow>
       if is_cont (if b = 224 then 160 else 128) (if b = 237 then 159 else 191) c
          \<and> is_cont 128 191 d
       then ((b - 224) * 4096 + (byte c - 128) * 64 + (byte d - 128), 3) else (rune_error, 1)
   | _ \<Rightarrow> (rune_error, 1))"

definition decode4 :: "nat \<Rightarrow> string \<Rightarrow> nat \<times> nat" where
  "decode4 b s = (case s of
     c # d # e # _ \<Rightarrow>
       if is_cont (if b = 240 then 144 else 128) (if b = 244 then 143 else 191) c
          \<and> is_cont 128 191 d \<and> is_cont 128 191 e
       then ((b - 240) * 262144 + (byte c - 128) * 4096 + (byte d - 128) * 64 + (byte e - 128), 4)
       else (rune_error, 1)
   | _ \<Rightarrow> (rune_error, 1))"

definition decode_rune :: "char \<Rightarrow> string \<Rightarrow> nat \<times> nat" where
  "decode_rune c s =
     (let b = byte c in
      if b < 128 then (b, 1)
      else if 194 \<le> b \<and> b \<le> 223 then decode2 b s
      else if 224 \<le> b \<and> b \<le> 239 then decode3 b s
      else if 240 \<le> b \<and> b \<le> 244 then decode4 b s
      else (rune_error, 1))"

text \<open>\<open>range s\<close>: the runes of a string, each with the bytes it was decoded from.\<close>

function chunks :: "string \<Rightarrow> (nat \<times> string) list" where
  "chunks [] = []"
| "chunks (c # s) =
     (let (r, w) = decode_rune c s
      in (r, c # take (w - 1) s) # chunks (drop (w - 1) s))"
  by pat_completeness auto
termination
  by (relation "measure length") auto

definition runes :: "string \<Rightarrow> nat list" where
  "runes s = map fst (chunks s)"

definition ascii :: "string \<Rightarrow> bool" where
  "ascii s \<longleftrightarrow> (\<forall>c \<in> set s. byte c < 128)"

lemma ascii_simps [simp]:
  "ascii []" "ascii (c # s) \<longleftrightarrow> byte c < 128 \<and> ascii s" "ascii (s @ t) \<longleftrightarrow> ascii s \<and> ascii t"
  by (auto simp: ascii_def)

lemma chunks_ascii_Cons [simp]:
  "byte c < 128 \<Longrightarrow> chunks (c # s) = (byte c, [c]) # chunks s"
  by (simp add: decode_rune_def)

lemma chunks_ascii: "ascii s \<Longrightarrow> chunks s = map (\<lambda>c. (byte c, [c])) s"
  by (induction s) (simp_all del: chunks.simps(2))

lemma runes_ascii: "ascii s \<Longrightarrow> runes s = map byte s"
  by (simp add: runes_def chunks_ascii)

lemma concat_chunks: "concat (map snd (chunks s)) = s"
proof (induction s rule: chunks.induct)
  case (2 c s)
  obtain r w where rw: "decode_rune c s = (r, w)" by force
  from "2.IH"[OF rw[symmetric] refl]
  have "concat (map snd (chunks (drop (w - 1) s))) = drop (w - 1) s" .
  with rw show ?case by simp
qed simp

lemma length_chunks_le: "length (chunks s) \<le> length s"
proof (induction s rule: chunks.induct)
  case (2 c s)
  obtain r w where rw: "decode_rune c s = (r, w)" by force
  from "2.IH"[OF rw[symmetric] refl] have "length (chunks (drop (w - 1) s)) \<le> length s"
    by simp
  with rw show ?case by simp
qed simp

text \<open>\<open>utf8.AppendRune\<close>; surrogates and values beyond U+10FFFF become U+FFFD.\<close>

definition encode_rune :: "nat \<Rightarrow> string" where
  "encode_rune r0 =
     (let r = (if r0 > 1114111 \<or> (55296 \<le> r0 \<and> r0 \<le> 57343) then rune_error else r0) in
      if r < 128 then [char_of r]
      else if r < 2048 then [char_of (192 + r div 64), char_of (128 + r mod 64)]
      else if r < 65536 then
        [char_of (224 + r div 4096), char_of (128 + r div 64 mod 64), char_of (128 + r mod 64)]
      else
        [char_of (240 + r div 262144), char_of (128 + r div 4096 mod 64),
         char_of (128 + r div 64 mod 64), char_of (128 + r mod 64)])"

section \<open>White space\<close>

text \<open>\<open>unicode.IsSpace\<close>.\<close>

definition IsSpace :: "nat \<Rightarrow> bool" where
  "IsSpace r \<longleftrightarrow> (9 \<le> r \<and> r \<le> 13) \<or> r = 32 \<or> r = 133 \<or> r = 160 \<or> r = 5760
     \<or> (8192 \<le> r \<and> r \<le> 8202) \<or> r = 8232 \<or> r = 8233 \<or> r = 8239 \<or> r = 8287 \<or> r = 12288"

definition trim_space_chunks :: "(nat \<times> string) list \<Rightarrow> (nat \<times> string) list" where
  "trim_space_chunks cs =
     rev (dropWhile (IsSpace \<circ> fst) (rev (dropWhile (IsSpace \<circ> fst) cs)))"

definition TrimSpace :: "string \<Rightarrow> string" where
  "TrimSpace s = concat (map snd (trim_space_chunks (chunks s)))"

fun fields_from :: "string \<Rightarrow> (nat \<times> string) list \<Rightarrow> string list" where
  "fields_from cur [] = (if cur = [] then [] else [cur])"
| "fields_from cur ((r, b) # cs) =
     (if IsSpace r then (if cur = [] then fields_from [] cs else cur # fields_from [] cs)
      else fields_from (cur @ b) cs)"

definition Fields :: "string \<Rightarrow> string list" where
  "Fields s = fields_from [] (chunks s)"

text \<open>A word has no white space; \<open>graphic\<close> characters are the ASCII ones that are not space.\<close>

definition graphic :: "char \<Rightarrow> bool" where
  "graphic c \<longleftrightarrow> byte c < 128 \<and> \<not> IsSpace (byte c)"

lemma graphic_ascii: "(\<forall>c \<in> set s. graphic c) \<Longrightarrow> ascii s"
  by (auto simp: graphic_def ascii_def)

lemma TrimSpace_Nil [simp]: "TrimSpace [] = []"
  by (simp add: TrimSpace_def trim_space_chunks_def)

lemma TrimSpace_ascii:
  assumes "ascii s"
  shows "TrimSpace s = rev (dropWhile (IsSpace \<circ> byte) (rev (dropWhile (IsSpace \<circ> byte) s)))"
proof -
  let ?f = "\<lambda>c. (byte c, [c])"
  have "IsSpace \<circ> fst \<circ> ?f = IsSpace \<circ> byte" by auto
  then have "trim_space_chunks (chunks s)
      = map ?f (rev (dropWhile (IsSpace \<circ> byte) (rev (dropWhile (IsSpace \<circ> byte) s))))"
    using assms by (simp add: trim_space_chunks_def chunks_ascii dropWhile_map rev_map flip: comp_assoc)
  moreover have "concat (map snd (map ?f t)) = t" for t
    by (induction t) auto
  ultimately show ?thesis by (simp add: TrimSpace_def)
qed

lemma TrimSpace_id:
  assumes "ascii s" and "s \<noteq> []" and "graphic (hd s)" and "graphic (last s)"
  shows "TrimSpace s = s"
proof -
  have "dropWhile (IsSpace \<circ> byte) s = s"
    using assms by (cases s) (auto simp: graphic_def)
  moreover have "dropWhile (IsSpace \<circ> byte) (rev s) = rev s"
    using assms by (cases s rule: rev_cases) (auto simp: graphic_def)
  ultimately show ?thesis using assms by (simp add: TrimSpace_ascii)
qed

lemma fields_from_word:
  "\<forall>c \<in> set w. graphic c \<Longrightarrow>
   fields_from cur (map (\<lambda>c. (byte c, [c])) w @ cs) = fields_from (cur @ w) cs"
  by (induction w arbitrary: cur) (auto simp: graphic_def)

text \<open>\<open>Fields\<close> undoes joining words with single spaces.\<close>

fun join_with :: "char \<Rightarrow> string list \<Rightarrow> string" where
  "join_with sep [] = []"
| "join_with sep [w] = w"
| "join_with sep (w # v # ws) = w @ sep # join_with sep (v # ws)"

definition is_word :: "string \<Rightarrow> bool" where
  "is_word w \<longleftrightarrow> w \<noteq> [] \<and> (\<forall>c \<in> set w. graphic c)"

lemma ascii_join_words:
  "byte sep < 128 \<Longrightarrow> \<forall>w \<in> set ws. ascii w \<Longrightarrow> ascii (join_with sep ws)"
  by (induction sep ws rule: join_with.induct) auto

lemma fields_join_words:
  assumes "\<forall>w \<in> set ws. is_word w"
  shows "Fields (join_with (CHR '' '') ws) = ws"
proof -
  have space: "byte (CHR '' '') = 32" by (simp add: byte_def)
  let ?f = "\<lambda>c. (byte c, [c])"
  have "fields_from [] (map ?f (join_with (CHR '' '') ws)) = ws"
    using assms
  proof (induction ws rule: induct_list012)
    case (2 w)
    then show ?case using fields_from_word[of w "[]" "[]"] by (auto simp: is_word_def)
  next
    case (3 w v ws)
    then show ?case by (auto simp: is_word_def fields_from_word space IsSpace_def)
  qed simp
  moreover have "ascii (join_with (CHR '' '') ws)"
    using assms by (intro ascii_join_words) (auto simp: is_word_def space intro: graphic_ascii)
  ultimately show ?thesis by (simp add: Fields_def chunks_ascii)
qed

section \<open>Splitting and searching\<close>

primrec Split :: "char \<Rightarrow> string \<Rightarrow> string list" where
  "Split sep [] = [[]]"
| "Split sep (c # cs) =
     (if c = sep then [] # Split sep cs
      else case Split sep cs of [] \<Rightarrow> [[c]] | w # ws \<Rightarrow> (c # w) # ws)"

lemma Split_not_Nil [simp]: "Split sep s \<noteq> []"
  by (induction s) (auto split: list.splits)

lemma Split_word: "sep \<notin> set w \<Longrightarrow> Split sep w = [w]"
  by (induction w) auto

lemma Split_append: "sep \<notin> set w \<Longrightarrow> Split sep (w @ sep # s) = w # Split sep s"
  by (induction w) auto

lemma Split_join_with:
  "ws \<noteq> [] \<Longrightarrow> \<forall>w \<in> set ws. sep \<notin> set w \<Longrightarrow> Split sep (join_with sep ws) = ws"
  by (induction sep ws rule: join_with.induct) (auto simp: Split_word Split_append)

lemma join_with_Split: "join_with sep (Split sep s) = s"
proof (induction s)
  case (Cons c s)
  obtain w ws where sp: "Split sep s = w # ws" by (cases "Split sep s") auto
  with Cons.IH show ?case by (cases ws) auto
qed simp

definition Cut :: "string \<Rightarrow> char \<Rightarrow> string \<times> string \<times> bool" where
  "Cut s sep =
     (if sep \<in> set s then (takeWhile (\<lambda>c. c \<noteq> sep) s, tl (dropWhile (\<lambda>c. c \<noteq> sep) s), True)
      else (s, [], False))"

lemma Cut_absent: "sep \<notin> set s \<Longrightarrow> Cut s sep = (s, [], False)"
  by (simp add: Cut_def)

lemma Cut_present: "sep \<notin> set a \<Longrightarrow> Cut (a @ sep # b) sep = (a, b, True)"
  by (induction a) (auto simp: Cut_def)

definition HasPrefix :: "string \<Rightarrow> string \<Rightarrow> bool" where
  "HasPrefix s p \<longleftrightarrow> take (length p) s = p"

definition HasSuffix :: "string \<Rightarrow> string \<Rightarrow> bool" where
  "HasSuffix s p \<longleftrightarrow> length p \<le> length s \<and> drop (length s - length p) s = p"

definition TrimPrefix :: "string \<Rightarrow> string \<Rightarrow> string" where
  "TrimPrefix s p = (if HasPrefix s p then drop (length p) s else s)"

definition TrimSuffix :: "string \<Rightarrow> string \<Rightarrow> string" where
  "TrimSuffix s p = (if HasSuffix s p then take (length s - length p) s else s)"

primrec Contains :: "string \<Rightarrow> string \<Rightarrow> bool" where
  "Contains [] p = (p = [])"
| "Contains (c # s) p = (HasPrefix (c # s) p \<or> Contains s p)"

lemma HasPrefix_append [simp]: "HasPrefix (p @ s) p"
  by (simp add: HasPrefix_def)

lemma HasPrefix_iff: "HasPrefix s p \<longleftrightarrow> (\<exists>t. s = p @ t)"
  by (auto simp: HasPrefix_def) (metis append_take_drop_id)

lemma Contains_iff: "Contains s p \<longleftrightarrow> (\<exists>a b. s = a @ p @ b)"
proof (induction s)
  case (Cons c s)
  show ?case
  proof
    assume "Contains (c # s) p"
    then show "\<exists>a b. c # s = a @ p @ b"
      using Cons.IH by (auto simp: HasPrefix_iff intro: exI[of _ "[]"]) (metis append_Cons)
  next
    assume "\<exists>a b. c # s = a @ p @ b"
    then obtain a b where ab: "c # s = a @ p @ b" by blast
    show "Contains (c # s) p"
    proof (cases a)
      case Nil
      with ab have "HasPrefix (c # s) p" by (auto simp: HasPrefix_iff)
      then show ?thesis by simp
    next
      case (Cons d a')
      with ab have "s = a' @ p @ b" by simp
      with Cons.IH show ?thesis by auto
    qed
  qed
qed simp

definition ContainsAny :: "string \<Rightarrow> string \<Rightarrow> bool" where
  "ContainsAny s cs \<longleftrightarrow> (\<exists>c \<in> set s. c \<in> set cs)"

definition RemoveChar :: "char \<Rightarrow> string \<Rightarrow> string" where
  "RemoveChar c s = filter (\<lambda>d. d \<noteq> c) s"

section \<open>Case\<close>

definition lower_ascii :: "char \<Rightarrow> char" where
  "lower_ascii c = (if 65 \<le> byte c \<and> byte c \<le> 90 then char_of (byte c + 32) else c)"

definition upper_ascii :: "char \<Rightarrow> char" where
  "upper_ascii c = (if 97 \<le> byte c \<and> byte c \<le> 122 then char_of (byte c - 32) else c)"

text \<open>
  \<open>strings.ToLower\<close>: byte-wise on ASCII, otherwise rune-wise, \<open>ul\<close> being the case table of
  \<open>unicode.ToLower\<close> beyond ASCII.
\<close>

definition lower_rune :: "(nat \<Rightarrow> nat) \<Rightarrow> nat \<Rightarrow> nat" where
  "lower_rune ul r = (if r < 128 then byte (lower_ascii (char_of r)) else ul r)"

definition ToLower :: "(nat \<Rightarrow> nat) \<Rightarrow> string \<Rightarrow> string" where
  "ToLower ul s =
     (if ascii s then map lower_ascii s
      else concat (map (\<lambda>r. encode_rune (lower_rune ul r)) (runes s)))"

lemma lower_ascii_idem [simp]: "lower_ascii (lower_ascii c) = lower_ascii c"
  by (auto simp: lower_ascii_def byte_def)

lemma byte_lower_ascii_less: "byte c < 128 \<Longrightarrow> byte (lower_ascii c) < 128"
  by (auto simp: lower_ascii_def byte_def)

lemma ToLower_ascii: "ascii s \<Longrightarrow> ToLower ul s = map lower_ascii s"
  by (simp add: ToLower_def)

lemma ToLower_idem_ascii: "ascii s \<Longrightarrow> ToLower ul (ToLower ul s) = ToLower ul s"
  by (simp add: ToLower_def ascii_def byte_lower_ascii_less)

lemma ToLower_Nil [simp]: "ToLower ul [] = []"
  by (simp add: ToLower_def)

section \<open>Decimal numbers\<close>

definition digit :: "nat \<Rightarrow> char" where "digit d = char_of (48 + d)"

definition digit_val :: "char \<Rightarrow> nat option" where
  "digit_val c = (if 48 \<le> byte c \<and> byte c \<le> 57 then Some (byte c - 48) else None)"

fun show_nat :: "nat \<Rightarrow> string" where
  "show_nat n = (if n < 10 then [digit n] else show_nat (n div 10) @ [digit (n mod 10)])"

declare show_nat.simps [simp del]

definition show_int :: "int \<Rightarrow> string" where
  "show_int i = (if i < 0 then CHR ''-'' # show_nat (nat (- i)) else show_nat (nat i))"

fun read_digits :: "nat \<Rightarrow> string \<Rightarrow> nat option" where
  "read_digits acc [] = Some acc"
| "read_digits acc (c # cs) =
     (case digit_val c of None \<Rightarrow> None | Some d \<Rightarrow> read_digits (10 * acc + d) cs)"

text \<open>\<open>strconv.Atoi\<close>; both of its errors (syntax and range) are \<open>None\<close>.\<close>

definition Atoi :: "string \<Rightarrow> int option" where
  "Atoi s =
     (let neg = (s \<noteq> [] \<and> hd s = CHR ''-'');
          ds = (if s \<noteq> [] \<and> (hd s = CHR ''-'' \<or> hd s = CHR ''+'') then tl s else s) in
      if ds = [] then None
      else case read_digits 0 ds of
        None \<Rightarrow> None
      | Some n \<Rightarrow>
          let i = (if neg then - int n else int n)
          in if in_int64 i then Some i else None)"

lemma digit_val_digit [simp]: "d < 10 \<Longrightarrow> digit_val (digit d) = Some d"
  by (simp add: digit_val_def digit_def byte_def)

lemma read_digits_append:
  "read_digits acc (xs @ ys) = Option.bind (read_digits acc xs) (\<lambda>a. read_digits a ys)"
  by (induction xs arbitrary: acc) (auto split: option.splits)

lemma read_digits_show_nat [simp]: "read_digits 0 (show_nat n) = Some n"
proof (induction n rule: show_nat.induct)
  case (1 n)
  then show ?case
    by (cases "n < 10") (simp_all add: show_nat.simps[of n] read_digits_append)
qed

lemma show_nat_not_Nil [simp]: "show_nat n \<noteq> []"
  by (simp add: show_nat.simps[of n])

lemma digit_set: "d < 10 \<Longrightarrow> digit d \<in> set ''0123456789''"
proof -
  assume "d < 10"
  then have "d \<in> {0, 1, 2, 3, 4, 5, 6, 7, 8, 9}" by auto
  then show ?thesis by (elim insertE) (simp_all add: digit_def char_of_def bit_0)
qed

lemma set_show_nat: "set (show_nat n) \<subseteq> set ''0123456789''"
proof (induction n rule: show_nat.induct)
  case (1 n)
  then show ?case
    using digit_set[of n] digit_set[of "n mod 10"]
    by (cases "n < 10") (simp_all add: show_nat.simps[of n])
qed

lemma hd_show_nat: "hd (show_nat n) \<in> set ''0123456789''"
  using set_show_nat[of n] by (meson hd_in_set show_nat_not_Nil subsetD)

lemma Atoi_show_nat: "int n \<le> int64_max \<Longrightarrow> Atoi (show_nat n) = Some (int n)"
  using hd_show_nat[of n]
  by (auto simp: Atoi_def in_int64_def int64_min_def)

lemma Atoi_show_int: "in_int64 i \<Longrightarrow> Atoi (show_int i) = Some i"
  using hd_show_nat[of "nat i"]
  by (auto simp: Atoi_def show_int_def in_int64_def)

lemma Atoi_in_int64: "Atoi s = Some i \<Longrightarrow> in_int64 i"
  by (auto simp: Atoi_def Let_def split: if_splits option.splits)

end
