(* ===== verification/Go_Time.thy ===== *)
theory Go_Time
  imports Go_Strings
begin

text \<open>
  Go's \<open>time\<close> package, as far as the program uses it. A \<open>time.Time\<close> is the instant it
  denotes, in nanoseconds since the zero time (January 1, year 1, 00:00:00 UTC), so the zero
  \<open>Time\<close> is 0 and \<open>Before\<close>, \<open>After\<close>, \<open>Equal\<close> are the order of \<open>int\<close>. A \<open>time.Duration\<close> is a
  number of nanoseconds. The clock fields of a time depend on its location: a \<open>zone\<close> gives
  the offset from UTC, in seconds, at each second (the time zone database is an argument).
\<close>

type_synonym instant = int
type_synonym duration = int
type_synonym zone = "int \<Rightarrow> int"

definition Nanosecond :: duration where "Nanosecond = 1"
definition Millisecond :: duration where "Millisecond = 1000000"
definition Second :: duration where "Second = 1000000000"
definition Minute_d :: duration where "Minute_d = 60000000000"
definition Hour_d :: duration where "Hour_d = 3600000000000"

lemmas duration_defs = Nanosecond_def Millisecond_def Second_def Minute_d_def Hour_d_def

text \<open>\<open>Duration.Milliseconds\<close> rounds towards zero.\<close>

definition Milliseconds :: "duration \<Rightarrow> int" where
  "Milliseconds d = (if d < 0 then - (- d div Millisecond) else d div Millisecond)"

definition utc :: zone where "utc s = 0"

definition zero_time :: instant where "zero_time = 0"
definition IsZero :: "instant \<Rightarrow> bool" where "IsZero t \<longleftrightarrow> t = zero_time"

definition Truncate :: "instant \<Rightarrow> duration \<Rightarrow> instant" where
  "Truncate t d = (if d \<le> 0 then t else t - t mod d)"

text \<open>\<open>Time.Sub\<close> saturates at the range of \<open>Duration\<close>.\<close>

definition Time_Sub :: "instant \<Rightarrow> instant \<Rightarrow> duration" where
  "Time_Sub t u = max int64_min (min int64_max (t - u))"

definition unix_epoch :: instant where "unix_epoch = 62135596800 * Second"

definition UnixNano :: "instant \<Rightarrow> int" where "UnixNano t = wrap64 (t - unix_epoch)"
definition Unix_seconds :: "instant \<Rightarrow> int" where "Unix_seconds t = t div Second - 62135596800"
definition of_unix_nano :: "int \<Rightarrow> instant" where "of_unix_nano n = unix_epoch + n"
definition of_unix_seconds :: "int \<Rightarrow> instant" where "of_unix_seconds n = unix_epoch + n * Second"

lemma Truncate_le: "Truncate t d \<le> t"
  by (simp add: Truncate_def)

lemma Truncate_dvd: "0 < d \<Longrightarrow> d dvd Truncate t d"
  by (simp add: Truncate_def dvd_minus_mod)

lemma Truncate_bounds: "0 < d \<Longrightarrow> Truncate t d \<le> t \<and> t < Truncate t d + d"
  by (simp add: Truncate_def)

lemma Truncate_multiple: "0 < d \<Longrightarrow> d dvd t \<Longrightarrow> Truncate t d = t"
  by (simp add: Truncate_def)

lemma Truncate_idem [simp]: "Truncate (Truncate t d) d = Truncate t d"
  by (cases "0 < d") (simp_all add: Truncate_multiple Truncate_dvd, simp add: Truncate_def)

lemma Truncate_eq_iff:
  assumes "0 < d"
  shows "Truncate t d = Truncate u d \<longleftrightarrow> t div d = u div d"
proof -
  have "Truncate x d = d * (x div d)" for x
    using assms by (simp add: Truncate_def minus_mod_eq_mult_div)
  with assms show ?thesis by simp
qed

section \<open>The clock and the calendar\<close>

definition abs_seconds :: "zone \<Rightarrow> instant \<Rightarrow> int" where
  "abs_seconds z t = (let s = t div Second in s + z s)"

definition abs_days :: "zone \<Rightarrow> instant \<Rightarrow> int" where
  "abs_days z t = abs_seconds z t div 86400"

definition time_Second :: "zone \<Rightarrow> instant \<Rightarrow> int" where
  "time_Second z t = abs_seconds z t mod 60"

definition time_Minute :: "zone \<Rightarrow> instant \<Rightarrow> int" where
  "time_Minute z t = abs_seconds z t mod 3600 div 60"

definition time_Hour :: "zone \<Rightarrow> instant \<Rightarrow> int" where
  "time_Hour z t = abs_seconds z t mod 86400 div 3600"

text \<open>January 1 of year 1 was a Monday; \<open>time.Sunday\<close> is 0.\<close>

definition time_Weekday :: "zone \<Rightarrow> instant \<Rightarrow> int" where
  "time_Weekday z t = (abs_days z t + 1) mod 7"

text \<open>The year, whether it is a leap year, and the day of the year, from the day number.\<close>

definition year_yday :: "int \<Rightarrow> int \<times> bool \<times> int" where
  "year_yday d =
     (let n400 = d div 146097; r400 = d mod 146097;
          n100 = min (r400 div 36524) 3; r100 = r400 - n100 * 36524;
          n4 = r100 div 1461; r4 = r100 mod 1461;
          n1 = min (r4 div 365) 3
      in (400 * n400 + 100 * n100 + 4 * n4 + n1 + 1,
          n1 = 3 \<and> (n4 \<noteq> 24 \<or> n100 = 3),
          r4 - n1 * 365))"

definition month_lengths :: "bool \<Rightarrow> int list" where
  "month_lengths leap = [31, (if leap then 29 else 28), 31, 30, 31, 30, 31, 31, 30, 31, 30, 31]"

fun month_day :: "int list \<Rightarrow> int \<Rightarrow> int \<times> int" where
  "month_day [] y = (1, y + 1)"
| "month_day (l # ls) y =
     (if y < l then (1, y + 1) else (let (m, d) = month_day ls (y - l) in (m + 1, d)))"

definition civil :: "int \<Rightarrow> int \<times> int \<times> int" where
  "civil days =
     (let (y, leap, yday) = year_yday days; (m, d) = month_day (month_lengths leap) yday
      in (y, m, d))"

definition time_Year :: "zone \<Rightarrow> instant \<Rightarrow> int" where
  "time_Year z t = fst (civil (abs_days z t))"

definition time_Month :: "zone \<Rightarrow> instant \<Rightarrow> int" where
  "time_Month z t = fst (snd (civil (abs_days z t)))"

definition time_Day :: "zone \<Rightarrow> instant \<Rightarrow> int" where
  "time_Day z t = snd (snd (civil (abs_days z t)))"

lemma div_bounds: "0 \<le> (x :: int) \<Longrightarrow> x < a * b \<Longrightarrow> 0 < b \<Longrightarrow> 0 \<le> x div b \<and> x div b < a"
proof -
  assume x: "0 \<le> x" "x < a * b" "0 < b"
  have "b * (x div b) \<le> x" using x by (simp add: mult_div_mod_eq minus_mod_eq_mult_div [symmetric])
  with x(2) have "b * (x div b) < b * a" by (simp only: mult.commute order.strict_trans1)
  then have "x div b < a" using x(3) by (simp only: mult_less_cancel_left_pos)
  with x show ?thesis by (simp add: pos_imp_zdiv_nonneg_iff)
qed

lemma time_Minute_bounds: "0 \<le> time_Minute z t \<and> time_Minute z t \<le> 59"
proof -
  have "0 \<le> abs_seconds z t mod 3600" and "abs_seconds z t mod 3600 < 60 * 60" by simp_all
  then show ?thesis using div_bounds[of "abs_seconds z t mod 3600" 60 60] by (simp add: time_Minute_def)
qed

lemma time_Hour_bounds: "0 \<le> time_Hour z t \<and> time_Hour z t \<le> 23"
proof -
  have "0 \<le> abs_seconds z t mod 86400" and "abs_seconds z t mod 86400 < 24 * 3600" by simp_all
  then show ?thesis using div_bounds[of "abs_seconds z t mod 86400" 24 3600] by (simp add: time_Hour_def)
qed

lemma time_Weekday_bounds: "0 \<le> time_Weekday z t \<and> time_Weekday z t \<le> 6"
proof -
  have "0 \<le> (abs_days z t + 1) mod 7" and "(abs_days z t + 1) mod 7 < 7" by simp_all
  then show ?thesis by (simp add: time_Weekday_def)
qed

lemma min_div_rem:
  fixes r c :: int
  assumes "0 \<le> r" and "r \<le> 4 * c" and "0 < c"
  defines "n \<equiv> min (r div c) 3"
  shows "0 \<le> r - n * c \<and> r - n * c \<le> c \<and> (n \<noteq> 3 \<longrightarrow> r - n * c < c)"
proof -
  have m: "r - r div c * c = r mod c" by (simp add: minus_div_mult_eq_mod)
  have b: "0 \<le> r mod c" "r mod c < c" using assms by simp_all
  show ?thesis
  proof (cases "r div c \<le> 3")
    case True
    then have "n = r div c" by (simp add: n_def)
    with m b show ?thesis by simp
  next
    case False
    then have n: "n = 3" by (simp add: n_def)
    have "3 * c \<le> r div c * c" using False assms by (intro mult_right_mono) auto
    then have "3 * c \<le> r" using m b by linarith
    with n assms show ?thesis by simp
  qed
qed

lemma year_yday_bounds:
  assumes "year_yday d = (y, leap, yday)"
  shows "0 \<le> yday \<and> yday < (if leap then 366 else 365)"
proof -
  define r where "r = d mod 146097"
  define n100 where "n100 = min (r div 36524) 3"
  define r100 where "r100 = r - n100 * 36524"
  define n4 where "n4 = r100 div 1461"
  define r4 where "r4 = r100 mod 1461"
  define n1 where "n1 = min (r4 div 365) 3"
  have e: "leap = (n1 = 3 \<and> (n4 \<noteq> 24 \<or> n100 = 3))" "yday = r4 - n1 * 365"
    using assms
    unfolding year_yday_def Let_def
      r_def[symmetric] n100_def[symmetric] r100_def[symmetric] n4_def[symmetric]
      r4_def[symmetric] n1_def[symmetric]
    by (simp_all only: prod.inject)
  have r: "0 \<le> r" "r < 146097" by (simp_all add: r_def)
  have b100: "n100 \<noteq> 3 \<Longrightarrow> r100 < 36524"
    using min_div_rem[of r 36524] r by (simp add: r100_def n100_def)
  have b4: "0 \<le> r4" "r4 \<le> 1460" by (simp_all add: r4_def)
  have eq: "r100 = 1461 * n4 + r4" by (simp add: n4_def r4_def)
  have short: "n4 = 24 \<Longrightarrow> n100 \<noteq> 3 \<Longrightarrow> r4 < 1460" using b100 eq by simp
  have b1: "0 \<le> r4 - n1 * 365" "r4 - n1 * 365 \<le> 365" "n1 \<noteq> 3 \<Longrightarrow> r4 - n1 * 365 < 365"
    using min_div_rem[of r4 365] b4 by (simp_all add: n1_def)
  show ?thesis
  proof (cases "n1 = 3")
    case True
    then show ?thesis using e b1 short by auto
  next
    case False
    then show ?thesis using e b1 by auto
  qed
qed

lemma month_day_bounds:
  assumes "ls \<noteq> []" and "0 \<le> y" and "y < sum_list ls" and "month_day ls y = (m, d)"
  shows "1 \<le> m \<and> m \<le> int (length ls) \<and> 1 \<le> d \<and> d \<le> ls ! nat (m - 1)"
  using assms
proof (induction ls y arbitrary: m d rule: month_day.induct)
  case (2 l ls y)
  show ?case
  proof (cases "y < l")
    case True
    with "2.prems" show ?thesis by simp
  next
    case False
    then obtain m' d' where md: "month_day ls (y - l) = (m', d')" by force
    have ne: "ls \<noteq> []" using False "2.prems" by auto
    with False "2.prems" md have
      ih: "1 \<le> m' \<and> m' \<le> int (length ls) \<and> 1 \<le> d' \<and> d' \<le> ls ! nat (m' - 1)"
      using "2.IH"[of m' d'] by simp
    moreover have "m = m' + 1" "d = d'" using False "2.prems" md by simp_all
    moreover have "nat m' = Suc (nat (m' - 1))" using ih by linarith
    ultimately show ?thesis by simp
  qed
qed simp

lemma civil_bounds:
  assumes "civil days = (y, m, d)"
  shows "1 \<le> m \<and> m \<le> 12 \<and> 1 \<le> d \<and> d \<le> 31 \<and> (m = 2 \<longrightarrow> d \<le> 29)"
proof -
  obtain yy leap yday where yd: "year_yday days = (yy, leap, yday)" by (metis prod_cases3)
  from assms yd have md: "month_day (month_lengths leap) yday = (m, d)"
    by (simp add: civil_def split: prod.splits)
  have b: "1 \<le> m \<and> m \<le> 12 \<and> 1 \<le> d \<and> d \<le> month_lengths leap ! nat (m - 1)"
    using month_day_bounds[OF _ _ _ md] year_yday_bounds[OF yd]
    by (auto simp: month_lengths_def split: if_splits)
  then have "m \<in> {1, 2, 3, 4, 5, 6, 7, 8, 9, 10, 11, 12}" by (simp, presburger)
  with b show ?thesis by (auto simp: month_lengths_def split: if_splits)
qed

lemma time_Month_bounds: "1 \<le> time_Month z t \<and> time_Month z t \<le> 12"
  and time_Day_bounds: "1 \<le> time_Day z t \<and> time_Day z t \<le> 31"
  and february_days: "time_Month z t = 2 \<Longrightarrow> time_Day z t \<le> 29"
proof -
  have "civil (abs_days z t) = (time_Year z t, time_Month z t, time_Day z t)"
    by (simp add: time_Month_def time_Day_def time_Year_def)
  from civil_bounds[OF this]
  show "1 \<le> time_Month z t \<and> time_Month z t \<le> 12"
    and "1 \<le> time_Day z t \<and> time_Day z t \<le> 31"
    and "time_Month z t = 2 \<Longrightarrow> time_Day z t \<le> 29" by auto
qed

section \<open>RFC 3339\<close>

definition pad_int :: "nat \<Rightarrow> int \<Rightarrow> string" where
  "pad_int w i =
     (let ds = show_nat (nat \<bar>i\<bar>)
      in (if i < 0 then ''-'' else []) @ replicate (w - length ds) (CHR ''0'') @ ds)"

definition zone_suffix :: "int \<Rightarrow> string" where
  "zone_suffix off =
     (if off = 0 then ''Z''
      else let mins = \<bar>off\<bar> div 60
           in (if off \<le> - 60 then ''-'' else ''+'') @ pad_int 2 (mins div 60) @ '':'' @ pad_int 2 (mins mod 60))"

definition format_RFC3339 :: "zone \<Rightarrow> instant \<Rightarrow> string" where
  "format_RFC3339 z t =
     pad_int 4 (time_Year z t) @ ''-'' @ pad_int 2 (time_Month z t) @ ''-'' @ pad_int 2 (time_Day z t)
     @ ''T'' @ pad_int 2 (time_Hour z t) @ '':'' @ pad_int 2 (time_Minute z t)
     @ '':'' @ pad_int 2 (time_Second z t) @ zone_suffix (z (t div Second))"

end
