(* ===== verification/Cron.thy ===== *)
theory Cron
  imports Go_Time
begin

unbundle bit_operations_syntax

text \<open>
  The cron expressions of the scheduler (\<open>modules/scheduler/cron.go\<close>): parsing a five-field
  expression into one 64-bit set per field, matching a time against it, and searching for the
  next match. The fields' loops are kept as the code has them, with the wrap-around of Go's
  \<open>int\<close>, so a loop that would not end is the result \<open>None\<close>.
\<close>

section \<open>The code\<close>

subsection \<open>Field boundaries and errors\<close>

definition minMinute :: int where "minMinute = 0"
definition maxMinute :: int where "maxMinute = 59"
definition minHour :: int where "minHour = 0"
definition maxHour :: int where "maxHour = 23"
definition minDayMonth :: int where "minDayMonth = 1"
definition maxDayMonth :: int where "maxDayMonth = 31"
definition minMonth :: int where "minMonth = 1"
definition maxMonth :: int where "maxMonth = 12"
definition minDayWeek :: int where "minDayWeek = 0"
definition maxDayWeek :: int where "maxDayWeek = 6"
definition fieldCount :: nat where "fieldCount = 5"

lemmas field_bounds =
  minMinute_def maxMinute_def minHour_def maxHour_def minDayMonth_def maxDayMonth_def
  minMonth_def maxMonth_def minDayWeek_def maxDayWeek_def

text \<open>The errors of a field, all of which wrap \<open>ErrFieldRange\<close>, and those of an expression.\<close>

datatype field_error =
    InvalidStep string
  | InvalidRangeStart string
  | InvalidRangeEnd string
  | RangeOutside int int int int
  | InvalidValue string
  | ValueOutside int int int

datatype cron_error =
    ErrEmptyExpr
  | ErrInvalidCron_count nat
  | ErrInvalidCron string field_error

record cron_expr =
  Minute :: u64
  Hour :: u64
  DayMonth :: u64
  Month :: u64
  DayWeek :: u64
  raw :: string

subsection \<open>Bit sets\<close>

definition safeUint :: "int \<Rightarrow> nat" where
  "safeUint v = (if v < 0 then 0 else nat v)"

definition setBit :: "u64 \<Rightarrow> nat \<Rightarrow> u64" where
  "setBit bits pos = bits OR push_bit pos 1"

definition hasBit :: "u64 \<Rightarrow> nat \<Rightarrow> bool" where
  "hasBit bits pos \<longleftrightarrow> bits AND push_bit pos 1 \<noteq> 0"

subsection \<open>Parsing one field\<close>

text \<open>The loop \<open>for v := start; v <= end; v += step\<close> of \<open>parseWildcard\<close> and \<open>parseRange\<close>.\<close>

partial_function (option) bitLoop :: "int \<Rightarrow> int \<Rightarrow> int \<Rightarrow> u64 \<Rightarrow> u64 option" where
  "bitLoop v hi step bits =
     (if v \<le> hi then bitLoop (wrap64 (v + step)) hi step (setBit bits (safeUint v))
      else Some bits)"

definition parseWildcard :: "int \<Rightarrow> int \<Rightarrow> int \<Rightarrow> u64 option" where
  "parseWildcard lo hi step = bitLoop lo hi step 0"

definition parseRange ::
    "string \<Rightarrow> string \<Rightarrow> int \<Rightarrow> int \<Rightarrow> int \<Rightarrow> (field_error + u64) option" where
  "parseRange startStr endStr lo hi step =
     (case Atoi startStr of
        None \<Rightarrow> Some (Inl (InvalidRangeStart startStr))
      | Some start \<Rightarrow>
         (case Atoi endStr of
            None \<Rightarrow> Some (Inl (InvalidRangeEnd endStr))
          | Some ende \<Rightarrow>
              if start < lo \<or> ende > hi \<or> start > ende
              then Some (Inl (RangeOutside start ende lo hi))
              else map_option Inr (bitLoop start ende step 0)))"

definition parseSingle :: "string \<Rightarrow> int \<Rightarrow> int \<Rightarrow> field_error + u64" where
  "parseSingle valStr lo hi =
     (case Atoi valStr of
        None \<Rightarrow> Inl (InvalidValue valStr)
      | Some val \<Rightarrow>
          if val < lo \<or> val > hi then Inl (ValueOutside val lo hi)
          else Inr (setBit 0 (safeUint val)))"

definition parseStep :: "bool \<Rightarrow> string \<Rightarrow> int option" where
  "parseStep hasStep stepStr =
     (if hasStep
      then (case Atoi stepStr of None \<Rightarrow> None | Some s \<Rightarrow> if s \<le> 0 then None else Some s)
      else Some 1)"

definition parsePart :: "string \<Rightarrow> int \<Rightarrow> int \<Rightarrow> (field_error + u64) option" where
  "parsePart part lo hi =
     (let (rangeStr, stepStr, hasStep) = Cut part (CHR ''/'') in
      case parseStep hasStep stepStr of
        None \<Rightarrow> Some (Inl (InvalidStep stepStr))
      | Some step \<Rightarrow>
          if rangeStr = ''*'' then map_option Inr (parseWildcard lo hi step)
          else
            (let (startStr, endStr, isRange) = Cut rangeStr (CHR ''-'')
             in if isRange then parseRange startStr endStr lo hi step
                else Some (parseSingle rangeStr lo hi)))"

fun parseParts :: "string list \<Rightarrow> int \<Rightarrow> int \<Rightarrow> u64 \<Rightarrow> (field_error + u64) option" where
  "parseParts [] lo hi bits = Some (Inr bits)"
| "parseParts (part # parts) lo hi bits =
     (case parsePart part lo hi of
        None \<Rightarrow> None
      | Some (Inl e) \<Rightarrow> Some (Inl e)
      | Some (Inr b) \<Rightarrow> parseParts parts lo hi (bits OR b))"

definition parseField :: "string \<Rightarrow> int \<Rightarrow> int \<Rightarrow> (field_error + u64) option" where
  "parseField field lo hi = parseParts (Split (CHR '','') field) lo hi 0"

subsection \<open>Parsing an expression\<close>

definition expandAlias :: "string \<Rightarrow> string" where
  "expandAlias expr =
     (if expr = ''@yearly'' \<or> expr = ''@annually'' then ''0 0 1 1 *''
      else if expr = ''@monthly'' then ''0 0 1 * *''
      else if expr = ''@weekly'' then ''0 0 * * 0''
      else if expr = ''@daily'' \<or> expr = ''@midnight'' then ''0 0 * * *''
      else if expr = ''@hourly'' then ''0 * * * *''
      else expr)"

text \<open>\<open>if err != nil { return ..., fmt.Errorf("%w: name: %w", ErrInvalidCron, err) }\<close>\<close>

definition onField ::
    "string \<Rightarrow> (field_error + u64) option \<Rightarrow> (u64 \<Rightarrow> (cron_error + 'a) option)
     \<Rightarrow> (cron_error + 'a) option" where
  "onField name r k =
     (case r of
        None \<Rightarrow> None
      | Some (Inl e) \<Rightarrow> Some (Inl (ErrInvalidCron name e))
      | Some (Inr b) \<Rightarrow> k b)"

definition ParseCron :: "string \<Rightarrow> (cron_error + cron_expr) option" where
  "ParseCron expr0 =
     (let trimmed = TrimSpace expr0 in
      if trimmed = [] then Some (Inl ErrEmptyExpr)
      else
        (let expr = expandAlias trimmed; fields = Fields expr in
         if length fields \<noteq> fieldCount then Some (Inl (ErrInvalidCron_count (length fields)))
         else
           onField ''minute'' (parseField (fields ! 0) minMinute maxMinute) (\<lambda>minute.
           onField ''hour'' (parseField (fields ! 1) minHour maxHour) (\<lambda>hour.
           onField ''day-of-month'' (parseField (fields ! 2) minDayMonth maxDayMonth) (\<lambda>dom.
           onField ''month'' (parseField (fields ! 3) minMonth maxMonth) (\<lambda>month.
           onField ''day-of-week'' (parseField (fields ! 4) minDayWeek maxDayWeek) (\<lambda>dow.
             Some (Inr \<lparr>Minute = minute, Hour = hour, DayMonth = dom, Month = month,
                        DayWeek = dow, raw = expr\<rparr>))))))))"

subsection \<open>Matching and searching\<close>

definition Matches :: "cron_expr \<Rightarrow> zone \<Rightarrow> instant \<Rightarrow> bool" where
  "Matches c z t \<longleftrightarrow>
     hasBit (Minute c) (safeUint (time_Minute z t)) \<and>
     hasBit (Hour c) (safeUint (time_Hour z t)) \<and>
     hasBit (DayMonth c) (safeUint (time_Day z t)) \<and>
     hasBit (Month c) (safeUint (time_Month z t)) \<and>
     hasBit (DayWeek c) (safeUint (time_Weekday z t))"

definition maxIter :: nat where "maxIter = 366 * 24 * 60"

fun searchNext :: "nat \<Rightarrow> cron_expr \<Rightarrow> zone \<Rightarrow> instant \<Rightarrow> instant" where
  "searchNext 0 c z next = zero_time"
| "searchNext (Suc n) c z next =
     (if Matches c z next then next else searchNext n c z (next + Minute_d))"

definition NextAfter :: "cron_expr \<Rightarrow> zone \<Rightarrow> instant \<Rightarrow> instant" where
  "NextAfter c z t = searchNext maxIter c z (Truncate t Minute_d + Minute_d)"

definition cron_String :: "cron_expr \<Rightarrow> string" where
  "cron_String c = raw c"

section \<open>Bit sets as sets of numbers\<close>

lemma bit_shifted_one: "bit (push_bit p (1 :: u64)) n \<longleftrightarrow> n = p \<and> p < 64"
  by (auto simp: bit_exp_iff possible_bit_word)

lemma bit_setBit: "bit (setBit bits p) n \<longleftrightarrow> bit bits n \<or> (n = p \<and> p < 64)"
  unfolding setBit_def bit_or_iff bit_shifted_one by (rule refl)

lemma bit_u64_less: "bit (w :: u64) n \<Longrightarrow> n < 64"
  using bit_imp_le_length[of w n] by simp

lemma hasBit_iff: "hasBit bits p \<longleftrightarrow> bit bits p"
proof -
  have b: "bit (bits AND push_bit p 1) n \<longleftrightarrow> bit bits p \<and> n = p" for n
    unfolding bit_and_iff bit_shifted_one using bit_u64_less by blast
  show ?thesis
  proof (cases "bit bits p")
    case True
    then have "bit (bits AND push_bit p 1) p" using b by blast
    then have "bits AND push_bit p 1 \<noteq> 0" by auto
    with True show ?thesis by (simp only: hasBit_def not_False_eq_True)
  next
    case False
    then have "bits AND push_bit p 1 = 0" by (intro bit_word_eqI) (simp only: b bit_0_eq, simp)
    with False show ?thesis by (simp add: hasBit_def)
  qed
qed

lemma safeUint_eq [simp]: "0 \<le> v \<Longrightarrow> safeUint v = nat v"
  by (simp add: safeUint_def)

lemma safeUint_neg [simp]: "v < 0 \<Longrightarrow> safeUint v = 0"
  by (simp add: safeUint_def)

lemma bitLoop_stop: "hi < v \<Longrightarrow> bitLoop v hi step bits = Some bits"
  by (subst bitLoop.simps) simp

lemma bitLoop_step:
  "v \<le> hi \<Longrightarrow> bitLoop v hi step bits = bitLoop (wrap64 (v + step)) hi step (setBit bits (safeUint v))"
  by (subst bitLoop.simps) simp

text \<open>The numbers a loop from \<open>v\<close> to \<open>hi\<close> visits.\<close>

definition stepped :: "int \<Rightarrow> int \<Rightarrow> int \<Rightarrow> int set" where
  "stepped v hi step = {n. v \<le> n \<and> n \<le> hi \<and> step dvd (n - v)}"

lemma stepped_unfold:
  assumes "0 < step"
  shows "n \<in> stepped v hi step \<longleftrightarrow> (v \<le> hi \<and> n = v) \<or> n \<in> stepped (v + step) hi step"
proof
  assume n: "n \<in> stepped v hi step"
  show "(v \<le> hi \<and> n = v) \<or> n \<in> stepped (v + step) hi step"
  proof (cases "n = v")
    case False
    with n have "0 < n - v" "step dvd n - v" by (auto simp: stepped_def)
    then have "step \<le> n - v" by (rule zdvd_imp_le[rotated])
    moreover have "step dvd n - v - step" using n by (simp add: stepped_def)
    ultimately show ?thesis using n by (simp add: stepped_def algebra_simps)
  qed (use n in \<open>simp add: stepped_def\<close>)
next
  assume "(v \<le> hi \<and> n = v) \<or> n \<in> stepped (v + step) hi step"
  then show "n \<in> stepped v hi step"
    using assms dvd_add_right_iff[of step step "n - v - step"] by (auto simp: stepped_def algebra_simps)
qed

text \<open>Below the wrap-around, a loop collects exactly the numbers it visits.\<close>

lemma bitLoop_exact:
  assumes "0 \<le> v" and "hi < 64" and "0 < step" and "step \<le> int64_max - 63"
  shows "\<exists>w. bitLoop v hi step bits = Some w \<and>
           (\<forall>n. bit w n \<longleftrightarrow> bit bits n \<or> int n \<in> stepped v hi step)"
  using assms
proof (induction "nat (hi + 1 - v)" arbitrary: v bits rule: less_induct)
  case less
  show ?case
  proof (cases "v \<le> hi")
    case True
    have "wrap64 (v + step) = v + step"
      using less.prems True by (simp add: in_int64_def int64_min_def int64_max_def)
    with True have eq: "bitLoop v hi step bits = bitLoop (v + step) hi step (setBit bits (nat v))"
      using less.prems by (simp add: bitLoop_step)
    have "nat (hi + 1 - (v + step)) < nat (hi + 1 - v)" using True less.prems by simp
    moreover have "0 \<le> v + step" using less.prems by simp
    ultimately obtain w where
      w: "bitLoop (v + step) hi step (setBit bits (nat v)) = Some w"
        "\<forall>n. bit w n \<longleftrightarrow> bit (setBit bits (nat v)) n \<or> int n \<in> stepped (v + step) hi step"
      using less.hyps[of "v + step" "setBit bits (nat v)"] less.prems(2-4) by blast
    have "bit w n \<longleftrightarrow> bit bits n \<or> int n \<in> stepped v hi step" for n
    proof -
      have "bit (setBit bits (nat v)) n \<longleftrightarrow> bit bits n \<or> int n = v"
        using True less.prems by (auto simp: bit_setBit)
      then show ?thesis
        using w(2) True less.prems(3) stepped_unfold[of step "int n" v hi] by blast
    qed
    with w(1) eq show ?thesis by auto
  next
    case False
    then show ?thesis by (auto simp: bitLoop_stop stepped_def)
  qed
qed

text \<open>
  With a step so large that \<open>v + step\<close> wraps, the loop comes back below its bound and goes
  on; it still ends, because two rounds together move \<open>v\<close> down.
\<close>

lemma bitLoop_wrapping_terminates:
  assumes "0 \<le> v" and "v < 64" and "hi < 64" and "int64_max - 63 < step" and "step \<le> int64_max"
  shows "bitLoop v hi step bits \<noteq> None"
  using assms
proof (induction "nat v" arbitrary: v bits rule: less_induct)
  case less
  note b = less.prems[unfolded int64_max_def]
  have up: "bitLoop u hi step bs \<noteq> None" if "- 64 \<le> u" "u < 0" "u + step \<le> int64_max" for u bs
  proof -
    have "wrap64 (u + step) = u + step"
      using that b by (simp add: in_int64_def int64_min_def int64_max_def)
    then show ?thesis
      using that b by (cases "u \<le> hi") (simp_all add: bitLoop_step bitLoop_stop)
  qed
  show ?case
  proof (cases "v \<le> hi")
    case inside: True
    show ?thesis
    proof (cases "v + step \<le> int64_max")
      case True
      then have "wrap64 (v + step) = v + step"
        using b by (simp add: in_int64_def int64_min_def)
      then show ?thesis using inside b by (simp add: bitLoop_step bitLoop_stop)
    next
      case False
      define k where "k = 9223372036854775808 - step"
      have k: "0 < k" "k \<le> v" "k < 64" using b False by (auto simp: k_def int64_max_def)
      have w1: "wrap64 (v + step) = v - k - 9223372036854775808"
        using False b by (subst wrap64_over) (simp_all add: k_def int64_max_def)
      have w2: "wrap64 (v - k - 9223372036854775808 + step) = v - 2 * k"
        using k b by (simp add: k_def in_int64_def int64_min_def int64_max_def)
      have "bitLoop v hi step bits
          = bitLoop (v - 2 * k) hi step (setBit (setBit bits (nat v)) 0)"
        using inside k b by (simp add: bitLoop_step[of v] w1 bitLoop_step w2)
      moreover have "bitLoop (v - 2 * k) hi step bs \<noteq> None" for bs
      proof (cases "0 \<le> v - 2 * k")
        case True
        then show ?thesis using less.hyps[of "v - 2 * k" bs] k b less.prems by simp
      next
        case False
        then show ?thesis using up[of "v - 2 * k" bs] k b by (simp add: k_def int64_max_def)
      qed
      ultimately show ?thesis by simp
    qed
  next
    case False
    then show ?thesis by (simp add: bitLoop_stop)
  qed
qed

lemma bitLoop_terminates:
  assumes "0 \<le> v" and "v < 64" and "hi < 64" and "0 < step" and "step \<le> int64_max"
  shows "bitLoop v hi step bits \<noteq> None"
proof (cases "step \<le> int64_max - 63")
  case True
  with assms bitLoop_exact[of v hi step bits] show ?thesis by auto
next
  case False
  with assms bitLoop_wrapping_terminates[of v hi step bits] show ?thesis by simp
qed

section \<open>What an expression means\<close>

text \<open>
  The abstract syntax the documentation of \<open>CronExpr\<close> describes, the text of each form, and
  the set of values each form stands for: the reference the bit sets are checked against. A
  single value with a step (\<open>5/10\<close>) is accepted and its step ignored, as the code does.
\<close>

datatype cron_part =
    Star "nat option"
  | Range nat nat "nat option"
  | Single nat "nat option"

definition show_step :: "nat option \<Rightarrow> string" where
  "show_step st = (case st of None \<Rightarrow> [] | Some n \<Rightarrow> CHR ''/'' # show_nat n)"

fun show_base :: "cron_part \<Rightarrow> string" where
  "show_base (Star st) = ''*''"
| "show_base (Range a b st) = show_nat a @ CHR ''-'' # show_nat b"
| "show_base (Single n st) = show_nat n"

fun part_step :: "cron_part \<Rightarrow> nat option" where
  "part_step (Star st) = st"
| "part_step (Range a b st) = st"
| "part_step (Single n st) = st"

definition show_part :: "cron_part \<Rightarrow> string" where
  "show_part p = show_base p @ show_step (part_step p)"

definition step_of :: "nat option \<Rightarrow> int" where
  "step_of st = (case st of None \<Rightarrow> 1 | Some n \<Rightarrow> int n)"

fun part_values :: "int \<Rightarrow> int \<Rightarrow> cron_part \<Rightarrow> int set" where
  "part_values lo hi (Star st) = stepped lo hi (step_of st)"
| "part_values lo hi (Range a b st) = stepped (int a) (int b) (step_of st)"
| "part_values lo hi (Single n st) = {int n}"

definition valid_step :: "nat option \<Rightarrow> bool" where
  "valid_step st \<longleftrightarrow> 0 < step_of st \<and> step_of st \<le> int64_max - 63"

fun valid_part :: "int \<Rightarrow> int \<Rightarrow> cron_part \<Rightarrow> bool" where
  "valid_part lo hi (Star st) \<longleftrightarrow> valid_step st"
| "valid_part lo hi (Range a b st) \<longleftrightarrow> valid_step st \<and> lo \<le> int a \<and> int b \<le> hi \<and> a \<le> b"
| "valid_part lo hi (Single n st) \<longleftrightarrow> valid_step st \<and> lo \<le> int n \<and> int n \<le> hi"

type_synonym cron_field = "cron_part list"

definition show_field :: "cron_field \<Rightarrow> string" where
  "show_field ps = join_with (CHR '','') (map show_part ps)"

definition field_values :: "int \<Rightarrow> int \<Rightarrow> cron_field \<Rightarrow> int set" where
  "field_values lo hi ps = (\<Union>p \<in> set ps. part_values lo hi p)"

definition valid_field :: "int \<Rightarrow> int \<Rightarrow> cron_field \<Rightarrow> bool" where
  "valid_field lo hi ps \<longleftrightarrow> ps \<noteq> [] \<and> (\<forall>p \<in> set ps. valid_part lo hi p)"

subsection \<open>One part\<close>

definition part_chars :: string where "part_chars = ''0123456789*-/''"

lemma part_chars_graphic: "c \<in> set part_chars \<Longrightarrow> graphic c"
  by (auto simp: part_chars_def graphic_def byte_def IsSpace_def)

lemma digits_part_chars: "set ''0123456789'' \<subseteq> set part_chars"
  by (simp add: part_chars_def)

lemma set_show_part: "set (show_part p) \<subseteq> set part_chars"
  using set_show_nat digits_part_chars
  by (cases p; fastforce simp: show_part_def show_step_def part_chars_def split: option.splits)

lemma show_part_not_Nil: "show_part p \<noteq> []"
  by (cases p) (simp_all add: show_part_def)

lemma no_sep_show_nat: "c \<notin> set ''0123456789'' \<Longrightarrow> c \<notin> set (show_nat n)"
  using set_show_nat by blast

lemma no_slash_show_base: "CHR ''/'' \<notin> set (show_base p)"
  by (cases p) (auto simp: no_sep_show_nat)

lemma Cut_show_part:
  "Cut (show_part p) (CHR ''/'') =
     (show_base p, (case part_step p of None \<Rightarrow> [] | Some n \<Rightarrow> show_nat n), part_step p \<noteq> None)"
  using no_slash_show_base[of p]
  by (cases "part_step p") (simp_all add: show_part_def show_step_def Cut_absent Cut_present)

lemma parseStep_show:
  assumes "valid_step st"
  shows "parseStep (st \<noteq> None) (case st of None \<Rightarrow> [] | Some n \<Rightarrow> show_nat n) = Some (step_of st)"
  using assms
  by (cases st) (auto simp: parseStep_def valid_step_def step_of_def Atoi_show_nat)

definition exact_bits :: "u64 \<Rightarrow> int set \<Rightarrow> bool" where
  "exact_bits w S \<longleftrightarrow> (\<forall>n. bit w n \<longleftrightarrow> int n \<in> S)"

lemma bitLoop_exact_bits:
  assumes "0 \<le> v" and "hi < 64" and "0 < step" and "step \<le> int64_max - 63"
  shows "\<exists>w. bitLoop v hi step 0 = Some w \<and> exact_bits w (stepped v hi step)"
  using bitLoop_exact[OF assms, of 0] by (auto simp: exact_bits_def)

lemma show_nat_not_star: "show_nat n \<noteq> ''*''"
  using hd_show_nat[of n] by auto

lemma show_range_not_star: "show_nat a @ CHR ''-'' # s \<noteq> ''*''"
  using show_nat_not_Nil[of a] by (cases "show_nat a") auto

lemma parsePart_show:
  assumes "valid_part lo hi p" and "0 \<le> lo" and "hi < 64"
  shows "\<exists>w. parsePart (show_part p) lo hi = Some (Inr w) \<and> exact_bits w (part_values lo hi p)"
proof -
  have st: "valid_step (part_step p)" using assms(1) by (cases p) auto
  note step = st[unfolded valid_step_def]
  have head: "parsePart (show_part p) lo hi =
     (if show_base p = ''*'' then map_option Inr (parseWildcard lo hi (step_of (part_step p)))
      else (let (startStr, endStr, isRange) = Cut (show_base p) (CHR ''-'')
            in if isRange then parseRange startStr endStr lo hi (step_of (part_step p))
               else Some (parseSingle (show_base p) lo hi)))"
    using parseStep_show[OF st] by (simp add: parsePart_def Cut_show_part)
  show ?thesis
  proof (cases p)
    case (Star s)
    obtain w where "bitLoop lo hi (step_of s) 0 = Some w"
      and "exact_bits w (stepped lo hi (step_of s))"
      using bitLoop_exact_bits[of lo hi "step_of s"] step assms Star by auto
    with head Star show ?thesis by (simp add: parseWildcard_def)
  next
    case (Range a b s)
    obtain w where "bitLoop (int a) (int b) (step_of s) 0 = Some w"
      and "exact_bits w (stepped (int a) (int b) (step_of s))"
      using bitLoop_exact_bits[of "int a" "int b" "step_of s"] step assms Range by auto
    moreover have "int a \<le> int64_max" "int b \<le> int64_max"
      using assms Range by (auto simp: int64_max_def)
    ultimately show ?thesis
      using head Range assms
      by (simp add: show_range_not_star Cut_present no_sep_show_nat parseRange_def Atoi_show_nat)
  next
    case (Single n s)
    have "int n \<le> int64_max" using assms Single by (auto simp: int64_max_def)
    moreover have "exact_bits (setBit 0 n) {int n}"
      using assms Single by (auto simp: exact_bits_def bit_setBit)
    ultimately show ?thesis
      using head Single assms
      by (simp add: show_nat_not_star Cut_absent no_sep_show_nat parseSingle_def Atoi_show_nat)
  qed
qed

subsection \<open>A field\<close>

lemma parseParts_show:
  assumes "\<forall>p \<in> set ps. valid_part lo hi p" and "0 \<le> lo" and "hi < 64"
  shows "\<exists>w. parseParts (map show_part ps) lo hi bits = Some (Inr w) \<and>
           (\<forall>n. bit w n \<longleftrightarrow> bit bits n \<or> int n \<in> field_values lo hi ps)"
  using assms
proof (induction ps arbitrary: bits)
  case Nil
  then show ?case by (simp add: field_values_def)
next
  case (Cons p ps)
  obtain b where b: "parsePart (show_part p) lo hi = Some (Inr b)" "exact_bits b (part_values lo hi p)"
    using parsePart_show[of lo hi p] Cons.prems by auto
  obtain w where w: "parseParts (map show_part ps) lo hi (bits OR b) = Some (Inr w)"
    "\<forall>n. bit w n \<longleftrightarrow> bit (bits OR b) n \<or> int n \<in> field_values lo hi ps"
    using Cons.IH[of "bits OR b"] Cons.prems by auto
  have "bit w n \<longleftrightarrow> bit bits n \<or> int n \<in> field_values lo hi (p # ps)" for n
    using w(2) b(2) unfolding exact_bits_def field_values_def bit_or_iff by auto
  with w(1) b(1) show ?case by auto
qed

lemma comma_not_in_part: "CHR '','' \<notin> set (show_part p)"
  using set_show_part[of p] by (auto simp: part_chars_def)

lemma parseField_show:
  assumes "valid_field lo hi ps" and "0 \<le> lo" and "hi < 64"
  shows "\<exists>w. parseField (show_field ps) lo hi = Some (Inr w) \<and> exact_bits w (field_values lo hi ps)"
proof -
  have "Split (CHR '','') (show_field ps) = map show_part ps"
    using assms comma_not_in_part
    unfolding show_field_def by (intro Split_join_with) (auto simp: valid_field_def)
  then show ?thesis
    using parseParts_show[of ps lo hi 0] assms by (auto simp: parseField_def valid_field_def exact_bits_def)
qed

lemma set_join_with: "set (join_with sep ws) \<subseteq> insert sep (\<Union>w \<in> set ws. set w)"
  by (induction sep ws rule: join_with.induct) auto

lemma hd_join_with: "w \<noteq> [] \<Longrightarrow> hd (join_with sep (w # ws)) = hd w"
  by (cases ws) auto

lemma join_with_eq_Nil: "w \<noteq> [] \<Longrightarrow> join_with sep (w # ws) \<noteq> []"
  by (cases ws) auto

lemma show_field_word:
  assumes "valid_field lo hi ps"
  shows "is_word (show_field ps)" and "hd (show_field ps) \<in> set part_chars"
proof -
  obtain q qs where q: "ps = q # qs" using assms by (cases ps) (auto simp: valid_field_def)
  have "graphic (CHR '','')" by (simp add: graphic_def byte_def IsSpace_def)
  then have "\<forall>c \<in> set (show_field ps). graphic c"
    using set_join_with[of "CHR '',''" "map show_part ps"] set_show_part part_chars_graphic
    by (fastforce simp: show_field_def)
  then show "is_word (show_field ps)"
    using q join_with_eq_Nil show_part_not_Nil by (auto simp: is_word_def show_field_def)
  have "hd (show_field ps) = hd (show_part q)"
    using q hd_join_with show_part_not_Nil by (simp add: show_field_def)
  then show "hd (show_field ps) \<in> set part_chars"
    using set_show_part[of q] show_part_not_Nil[of q] by (metis hd_in_set subsetD)
qed

subsection \<open>A whole expression\<close>

record cron_ast =
  minutes :: cron_field
  hours :: cron_field
  days :: cron_field
  months :: cron_field
  weekdays :: cron_field

definition show_cron :: "cron_ast \<Rightarrow> string" where
  "show_cron a = join_with (CHR '' '')
     [show_field (minutes a), show_field (hours a), show_field (days a),
      show_field (months a), show_field (weekdays a)]"

definition valid_cron :: "cron_ast \<Rightarrow> bool" where
  "valid_cron a \<longleftrightarrow> valid_field 0 59 (minutes a) \<and> valid_field 0 23 (hours a)
     \<and> valid_field 1 31 (days a) \<and> valid_field 1 12 (months a) \<and> valid_field 0 6 (weekdays a)"

definition cron_due :: "cron_ast \<Rightarrow> zone \<Rightarrow> instant \<Rightarrow> bool" where
  "cron_due a z t \<longleftrightarrow>
     time_Minute z t \<in> field_values 0 59 (minutes a) \<and>
     time_Hour z t \<in> field_values 0 23 (hours a) \<and>
     time_Day z t \<in> field_values 1 31 (days a) \<and>
     time_Month z t \<in> field_values 1 12 (months a) \<and>
     time_Weekday z t \<in> field_values 0 6 (weekdays a)"

lemma show_cron_fields:
  assumes "valid_cron a"
  shows "Fields (show_cron a) = [show_field (minutes a), show_field (hours a), show_field (days a),
      show_field (months a), show_field (weekdays a)]"
  unfolding show_cron_def
  by (rule fields_join_words) (use assms show_field_word in \<open>auto simp: valid_cron_def\<close>)

lemma last_join_with:
  "ws \<noteq> [] \<Longrightarrow> last ws \<noteq> [] \<Longrightarrow> last (join_with sep ws) = last (last ws)"
proof (induction sep ws rule: join_with.induct)
  case (3 sep w v ws)
  have "join_with sep (v # ws) \<noteq> []" using "3.prems" by (cases ws) auto
  with "3.IH" "3.prems" show ?case by simp
qed auto

lemma show_cron_trim:
  assumes "valid_cron a"
  shows "TrimSpace (show_cron a) = show_cron a" and "show_cron a \<noteq> []"
    and "hd (show_cron a) \<in> set part_chars"
proof -
  note v = assms[unfolded valid_cron_def]
  have w: "is_word (show_field (minutes a))" "is_word (show_field (weekdays a))"
    using v show_field_word by blast+
  show ne: "show_cron a \<noteq> []" unfolding show_cron_def
    using w by (intro join_with_eq_Nil) (simp add: is_word_def)
  have hd: "hd (show_cron a) = hd (show_field (minutes a))"
    unfolding show_cron_def using w by (intro hd_join_with) (simp add: is_word_def)
  then show "hd (show_cron a) \<in> set part_chars" using v show_field_word(2) by metis
  have last: "last (show_cron a) = last (show_field (weekdays a))"
    unfolding show_cron_def using w by (subst last_join_with) (auto simp: is_word_def)
  have "ascii (show_cron a)" unfolding show_cron_def
    by (rule ascii_join_words)
      (use v show_field_word(1) in \<open>auto simp: byte_def is_word_def intro!: graphic_ascii\<close>)
  then show "TrimSpace (show_cron a) = show_cron a"
    using ne w hd last by (intro TrimSpace_id) (auto simp: is_word_def)
qed

lemma expandAlias_other: "s \<noteq> [] \<Longrightarrow> hd s \<noteq> CHR ''@'' \<Longrightarrow> expandAlias s = s"
  by (cases s) (simp_all add: expandAlias_def)

lemma hasBit_exact: "exact_bits w A \<Longrightarrow> 0 \<le> v \<Longrightarrow> hasBit w (safeUint v) \<longleftrightarrow> v \<in> A"
proof -
  assume a: "exact_bits w A" and v: "0 \<le> v"
  from a have "bit w (nat v) \<longleftrightarrow> int (nat v) \<in> A" unfolding exact_bits_def by (rule spec)
  with v show ?thesis by (simp only: hasBit_iff safeUint_eq nat_0_le)
qed

lemma Matches_exact:
  assumes "exact_bits (Minute c) A" "exact_bits (Hour c) B" "exact_bits (DayMonth c) C"
    and "exact_bits (Month c) D" "exact_bits (DayWeek c) E"
  shows "Matches c z t \<longleftrightarrow> time_Minute z t \<in> A \<and> time_Hour z t \<in> B \<and> time_Day z t \<in> C
     \<and> time_Month z t \<in> D \<and> time_Weekday z t \<in> E"
proof -
  have nonneg: "0 \<le> time_Minute z t" "0 \<le> time_Hour z t" "0 \<le> time_Day z t"
    "0 \<le> time_Month z t" "0 \<le> time_Weekday z t"
    using time_Minute_bounds[of z t] time_Hour_bounds[of z t] time_Day_bounds[of z t]
      time_Month_bounds[of z t] time_Weekday_bounds[of z t] by linarith+
  show ?thesis
    unfolding Matches_def hasBit_exact[OF assms(1) nonneg(1)] hasBit_exact[OF assms(2) nonneg(2)]
      hasBit_exact[OF assms(3) nonneg(3)] hasBit_exact[OF assms(4) nonneg(4)]
      hasBit_exact[OF assms(5) nonneg(5)] by (rule refl)
qed

section \<open>Every loop returns, inside the field\<close>

lemma bitLoop_bounds:
  assumes "bitLoop v hi step bits = Some w" and "0 \<le> hi"
  shows "(\<forall>n. bit bits n \<longrightarrow> bit w n) \<and> (\<forall>n. bit w n \<longrightarrow> bit bits n \<or> int n \<le> hi)"
proof -
  have "0 \<le> hi \<longrightarrow> (\<forall>n. bit bits n \<longrightarrow> bit w n) \<and> (\<forall>n. bit w n \<longrightarrow> bit bits n \<or> int n \<le> hi)"
  proof (rule bitLoop.raw_induct[where P = "\<lambda>v hi step bits w. 0 \<le> hi \<longrightarrow>
      (\<forall>n. bit bits n \<longrightarrow> bit w n) \<and> (\<forall>n. bit w n \<longrightarrow> bit bits n \<or> int n \<le> hi)", OF _ assms(1)])
    fix f v hi step bits w
    assume IH: "\<And>v hi step bits w. f v hi step bits = Some w \<Longrightarrow> 0 \<le> hi \<longrightarrow>
        (\<forall>n. bit bits n \<longrightarrow> bit w n) \<and> (\<forall>n. bit w n \<longrightarrow> bit bits n \<or> int n \<le> hi)"
      and eq: "(if v \<le> hi then f (wrap64 (v + step)) hi step (setBit bits (safeUint v)) else Some bits)
        = Some w"
    show "0 \<le> hi \<longrightarrow> (\<forall>n. bit bits n \<longrightarrow> bit w n) \<and> (\<forall>n. bit w n \<longrightarrow> bit bits n \<or> int n \<le> hi)"
    proof (cases "v \<le> hi")
      case True
      have "0 \<le> hi \<Longrightarrow> int (safeUint v) \<le> hi" using True by (cases "v < 0") simp_all
      moreover from True eq have "f (wrap64 (v + step)) hi step (setBit bits (safeUint v)) = Some w" by simp
      from IH[OF this] show ?thesis using calculation unfolding bit_setBit by blast
    qed (use eq in simp)
  qed
  with assms(2) show ?thesis by blast
qed

lemma bitLoop_first:
  assumes "bitLoop v hi step bits = Some w" and "0 \<le> v" and "v \<le> hi" and "hi < 64"
  shows "bit w (nat v)"
proof -
  have "bitLoop (wrap64 (v + step)) hi step (setBit bits (nat v)) = Some w"
    using assms by (simp add: bitLoop_step)
  moreover have "0 \<le> hi" using assms by simp
  ultimately have "\<forall>n. bit (setBit bits (nat v)) n \<longrightarrow> bit w n" using bitLoop_bounds by blast
  moreover have "bit (setBit bits (nat v)) (nat v)" using assms by (simp add: bit_setBit nat_less_iff)
  ultimately show ?thesis by blast
qed

text \<open>A set some value of which is inside the field, and none above it.\<close>

definition field_mask :: "int \<Rightarrow> u64 \<Rightarrow> bool" where
  "field_mask hi w \<longleftrightarrow> w \<noteq> 0 \<and> (\<forall>n. bit w n \<longrightarrow> int n \<le> hi)"

lemma field_mask_loop:
  assumes "bitLoop v hi step 0 = Some w" and "0 \<le> v" and "v \<le> hi" and "hi < 64"
  shows "field_mask hi w"
proof -
  have "bit w (nat v)" using assms by (rule bitLoop_first)
  then have "w \<noteq> 0" by auto
  moreover have "\<forall>n. bit w n \<longrightarrow> int n \<le> hi"
    using bitLoop_bounds[OF assms(1)] assms(2,3) by auto
  ultimately show ?thesis by (simp add: field_mask_def)
qed

lemma field_mask_mono: "field_mask hi w \<Longrightarrow> hi \<le> hi' \<Longrightarrow> field_mask hi' w"
  by (force simp: field_mask_def)

lemma field_mask_or:
  assumes "field_mask hi b" and "\<forall>n. bit a n \<longrightarrow> int n \<le> hi"
  shows "field_mask hi (a OR b)"
proof -
  from assms(1) obtain n where "bit b n" unfolding field_mask_def by (metis bit_0_eq bit_word_eqI bot_apply bot_bool_def)
  then have "bit (a OR b) n" unfolding bit_or_iff by (rule disjI2)
  then have "a OR b \<noteq> 0" by auto
  with assms show ?thesis unfolding field_mask_def bit_or_iff by blast
qed

definition field_ok :: "int \<Rightarrow> (field_error + u64) option \<Rightarrow> bool" where
  "field_ok hi r \<longleftrightarrow> (case r of None \<Rightarrow> False | Some (Inl e) \<Rightarrow> True | Some (Inr w) \<Rightarrow> field_mask hi w)"

lemma parseStep_range: "parseStep h s = Some st \<Longrightarrow> 0 < st \<and> st \<le> int64_max"
  by (auto simp: parseStep_def int64_max_def in_int64_def dest: Atoi_in_int64 split: if_splits option.splits)

lemma loop_field_ok:
  assumes "0 \<le> v" and "v \<le> e" and "e \<le> hi" and "hi < 64" and "0 < step" and "step \<le> int64_max"
  shows "field_ok hi (map_option Inr (bitLoop v e step 0))"
proof -
  obtain w where w: "bitLoop v e step 0 = Some w"
    using bitLoop_terminates[of v e step 0] assms by auto
  have "field_mask e w" using field_mask_loop[OF w] assms by simp
  then show ?thesis using w assms(3) by (simp add: field_ok_def field_mask_mono)
qed

lemma parseRange_ok:
  assumes "0 \<le> lo" and "hi < 64" and "0 < step" and "step \<le> int64_max"
  shows "field_ok hi (parseRange a b lo hi step)"
proof (cases "Atoi a"; cases "Atoi b")
  fix s e assume "Atoi a = Some s" "Atoi b = Some e"
  then show ?thesis
    using loop_field_ok[of s e hi step] assms by (auto simp: parseRange_def field_ok_def)
qed (simp_all add: parseRange_def field_ok_def)

lemma parseSingle_ok:
  assumes "0 \<le> lo" and "hi < 64"
  shows "field_ok hi (Some (parseSingle a lo hi))"
proof (cases "Atoi a")
  case (Some v)
  have "field_mask hi (setBit 0 (nat v))" if "lo \<le> v" "v \<le> hi"
    using that assms field_mask_loop[of v v 1 "setBit 0 (nat v)"]
    by (simp add: field_mask_mono bitLoop_step bitLoop_stop in_int64_def int64_min_def int64_max_def)
  with Some assms show ?thesis by (auto simp: parseSingle_def field_ok_def)
qed (simp add: parseSingle_def field_ok_def)

lemma parsePart_ok:
  assumes "0 \<le> lo" and "lo \<le> hi" and "hi < 64"
  shows "field_ok hi (parsePart part lo hi)"
proof -
  obtain r s h where cut: "Cut part (CHR ''/'') = (r, s, h)" by (metis prod_cases3)
  obtain a b i where cut': "Cut r (CHR ''-'') = (a, b, i)" by (metis prod_cases3)
  show ?thesis
  proof (cases "parseStep h s")
    case None
    then show ?thesis by (simp add: parsePart_def cut field_ok_def)
  next
    case (Some step)
    with parseStep_range have "0 < step" "step \<le> int64_max" by auto
    then show ?thesis
      using Some assms loop_field_ok[of lo hi hi step] parseRange_ok[of lo hi step a b] parseSingle_ok[of lo hi r]
      by (simp add: parsePart_def cut cut' parseWildcard_def)
  qed
qed

lemma parseParts_ok:
  assumes "0 \<le> lo" "lo \<le> hi" "hi < 64" and "parts \<noteq> []" and "\<forall>n. bit bits n \<longrightarrow> int n \<le> hi"
  shows "field_ok hi (parseParts parts lo hi bits)"
  using assms(4,5)
proof (induction parts arbitrary: bits)
  case (Cons p ps)
  have ok: "field_ok hi (parsePart p lo hi)" using assms(1-3) by (rule parsePart_ok)
  show ?case
  proof (cases "parsePart p lo hi")
    case (Some r)
    show ?thesis
    proof (cases r)
      case (Inr b)
      with ok Some have "field_mask hi (bits OR b)"
        using Cons.prems by (intro field_mask_or) (simp_all add: field_ok_def)
      then show ?thesis
        using Cons.IH[of "bits OR b"] Some Inr
        by (cases ps) (auto simp: field_ok_def field_mask_def)
    qed (use Some in \<open>simp add: field_ok_def\<close>)
  qed (use ok in \<open>simp add: field_ok_def\<close>)
qed simp

lemma parseField_ok:
  "0 \<le> lo \<Longrightarrow> lo \<le> hi \<Longrightarrow> hi < 64 \<Longrightarrow> field_ok hi (parseField field lo hi)"
  unfolding parseField_def by (rule parseParts_ok) simp_all

section \<open>Theorems\<close>

lemma parse_show_cron:
  assumes "valid_cron a"
  shows "\<exists>c. ParseCron (show_cron a) = Some (Inr c) \<and> cron_String c = show_cron a \<and>
             (\<forall>z t. Matches c z t = cron_due a z t)"
proof -
  note v = assms[unfolded valid_cron_def]
  have fields: "\<exists>w. parseField (show_field ps) lo hi = Some (Inr w) \<and> exact_bits w (field_values lo hi ps)"
    if "valid_field lo hi ps" "0 \<le> lo" "hi < 64" for ps lo hi
    using that by (rule parseField_show)
  obtain m where m: "parseField (show_field (minutes a)) 0 59 = Some (Inr m)"
    "exact_bits m (field_values 0 59 (minutes a))" using fields v by force
  obtain h where h: "parseField (show_field (hours a)) 0 23 = Some (Inr h)"
    "exact_bits h (field_values 0 23 (hours a))" using fields v by force
  obtain d where d: "parseField (show_field (days a)) 1 31 = Some (Inr d)"
    "exact_bits d (field_values 1 31 (days a))" using fields v by force
  obtain n where n: "parseField (show_field (months a)) 1 12 = Some (Inr n)"
    "exact_bits n (field_values 1 12 (months a))" using fields v by force
  obtain w where w: "parseField (show_field (weekdays a)) 0 6 = Some (Inr w)"
    "exact_bits w (field_values 0 6 (weekdays a))" using fields v by force
  define c where "c = \<lparr>Minute = m, Hour = h, DayMonth = d, Month = n, DayWeek = w, raw = show_cron a\<rparr>"
  have not_at: "hd (show_cron a) \<noteq> CHR ''@''"
    using show_cron_trim(3)[OF assms] by (auto simp: part_chars_def)
  have "ParseCron (show_cron a) = Some (Inr c)"
    using show_cron_trim[OF assms] not_at m(1) h(1) d(1) n(1) w(1)
    by (simp add: ParseCron_def expandAlias_other show_cron_fields[OF assms] fieldCount_def
        onField_def field_bounds c_def)
  moreover have "Matches c z t = cron_due a z t" for z t
    unfolding cron_due_def
    by (rule Matches_exact) (use m(2) h(2) d(2) n(2) w(2) in \<open>simp_all add: c_def\<close>)
  ultimately show ?thesis by (auto simp: c_def cron_String_def)
qed

definition feb30 :: cron_ast where
  "feb30 = \<lparr>minutes = [Single 0 None], hours = [Single 0 None], days = [Single 30 None],
            months = [Single 2 None], weekdays = [Star None]\<rparr>"

lemma valid_feb30: "valid_cron feb30"
  by (simp add: feb30_def valid_cron_def valid_field_def valid_step_def step_of_def int64_max_def)

lemma show_feb30: "show_cron feb30 = ''0 0 30 2 *''"
  by (simp add: feb30_def show_cron_def show_field_def show_part_def show_step_def digit_def
      show_nat.simps[of "0"] show_nat.simps[of "2"] show_nat.simps[of "3"] show_nat.simps[of "30"]
      char_of_def bit_0)

lemma parse_feb30:
  "\<exists>c. ParseCron ''0 0 30 2 *'' = Some (Inr c) \<and> cron_String c = ''0 0 30 2 *''
     \<and> (\<forall>z t. Matches c z t = cron_due feb30 z t)"
  using parse_show_cron[OF valid_feb30] by (simp add: show_feb30)

text \<open>
  C6: parsing is correct on every expression of the documented syntax: for every valid
  abstract expression, \<open>ParseCron\<close> returns on its text, keeps the text, and the bit sets it
  builds match exactly the times the expression denotes, in every time zone.
\<close>

theorem ParseCron_correct:
  assumes "valid_cron a"
  shows "\<exists>c. ParseCron (show_cron a) = Some (Inr c) \<and> cron_String c = show_cron a \<and>
             (\<forall>z t. Matches c z t = cron_due a z t)"
  using assms by (rule parse_show_cron)

definition workday_ast :: cron_ast where
  "workday_ast = \<lparr>minutes = [Star (Some 15)], hours = [Range 9 17 (Some 4), Single 20 None],
     days = [Star None], months = [Star None], weekdays = [Range 1 5 None]\<rparr>"

lemma valid_workday: "valid_cron workday_ast"
  by (simp add: workday_ast_def valid_cron_def valid_field_def valid_step_def step_of_def int64_max_def)

lemma show_workday: "show_cron workday_ast = ''*/15 9-17/4,20 * * 1-5''"
  by (simp add: workday_ast_def show_cron_def show_field_def show_part_def show_step_def digit_def
      show_nat.simps[of "numeral _"] show_nat.simps[of "0"] show_nat.simps[of "1"]
      show_nat.simps[of "Suc 0"] char_of_def bit_0)

lemma ParseCron_correct_witness:
  "valid_cron workday_ast \<and>
   (\<exists>c. ParseCron ''*/15 9-17/4,20 * * 1-5'' = Some (Inr c)
      \<and> (\<forall>z t. Matches c z t = cron_due workday_ast z t))"
  using ParseCron_correct[OF valid_workday] valid_workday by (auto simp: show_workday)

text \<open>
  Parsing always returns. The loops over a field add the step without an overflow check, so a step
  near the largest \<open>int\<close> wraps around; even then every loop ends.
\<close>

lemma ParseCron_returns: "\<exists>r. ParseCron s = Some r"
proof -
  have ok: "\<exists>r. parseField f lo hi = Some r" if "0 \<le> lo" "lo \<le> hi" "hi < 64" for f lo hi
    using parseField_ok[OF that, of f] by (auto simp: field_ok_def split: option.splits)
  have step: "\<exists>r. onField n (parseField f lo hi) k = Some r"
    if "\<And>b. \<exists>r. k b = Some r" "0 \<le> lo" "lo \<le> hi" "hi < 64"
    for n f lo hi and k :: "u64 \<Rightarrow> (cron_error + cron_expr) option"
    using ok[OF that(2-4), of f] that(1) by (auto simp: onField_def split: sum.splits)
  show ?thesis
    unfolding ParseCron_def Let_def
    by (simp, intro impI step) (simp_all add: field_bounds)
qed

lemma onField_Inr:
  assumes "onField n r k = Some (Inr c)" and "field_ok hi r"
  obtains b where "r = Some (Inr b)" "field_mask hi b" "k b = Some (Inr c)"
  using assms by (auto simp: onField_def field_ok_def split: option.splits sum.splits)

lemma parsed_masks:
  assumes "ParseCron s = Some (Inr c)"
  shows "field_mask 59 (Minute c) \<and> field_mask 23 (Hour c) \<and> field_mask 31 (DayMonth c)
    \<and> field_mask 12 (Month c) \<and> field_mask 6 (DayWeek c)"
proof -
  let ?f = "\<lambda>i. Fields (expandAlias (TrimSpace s)) ! i"
  have "onField ''minute'' (parseField (?f 0) 0 59) (\<lambda>minute.
        onField ''hour'' (parseField (?f 1) 0 23) (\<lambda>hour.
        onField ''day-of-month'' (parseField (?f 2) 1 31) (\<lambda>dom.
        onField ''month'' (parseField (?f 3) 1 12) (\<lambda>month.
        onField ''day-of-week'' (parseField (?f 4) 0 6) (\<lambda>dow.
          Some (Inr \<lparr>Minute = minute, Hour = hour, DayMonth = dom, Month = month, DayWeek = dow,
                     raw = expandAlias (TrimSpace s)\<rparr>)))))) = Some (Inr c)"
    using assms by (simp add: ParseCron_def Let_def field_bounds split: if_splits)
  moreover have "field_ok 59 (parseField (?f 0) 0 59)" "field_ok 23 (parseField (?f 1) 0 23)"
    "field_ok 31 (parseField (?f 2) 1 31)" "field_ok 12 (parseField (?f 3) 1 12)"
    "field_ok 6 (parseField (?f 4) 0 6)"
    by (simp_all add: parseField_ok)
  ultimately show ?thesis by (elim onField_Inr) auto
qed

text \<open>
  C40: Parsing ends on every string, although its loops add a step that may wrap around; and a
  schedule that comes out of it has a value in every field, and none above the field's upper bound.
\<close>

theorem ParseCron_ends_well_formed:
  "\<exists>r. ParseCron s = Some r \<and>
    (\<forall>c. r = Inr c \<longrightarrow> field_mask 59 (Minute c) \<and> field_mask 23 (Hour c) \<and> field_mask 31 (DayMonth c)
      \<and> field_mask 12 (Month c) \<and> field_mask 6 (DayWeek c))"
  using ParseCron_returns[of s] parsed_masks[of s] by blast

lemma ParseCron_ends_well_formed_witness:
  "\<exists>c. ParseCron ''0 0 30 2 *'' = Some (Inr c) \<and> field_mask 31 (DayMonth c)"
proof -
  obtain c where "ParseCron ''0 0 30 2 *'' = Some (Inr c)"
    using parse_feb30 by blast
  with ParseCron_ends_well_formed[of "''0 0 30 2 *''"] show ?thesis by auto
qed

subsection \<open>The next match\<close>

lemma searchNext_spec:
  "(\<exists>i<n. Matches c z (b + int i * Minute_d) \<and> searchNext n c z b = b + int i * Minute_d \<and>
       (\<forall>j<i. \<not> Matches c z (b + int j * Minute_d)))
   \<or> ((\<forall>i<n. \<not> Matches c z (b + int i * Minute_d)) \<and> searchNext n c z b = zero_time)"
proof (induction n arbitrary: b)
  case (Suc n)
  show ?case
  proof (cases "Matches c z b")
    case True
    then show ?thesis by (intro disjI1 exI[of _ 0]) simp
  next
    case False
    have shift: "b + Minute_d + int i * Minute_d = b + int (Suc i) * Minute_d" for i
      by (simp add: algebra_simps)
    from Suc.IH[of "b + Minute_d"] show ?thesis
    proof (elim disjE exE conjE)
      fix i
      assume i: "i < n" "Matches c z (b + Minute_d + int i * Minute_d)"
        "searchNext n c z (b + Minute_d) = b + Minute_d + int i * Minute_d"
        "\<forall>j<i. \<not> Matches c z (b + Minute_d + int j * Minute_d)"
      have "\<forall>j<Suc i. \<not> Matches c z (b + int j * Minute_d)"
        using i(4) False by (simp add: shift All_less_Suc2)
      with i False show ?thesis by (intro disjI1 exI[of _ "Suc i"]) (simp add: shift)
    next
      assume "\<forall>i<n. \<not> Matches c z (b + Minute_d + int i * Minute_d)"
        and "searchNext n c z (b + Minute_d) = zero_time"
      then show ?thesis using False by (simp add: shift All_less_Suc2)
    qed
  qed
qed simp

definition next_minute :: "instant \<Rightarrow> instant" where
  "next_minute t = Truncate t Minute_d + Minute_d"

lemma next_minute_greater: "t < next_minute t"
  using Truncate_bounds[of Minute_d t] by (simp add: next_minute_def duration_defs)

text \<open>
  C24: \<open>NextAfter\<close> returns the earliest matching minute boundary after \<open>t\<close> among the next
  527,040, and the zero time when none of them matches.
\<close>

theorem NextAfter_least:
  "(\<exists>i<maxIter. NextAfter c z t = next_minute t + int i * Minute_d \<and> t < NextAfter c z t \<and>
        Matches c z (NextAfter c z t) \<and>
        (\<forall>j<i. \<not> Matches c z (next_minute t + int j * Minute_d)))
   \<or> ((\<forall>i<maxIter. \<not> Matches c z (next_minute t + int i * Minute_d)) \<and>
        NextAfter c z t = zero_time)"
proof -
  have later: "t < next_minute t + int i * Minute_d" for i
    using next_minute_greater[of t] by (simp add: duration_defs add_strict_increasing)
  have eq: "NextAfter c z t = searchNext maxIter c z (next_minute t)"
    by (simp add: NextAfter_def next_minute_def)
  from searchNext_spec[of maxIter c z "next_minute t"] show ?thesis
  proof (elim disjE exE conjE)
    fix i
    assume "i < maxIter" "Matches c z (next_minute t + int i * Minute_d)"
      "searchNext maxIter c z (next_minute t) = next_minute t + int i * Minute_d"
      "\<forall>j<i. \<not> Matches c z (next_minute t + int j * Minute_d)"
    then show ?thesis using later[of i] by (intro disjI1 exI[of _ i]) (simp add: eq)
  next
    assume "\<forall>i<maxIter. \<not> Matches c z (next_minute t + int i * Minute_d)"
      and "searchNext maxIter c z (next_minute t) = zero_time"
    then show ?thesis by (intro disjI2) (simp add: eq)
  qed
qed

definition every_minute :: cron_ast where
  "every_minute = \<lparr>minutes = [Star None], hours = [Star None], days = [Star None],
     months = [Star None], weekdays = [Star None]\<rparr>"

lemma every_minute_due: "cron_due every_minute z t"
  using time_Minute_bounds[of z t] time_Hour_bounds[of z t] time_Day_bounds[of z t]
    time_Month_bounds[of z t] time_Weekday_bounds[of z t]
  by (simp add: cron_due_def every_minute_def field_values_def stepped_def step_of_def)

lemma parse_every_minute:
  "\<exists>c. ParseCron ''* * * * *'' = Some (Inr c) \<and> cron_String c = ''* * * * *''
     \<and> (\<forall>z t. Matches c z t)"
proof -
  have "valid_cron every_minute"
    by (simp add: every_minute_def valid_cron_def valid_field_def valid_step_def step_of_def int64_max_def)
  moreover have "show_cron every_minute = ''* * * * *''"
    by (simp add: every_minute_def show_cron_def show_field_def show_part_def show_step_def)
  ultimately show ?thesis using parse_show_cron[of every_minute] by (simp add: every_minute_due)
qed

lemma NextAfter_least_witness:
  "\<exists>c. ParseCron ''* * * * *'' = Some (Inr c) \<and> NextAfter c utc 0 = Minute_d"
proof -
  obtain c where c: "ParseCron ''* * * * *'' = Some (Inr c)" "\<And>z t. Matches c z t"
    using parse_every_minute by blast
  have "0 < maxIter" by (simp add: maxIter_def)
  with NextAfter_least[of c utc 0] c(2)
  have "NextAfter c utc 0 = next_minute 0" by force
  with c(1) show ?thesis by (simp add: next_minute_def Truncate_def)
qed

lemma feb30_never_due: "\<not> cron_due feb30 z t"
proof
  assume "cron_due feb30 z t"
  then have "time_Day z t = 30" "time_Month z t = 2"
    by (simp_all add: cron_due_def feb30_def field_values_def)
  with february_days[of z t] show False by simp
qed

text \<open>
  The final \<open>return time.Time{}\<close>, commented as unreachable for valid expressions, is what
  the valid expression \<open>0 0 30 2 *\<close> returns, at every time and in every zone.
\<close>

lemma NextAfter_zero_for_valid_expression:
  "\<exists>c. ParseCron ''0 0 30 2 *'' = Some (Inr c) \<and> (\<forall>z t. NextAfter c z t = zero_time)"
proof -
  obtain c where c: "ParseCron ''0 0 30 2 *'' = Some (Inr c)"
    "\<forall>z t. Matches c z t = cron_due feb30 z t"
    using parse_feb30 by blast
  then have "NextAfter c z t = zero_time" for z t
    using searchNext_spec[of maxIter c z "next_minute t"] feb30_never_due
    by (auto simp: NextAfter_def next_minute_def)
  with c(1) show ?thesis by blast
qed

lemmas field_eval =
  parseField_def parsePart_def parseStep_def parseWildcard_def parseRange_def parseSingle_def
  Cut_def Atoi_def digit_val_def byte_def in_int64_def int64_min_def int64_max_def
  setBit_def safeUint_def

lemma loop_results:
  "bitLoop 1 12 1 0 = Some 8190" "bitLoop 0 6 1 0 = Some 127"
  "bitLoop 30 31 9223372036854775807 0 = Some 1431655765"
  by (simp_all add: bitLoop.simps wrap64_def setBit_def safeUint_def)

lemma field_results:
  "parseField ''0'' 0 59 = Some (Inr 1)" "parseField ''0'' 0 23 = Some (Inr 1)"
  "parseField ''*'' 1 12 = Some (Inr 8190)" "parseField ''*'' 0 6 = Some (Inr 127)"
  "parseField ''30-31/9223372036854775807'' 1 31 = Some (Inr 1431655765)"
  by (simp_all add: field_eval loop_results)

lemma wrapping_fields:
  "Fields ''0 0 30-31/9223372036854775807 * *''
     = [''0'', ''0'', ''30-31/9223372036854775807'', ''*'', ''*'']"
  using fields_join_words[of "[''0'', ''0'', ''30-31/9223372036854775807'', ''*'', ''*'']"]
  by (simp add: is_word_def graphic_def byte_def IsSpace_def)

lemma wrapping_trim:
  "TrimSpace ''0 0 30-31/9223372036854775807 * *'' = ''0 0 30-31/9223372036854775807 * *''"
  by (rule TrimSpace_id) (simp_all add: graphic_def byte_def IsSpace_def)

lemma parse_wrapping:
  "ParseCron ''0 0 30-31/9223372036854775807 * *'' =
     Some (Inr \<lparr>Minute = 1, Hour = 1, DayMonth = 1431655765, Month = 8190, DayWeek = 127,
                raw = ''0 0 30-31/9223372036854775807 * *''\<rparr>)"
  by (simp add: ParseCron_def wrapping_trim expandAlias_def wrapping_fields fieldCount_def
      onField_def field_bounds field_results)

text \<open>
  A step that wraps around breaks the field: \<open>30-31/9223372036854775807\<close> in the
  day-of-month field is accepted, and the schedule also fires on the 28th, outside 30-31.
\<close>

lemma wrapping_step_leaves_range:
  "\<exists>c. ParseCron ''0 0 30-31/9223372036854775807 * *'' = Some (Inr c) \<and>
       time_Day utc (27 * 24 * Hour_d) = 28 \<and> Matches c utc (27 * 24 * Hour_d)"
proof -
  have t: "time_Minute utc (27 * 24 * Hour_d) = 0" "time_Hour utc (27 * 24 * Hour_d) = 0"
    "time_Day utc (27 * 24 * Hour_d) = 28" "time_Month utc (27 * 24 * Hour_d) = 1"
    "time_Weekday utc (27 * 24 * Hour_d) = 0"
    by code_simp+
  then show ?thesis by (simp add: parse_wrapping Matches_def hasBit_def)
qed

end
