(* ===== verification/Registry_Interface.thy ===== *)
theory Registry_Interface
  imports Go_Prelude
begin

text \<open>
  The interface the registries of the program share. The kernel's tool registry
  (\<open>core/tool.go\<close>) and the per-module tool registry (\<open>sdk/context.go\<close>) accept a name once and
  keep it; the module registry (\<open>sdk/registry.go\<close>) and the scheduler's job table
  (\<open>modules/scheduler/scheduler.go\<close>) also remove names. What their clients rely on is proved
  here once, and each component interprets the locale on its own operations.

  A registration request \<open>a\<close> names its key (\<open>key a\<close>) and what is stored under it (\<open>val a\<close>);
  \<open>ok a\<close> says whether the registry's own checks (a signature, a cron expression) accept it.
\<close>

section \<open>Registering a name once\<close>

locale register_once =
  fixes lookup :: "'s \<Rightarrow> 'k \<Rightarrow> 'v option"
    and key :: "'a \<Rightarrow> 'k" and val :: "'a \<Rightarrow> 'v" and ok :: "'a \<Rightarrow> bool"
    and register :: "'a \<Rightarrow> 's \<Rightarrow> 'e + 's"
  assumes register_fresh: "ok a \<Longrightarrow> lookup s (key a) = None \<Longrightarrow>
      \<exists>s'. register a s = Inr s' \<and> lookup s' = (lookup s)(key a \<mapsto> val a)"
    and register_taken: "lookup s (key a) = Some u \<Longrightarrow> \<exists>e. register a s = Inl e"
    and register_rejected: "\<not> ok a \<Longrightarrow> \<exists>e. register a s = Inl e"
begin

lemma register_Inr_iff: "(\<exists>s'. register a s = Inr s') \<longleftrightarrow> ok a \<and> lookup s (key a) = None"
proof (cases "ok a \<and> lookup s (key a) = None")
  case True
  with register_fresh[of a s] show ?thesis by auto
next
  case False
  with register_taken[of s a] register_rejected[of a s] show ?thesis by fastforce
qed

lemma register_InrD:
  assumes "register a s = Inr s'"
  shows "ok a" and "lookup s (key a) = None" and "lookup s' = (lookup s)(key a \<mapsto> val a)"
  using assms register_Inr_iff[of a s] register_fresh[of a s] by auto

text \<open>A run of registrations; a caller that gets an error goes on in the unchanged state.\<close>

primrec register_all :: "'a list \<Rightarrow> 's \<Rightarrow> 's" where
  "register_all [] s = s"
| "register_all (a # as) s =
     (case register a s of Inl e \<Rightarrow> register_all as s | Inr s' \<Rightarrow> register_all as s')"

lemma lookup_register_all:
  "lookup (register_all as s) k =
     (case lookup s k of Some v \<Rightarrow> Some v
      | None \<Rightarrow> map_of (map (\<lambda>a. (key a, val a)) (filter ok as)) k)"
proof (induction as arbitrary: s)
  case (Cons a as)
  show ?case
  proof (cases "register a s")
    case (Inl e)
    then have "ok a \<Longrightarrow> lookup s (key a) \<noteq> None"
      using register_Inr_iff[of a s] by auto
    with Inl Cons.IH[of s] show ?thesis by (auto split: option.splits)
  next
    case (Inr s')
    with register_InrD[OF Inr] Cons.IH[of s'] show ?thesis by (auto split: option.splits)
  qed
qed (simp split: option.splits)

end

section \<open>Registries that also remove\<close>

datatype ('a, 'k) registry_op = Register 'a | Remove 'k

locale removable_registry = register_once lookup key val ok register
  for lookup :: "'s \<Rightarrow> 'k \<Rightarrow> 'v option"
    and key :: "'a \<Rightarrow> 'k" and val :: "'a \<Rightarrow> 'v" and ok :: "'a \<Rightarrow> bool"
    and register :: "'a \<Rightarrow> 's \<Rightarrow> 'e + 's" +
  fixes remove :: "'k \<Rightarrow> 's \<Rightarrow> 'e + 's"
  assumes remove_present:
      "lookup s k = Some v \<Longrightarrow> \<exists>s'. remove k s = Inr s' \<and> lookup s' = (lookup s)(k := None)"
    and remove_absent: "lookup s k = None \<Longrightarrow> \<exists>e. remove k s = Inl e"
begin

lemma remove_InrD:
  "remove k s = Inr s' \<Longrightarrow> lookup s k \<noteq> None \<and> lookup s' = (lookup s)(k := None)"
  using remove_present[of s k] remove_absent[of s k] by (cases "lookup s k") auto

lemma remove_InlD: "remove k s = Inl e \<Longrightarrow> lookup s k = None"
  using remove_present[of s k] by (cases "lookup s k") auto

text \<open>One operation on the registry, and the same operation on a map.\<close>

fun apply_op :: "('a, 'k) registry_op \<Rightarrow> 's \<Rightarrow> 's" where
  "apply_op (Register a) s = (case register a s of Inl e \<Rightarrow> s | Inr s' \<Rightarrow> s')"
| "apply_op (Remove k) s = (case remove k s of Inl e \<Rightarrow> s | Inr s' \<Rightarrow> s')"

fun map_op :: "('a, 'k) registry_op \<Rightarrow> ('k \<rightharpoonup> 'v) \<Rightarrow> ('k \<rightharpoonup> 'v)" where
  "map_op (Register a) m = (if ok a \<and> m (key a) = None then m(key a \<mapsto> val a) else m)"
| "map_op (Remove k) m = m(k := None)"

text \<open>The registry simulates the map: every operation, failing ones included, commutes.\<close>

lemma lookup_apply_op: "lookup (apply_op x s) = map_op x (lookup s)"
proof (cases x)
  case x: (Register a)
  show ?thesis
  proof (cases "register a s")
    case (Inl e)
    then have "\<not> (ok a \<and> lookup s (key a) = None)" using register_Inr_iff[of a s] by simp
    then show ?thesis unfolding x by (simp only: apply_op.simps map_op.simps Inl sum.case if_False)
  next
    case (Inr s')
    with x register_InrD[OF Inr] show ?thesis by simp
  qed
next
  case x: (Remove k)
  show ?thesis
  proof (cases "remove k s")
    case (Inl e)
    then have "lookup s k = None" by (rule remove_InlD)
    then have "(lookup s)(k := None) = lookup s" by (simp add: fun_upd_idem)
    with x Inl show ?thesis by simp
  next
    case (Inr s')
    with x remove_InrD[OF Inr] show ?thesis by simp
  qed
qed

lemma lookup_apply_ops: "lookup (fold apply_op xs s) = fold map_op xs (lookup s)"
  by (induction xs arbitrary: s) (simp_all add: lookup_apply_op)

lemma register_remove:
  assumes "register a s = Inr s'"
  shows "\<exists>s''. remove (key a) s' = Inr s'' \<and> lookup s'' = lookup s"
proof -
  note r = register_InrD[OF assms]
  then obtain s'' where "remove (key a) s' = Inr s''" "lookup s'' = (lookup s')(key a := None)"
    using remove_present[of s' "key a" "val a"] by auto
  with r show ?thesis by (auto simp: fun_eq_iff)
qed

end

end
