(* ===== verification/Sdk_Registry.thy ===== *)
theory Sdk_Registry
  imports Registry_Interface Go_Time
begin

text \<open>
  The module SDK: manifests, tasks and results (\<open>sdk/module.go\<close>), the context a module is
  started with and its tool registry (\<open>sdk/context.go\<close>), the kernel's module registry
  (\<open>sdk/registry.go\<close>) and the module life cycle (\<open>sdk/lifecycle.go\<close>).

  A module is user code behind an interface: it is a record of its manifest and of one
  function per method, each of which may change the outside world \<open>'w\<close>.
\<close>

section \<open>Data\<close>

datatype Capability = CapNetwork | CapFilesystem | CapState | CapMesh

record ModuleManifest =
  mod_Name :: string
  mod_Description :: string
  mod_Version :: string
  mod_Author :: string
  mod_Capabilities :: "Capability list"
  MaxTaskRuntimeMs :: int
  MemoryLimitMB :: int

record ModuleTask =
  task_ID :: string
  task_Input :: string
  task_Metadata :: "string \<rightharpoonup> string"

record ModuleResult =
  res_TaskID :: string
  res_Output :: string
  res_Metadata :: "string \<rightharpoonup> string"

record ModuleTool =
  ToolName :: string
  ToolDescription :: string
  tool_Run :: "string \<Rightarrow> string + string"

datatype sdk_error =
    ErrNilModule
  | ErrModuleAlreadyLoaded string
  | ErrModuleNotFound string
  | ErrNilModuleTool
  | ModuleToolAlreadyRegisteredError string
  | OnStartFailed string string
  | OnStopFailed string string
  | StopAllErrors nat sdk_error

section \<open>The tools of one module\<close>

record ModuleToolRegistry =
  tool_items :: "string \<rightharpoonup> ModuleTool"

definition newModuleToolRegistry :: ModuleToolRegistry where
  "newModuleToolRegistry = \<lparr>tool_items = Map.empty\<rparr>"

definition tools_register :: "ModuleTool option \<Rightarrow> ModuleToolRegistry \<Rightarrow> sdk_error + ModuleToolRegistry" where
  "tools_register t r =
     (case t of
        None \<Rightarrow> Inl ErrNilModuleTool
      | Some tool \<Rightarrow>
          (let name = ToolName tool in
           if tool_items r name \<noteq> None then Inl (ModuleToolAlreadyRegisteredError name)
           else Inr (r\<lparr>tool_items := (tool_items r)(name \<mapsto> tool)\<rparr>)))"

definition tools_names :: "ModuleToolRegistry \<Rightarrow> string list \<Rightarrow> string list" where
  "tools_names r ord = filter (\<lambda>k. tool_items r k \<noteq> None) ord"

record ModuleContext =
  moduleName :: string
  mc_tools :: ModuleToolRegistry

definition newModuleContext :: "string \<Rightarrow> ModuleContext" where
  "newModuleContext name = \<lparr>moduleName = name, mc_tools = newModuleToolRegistry\<rparr>"

definition RegisterTool_mc :: "ModuleTool option \<Rightarrow> ModuleContext \<Rightarrow> sdk_error + ModuleContext" where
  "RegisterTool_mc t mc =
     (case tools_register t (mc_tools mc) of
        Inl e \<Rightarrow> Inl e
      | Inr r \<Rightarrow> Inr (mc\<lparr>mc_tools := r\<rparr>))"

definition mc_Tools :: "ModuleContext \<Rightarrow> string list \<Rightarrow> string list" where
  "mc_Tools mc ord = tools_names (mc_tools mc) ord"

text \<open>The tool registry is keyed by the tools' own names.\<close>

definition tools_wf :: "ModuleToolRegistry \<Rightarrow> bool" where
  "tools_wf r \<longleftrightarrow> (\<forall>k t. tool_items r k = Some t \<longrightarrow> ToolName t = k)"

lemma tools_wf_new: "tools_wf newModuleToolRegistry"
  by (simp add: tools_wf_def newModuleToolRegistry_def)

lemma tools_wf_register: "tools_wf r \<Longrightarrow> tools_register t r = Inr r' \<Longrightarrow> tools_wf r'"
  by (auto simp: tools_wf_def tools_register_def Let_def split: option.splits if_splits)

lemma tools_wf_RegisterTool: "tools_wf (mc_tools mc) \<Longrightarrow> RegisterTool_mc t mc = Inr mc' \<Longrightarrow>
    tools_wf (mc_tools mc')"
  by (auto simp: RegisterTool_mc_def tools_wf_register split: sum.splits)

interpretation module_tools: register_once tool_items ToolName "\<lambda>t. t" "\<lambda>t. True"
    "\<lambda>t. tools_register (Some t)"
  by unfold_locales (auto simp: tools_register_def)

section \<open>Modules and their registry\<close>

text \<open>
  \<open>OnStart\<close> receives the deadline of its context and the module's \<open>ModuleContext\<close>, in which it
  may register tools; \<open>OnStop\<close> receives a deadline; an error is its text.
\<close>

record 'w sdk_module =
  mod_Manifest :: ModuleManifest
  OnStart :: "duration \<Rightarrow> ModuleContext \<Rightarrow> 'w \<Rightarrow> string option \<times> ModuleContext \<times> 'w"
  OnStop :: "duration \<Rightarrow> 'w \<Rightarrow> string option \<times> 'w"
  HandleTask :: "ModuleTask \<Rightarrow> 'w \<Rightarrow> (string + ModuleResult) \<times> 'w"

definition name_of :: "'w sdk_module \<Rightarrow> string" where
  "name_of m = mod_Name (mod_Manifest m)"

record 'w ModuleRegistry =
  loaded :: "string \<rightharpoonup> 'w sdk_module"

definition NewModuleRegistry :: "'w ModuleRegistry" where
  "NewModuleRegistry = \<lparr>loaded = Map.empty\<rparr>"

definition Load :: "'w sdk_module option \<Rightarrow> 'w ModuleRegistry \<Rightarrow> sdk_error + 'w ModuleRegistry" where
  "Load m r =
     (case m of
        None \<Rightarrow> Inl ErrNilModule
      | Some md \<Rightarrow>
          (let name = name_of md in
           if loaded r name \<noteq> None then Inl (ErrModuleAlreadyLoaded name)
           else Inr (r\<lparr>loaded := (loaded r)(name \<mapsto> md)\<rparr>)))"

definition Unload :: "string \<Rightarrow> 'w ModuleRegistry \<Rightarrow> sdk_error + 'w ModuleRegistry" where
  "Unload name r =
     (if loaded r name = None then Inl (ErrModuleNotFound name)
      else Inr (r\<lparr>loaded := (loaded r)(name := None)\<rparr>))"

definition Get :: "string \<Rightarrow> 'w ModuleRegistry \<Rightarrow> sdk_error + 'w sdk_module" where
  "Get name r = (case loaded r name of None \<Rightarrow> Inl (ErrModuleNotFound name) | Some m \<Rightarrow> Inr m)"

definition Manifests :: "'w ModuleRegistry \<Rightarrow> string list \<Rightarrow> ModuleManifest list" where
  "Manifests r ord = map mod_Manifest (range_values (loaded r) ord)"

definition Len :: "'w ModuleRegistry \<Rightarrow> nat" where
  "Len r = map_len (loaded r)"

interpretation modules: removable_registry loaded name_of "\<lambda>m. m" "\<lambda>m. True" "\<lambda>m. Load (Some m)" Unload
  by unfold_locales (auto simp: Load_def Unload_def)

text \<open>The registry is keyed by the modules' own names.\<close>

definition registry_wf :: "'w ModuleRegistry \<Rightarrow> bool" where
  "registry_wf r \<longleftrightarrow> finite (dom (loaded r)) \<and> (\<forall>k m. loaded r k = Some m \<longrightarrow> name_of m = k)"

lemma registry_wf_new: "registry_wf NewModuleRegistry"
  by (simp add: registry_wf_def NewModuleRegistry_def)

lemma registry_wf_Load: "registry_wf r \<Longrightarrow> Load m r = Inr r' \<Longrightarrow> registry_wf r'"
  by (auto simp: registry_wf_def Load_def Let_def split: option.splits if_splits)

lemma registry_wf_Unload: "registry_wf r \<Longrightarrow> Unload n r = Inr r' \<Longrightarrow> registry_wf r'"
  by (auto simp: registry_wf_def Unload_def split: if_splits)

lemma Manifests_names:
  assumes "registry_wf r" and "set ord \<subseteq> dom (loaded r)"
  shows "map mod_Name (Manifests r ord) = ord"
proof -
  have "mod_Name (mod_Manifest (the (loaded r k))) = k" if "k \<in> dom (loaded r)" for k
    using that assms(1) by (auto simp: registry_wf_def name_of_def)
  with assms(2) show ?thesis
    by (auto simp: Manifests_def range_values_dom subset_iff intro!: map_idI)
qed

section \<open>The life cycle\<close>

definition defaultStartDeadlineMs :: int where "defaultStartDeadlineMs = 5000"
definition defaultStopDeadlineMs :: int where "defaultStopDeadlineMs = 3000"

definition start_deadline :: "ModuleManifest \<Rightarrow> duration" where
  "start_deadline mf =
     (let ms = (if MaxTaskRuntimeMs mf \<le> 0 then defaultStartDeadlineMs else MaxTaskRuntimeMs mf)
      in wrap64 (ms * Millisecond))"

definition StartModule ::
    "'w sdk_module option \<Rightarrow> ModuleContext \<Rightarrow> 'w ModuleRegistry \<Rightarrow> 'w
     \<Rightarrow> sdk_error option \<times> ModuleContext \<times> 'w ModuleRegistry \<times> 'w" where
  "StartModule m mc r w =
     (case m of
        None \<Rightarrow> (Some ErrNilModule, mc, r, w)
      | Some md \<Rightarrow>
          (let (err, mc', w') = OnStart md (start_deadline (mod_Manifest md)) mc w in
           case err of
             Some e \<Rightarrow> (Some (OnStartFailed (name_of md) e), mc', r, w')
           | None \<Rightarrow>
               (case Load (Some md) r of
                  Inl e \<Rightarrow> (Some e, mc', r, w')
                | Inr r' \<Rightarrow> (None, mc', r', w'))))"

definition StopModule ::
    "string \<Rightarrow> 'w ModuleRegistry \<Rightarrow> 'w \<Rightarrow> sdk_error option \<times> 'w ModuleRegistry \<times> 'w" where
  "StopModule name r w =
     (case Get name r of
        Inl e \<Rightarrow> (Some e, r, w)
      | Inr m \<Rightarrow>
          (let (stopErr, w') = OnStop m (defaultStopDeadlineMs * Millisecond) w;
               r' = (case Unload name r of Inl e \<Rightarrow> r | Inr r'' \<Rightarrow> r'')
           in (map_option (OnStopFailed name) stopErr, r', w')))"

text \<open>
  \<open>StopAll\<close> starts one goroutine per manifest and collects their results in the order in which
  they finish: \<open>fin\<close> is that order, a permutation of the names. The goroutines touch different
  names, so the model runs them one after the other in that order.
\<close>

fun stopEach :: "string list \<Rightarrow> 'w ModuleRegistry \<Rightarrow> 'w \<Rightarrow> sdk_error list \<times> 'w ModuleRegistry \<times> 'w" where
  "stopEach [] r w = ([], r, w)"
| "stopEach (n # ns) r w =
     (let (e, r', w') = StopModule n r w; (es, r'', w'') = stopEach ns r' w'
      in ((case e of None \<Rightarrow> es | Some e' \<Rightarrow> e' # es), r'', w''))"

definition StopAll ::
    "string list \<Rightarrow> string list \<Rightarrow> 'w ModuleRegistry \<Rightarrow> 'w
     \<Rightarrow> sdk_error option \<times> 'w ModuleRegistry \<times> 'w" where
  "StopAll ord fin r w =
     (if Manifests r ord = [] then (None, r, w)
      else
        (let (errs, r', w') = stopEach fin r w
         in (case errs of [] \<Rightarrow> None | e # es \<Rightarrow> Some (StopAllErrors (length errs) e), r', w')))"

section \<open>Stopping\<close>

lemma StopModule_present:
  assumes "loaded r n = Some m"
  shows "StopModule n r w =
     (let (e, w') = OnStop m (defaultStopDeadlineMs * Millisecond) w
      in (map_option (OnStopFailed n) e, r\<lparr>loaded := (loaded r)(n := None)\<rparr>, w'))"
  using assms by (simp add: StopModule_def Get_def Unload_def)

lemma StopModule_absent:
  "loaded r n = None \<Longrightarrow> StopModule n r w = (Some (ErrModuleNotFound n), r, w)"
  by (simp add: StopModule_def Get_def)

lemma StopModule_loaded:
  "StopModule n r w = (e, r', w') \<Longrightarrow> loaded r' = (loaded r)(n := None)"
  by (cases "loaded r n") (auto simp: StopModule_present StopModule_absent split: prod.splits)

lemma stopEach_loaded:
  "stopEach ns r w = (es, r', w') \<Longrightarrow> loaded r' = (\<lambda>k. if k \<in> set ns then None else loaded r k)"
proof (induction ns arbitrary: r w es r' w')
  case (Cons n ns)
  obtain e r1 w1 where s1: "StopModule n r w = (e, r1, w1)" by (metis prod_cases3)
  obtain es2 r2 w2 where s2: "stopEach ns r1 w1 = (es2, r2, w2)" by (metis prod_cases3)
  from Cons.prems s1 s2 have "r' = r2" by simp
  with Cons.IH[OF s2] StopModule_loaded[OF s1] show ?case by (auto simp: fun_eq_iff)
qed auto

text \<open>What stopping a list of loaded modules does: every \<open>OnStop\<close> runs, and its error is kept.\<close>

fun stop_errors :: "(string \<times> 'w sdk_module) list \<Rightarrow> 'w \<Rightarrow> sdk_error list" where
  "stop_errors [] w = []"
| "stop_errors ((n, m) # nms) w =
     (let (e, w') = OnStop m (defaultStopDeadlineMs * Millisecond) w
      in (case e of None \<Rightarrow> [] | Some t \<Rightarrow> [OnStopFailed n t]) @ stop_errors nms w')"

lemma stopEach_errors:
  assumes "distinct ns" and "set ns \<subseteq> dom (loaded r)"
  shows "fst (stopEach ns r w) = stop_errors (map (\<lambda>n. (n, the (loaded r n))) ns) w"
  using assms
proof (induction ns arbitrary: r w)
  case (Cons n ns)
  obtain m where m: "loaded r n = Some m" using Cons.prems by auto
  let ?r = "r\<lparr>loaded := (loaded r)(n := None)\<rparr>"
  obtain e w' where e: "OnStop m (defaultStopDeadlineMs * Millisecond) w = (e, w')" by force
  have eq: "map (\<lambda>k. (k, the (loaded ?r k))) ns = map (\<lambda>k. (k, the (loaded r k))) ns"
    using Cons.prems by (intro map_cong) auto
  have "fst (stopEach ns ?r w') = stop_errors (map (\<lambda>k. (k, the (loaded ?r k))) ns) w'"
    using Cons.prems by (intro Cons.IH) auto
  then have "fst (stopEach ns ?r w') = stop_errors (map (\<lambda>k. (k, the (loaded r k))) ns) w'"
    by (simp only: eq)
  with m e show ?case
    by (cases e) (auto simp: StopModule_present split: prod.splits)
qed simp

section \<open>Theorems\<close>

text \<open>
  C33: the module registry behaves as a finite map under any sequence of loads and unloads,
  failed ones included: a name is taken by the first module loaded under it and is free again
  only after it is unloaded.
\<close>

theorem registry_refines_map:
  "loaded (fold modules.apply_op ops r) = fold modules.map_op ops (loaded r)"
  by (rule modules.lookup_apply_ops)

text \<open>
  Starting a module. An \<open>OnStart\<close> error leaves the registry as it was; success means the
  module was not loaded before and is loaded now, under its own name; and when the name is taken
  the new module has been started, in the outside world, although it is not registered.
\<close>

lemma StartModule_cases:
  assumes "OnStart md (start_deadline (mod_Manifest md)) mc w = (err, mc', w')"
  shows "StartModule (Some md) mc r w =
     (case err of
        Some e \<Rightarrow> (Some (OnStartFailed (name_of md) e), mc', r, w')
      | None \<Rightarrow>
          if loaded r (name_of md) \<noteq> None then (Some (ErrModuleAlreadyLoaded (name_of md)), mc', r, w')
          else (None, mc', r\<lparr>loaded := (loaded r)(name_of md \<mapsto> md)\<rparr>, w'))"
  using assms by (simp add: StartModule_def Load_def Let_def split: option.splits)

definition demo_module :: "string \<Rightarrow> string option \<Rightarrow> nat sdk_module" where
  "demo_module name stop_err =
     \<lparr>mod_Manifest = \<lparr>mod_Name = name, mod_Description = [], mod_Version = ''1.0.0'', mod_Author = [],
        mod_Capabilities = [], MaxTaskRuntimeMs = 0, MemoryLimitMB = 32\<rparr>,
      OnStart = (\<lambda>d mc w. (None, mc, Suc w)),
      OnStop = (\<lambda>d w. (stop_err, Suc w)),
      HandleTask = (\<lambda>t w. (Inr \<lparr>res_TaskID = task_ID t, res_Output = ''ok'', res_Metadata = Map.empty\<rparr>, w))\<rparr>"

lemma name_of_demo [simp]: "name_of (demo_module n e) = n"
  by (simp add: name_of_def demo_module_def)

lemma StartModule_cases_witness:
  "StartModule (Some (demo_module ''a'' None)) (newModuleContext ''a'')
     \<lparr>loaded = [''a'' \<mapsto> demo_module ''a'' (Some ''e'')]\<rparr> 0
   = (Some (ErrModuleAlreadyLoaded ''a''), newModuleContext ''a'',
      \<lparr>loaded = [''a'' \<mapsto> demo_module ''a'' (Some ''e'')]\<rparr>, Suc 0)"
proof -
  have "OnStart (demo_module ''a'' None) (start_deadline (mod_Manifest (demo_module ''a'' None)))
      (newModuleContext ''a'') 0 = (None, newModuleContext ''a'', Suc 0)"
    by (simp add: demo_module_def)
  from StartModule_cases[OF this] show ?thesis by simp
qed

text \<open>
  C31: \<open>StopAll\<close> unloads every module, whatever order the stops finish in, and reports exactly
  how many of them failed, with the first failure in that order.
\<close>

theorem StopAll_unloads_all:
  assumes "registry_wf r" and "range_order (loaded r) ord" and "mset fin = mset ord"
    and "StopAll ord fin r w = (e, r', w')"
  shows "loaded r' = Map.empty \<and>
    e = (case stop_errors (map (\<lambda>n. (n, the (loaded r n))) fin) w of
           [] \<Rightarrow> None | x # xs \<Rightarrow> Some (StopAllErrors (Suc (length xs)) x))"
proof -
  have ord: "distinct ord" "set ord = dom (loaded r)" using assms(2) by (simp_all add: range_order_def)
  with assms(3) have fin: "distinct fin" "set fin = dom (loaded r)"
    by (metis mset_eq_imp_distinct_iff, metis mset_eq_setD)
  obtain es r2 w2 where st: "stopEach fin r w = (es, r2, w2)" by (metis prod_cases3)
  have es: "es = stop_errors (map (\<lambda>n. (n, the (loaded r n))) fin) w"
    using stopEach_errors[of fin r w] fin st by simp
  show ?thesis
  proof (cases "ord = []")
    case True
    with assms(3,4) ord show ?thesis by (auto simp: StopAll_def Manifests_def)
  next
    case False
    with Manifests_names[OF assms(1), of ord] ord have "Manifests r ord \<noteq> []" by auto
    with assms(4) st have "r' = r2" "e = (case es of [] \<Rightarrow> None | x # xs \<Rightarrow> Some (StopAllErrors (length es) x))"
      by (simp_all add: StopAll_def)
    with es stopEach_loaded[OF st] fin show ?thesis
      by (auto simp: fun_eq_iff split: list.splits)
  qed
qed

lemma StopAll_unloads_all_witness:
  "StopAll [''a'', ''b''] [''b'', ''a'']
     \<lparr>loaded = [''a'' \<mapsto> demo_module ''a'' (Some ''x''), ''b'' \<mapsto> demo_module ''b'' (Some ''y'')]\<rparr> 0
   = (Some (StopAllErrors 2 (OnStopFailed ''b'' ''y'')), \<lparr>loaded = Map.empty\<rparr>, 2)"
proof -
  let ?r = "\<lparr>loaded = [''a'' \<mapsto> demo_module ''a'' (Some ''x''), ''b'' \<mapsto> demo_module ''b'' (Some ''y'')]\<rparr>"
  obtain e r' w' where st: "StopAll [''a'', ''b''] [''b'', ''a''] ?r 0 = (e, r', w')" by (metis prod_cases3)
  have "registry_wf ?r" by (simp add: registry_wf_def)
  moreover have "range_order (loaded ?r) [''a'', ''b'']" by (auto simp: range_order_def)
  moreover have "mset [''b'', ''a''] = mset [''a'', ''b'']" by simp
  ultimately have "loaded r' = Map.empty \<and> e = Some (StopAllErrors 2 (OnStopFailed ''b'' ''y''))"
    using StopAll_unloads_all[OF _ _ _ st] by (simp add: demo_module_def)
  moreover have "w' = 2" using st
    by (simp add: StopAll_def Manifests_def StopModule_def Get_def Unload_def demo_module_def)
  ultimately show ?thesis using st by (simp add: equality)
qed

end
