(* ===== verification/Scheduler.thy ===== *)
theory Scheduler
  imports Cron Sdk_Registry
begin

text \<open>
  The background scheduler, \<open>modules/scheduler/scheduler.go\<close>: its job table, the evaluation of
  the jobs at a tick, and the goroutines of its tick loop with their life cycle.

  \<open>'d\<close> stands for dispatchers, the callbacks of the user. A dispatcher is called in a goroutine of
  its own, so a dispatch is recorded as the pair of the dispatcher and the task it is given.
\<close>

section \<open>Jobs\<close>

datatype sched_error =
    ErrAddJob string cron_error
  | ErrJobExists string
  | ErrJobNotFound string

definition tickInterval :: duration where "tickInterval = 30 * Second"

record Job =
  job_Name :: string
  Schedule :: cron_expr
  CronRaw :: string
  Goal :: string
  Enabled :: bool
  lastFired :: instant

record 'd Scheduler =
  jobs :: "string \<rightharpoonup> Job"
  dispatcher :: "'d option"
  quit_closed :: bool
  stopOnce_done :: bool
  running :: bool
  nodeID :: string

definition New :: "string \<Rightarrow> 'd Scheduler" where
  "New nid = \<lparr>jobs = Map.empty, dispatcher = None, quit_closed = False, stopOnce_done = False,
     running = False, nodeID = nid\<rparr>"

definition SetDispatcher :: "'d option \<Rightarrow> 'd Scheduler \<Rightarrow> 'd Scheduler" where
  "SetDispatcher fn s = s\<lparr>dispatcher := fn\<rparr>"

text \<open>\<open>ParseCron\<close> always returns (\<open>parsed_cron_eq\<close>), so the first case never arises.\<close>

definition parsed_cron :: "string \<Rightarrow> cron_error + cron_expr" where
  "parsed_cron s = (case ParseCron s of None \<Rightarrow> Inl ErrEmptyExpr | Some r \<Rightarrow> r)"

lemma parsed_cron_eq: "ParseCron s = Some (parsed_cron s)"
  using ParseCron_returns[of s] by (auto simp: parsed_cron_def)

definition new_job :: "string \<Rightarrow> string \<Rightarrow> string \<Rightarrow> cron_expr \<Rightarrow> Job" where
  "new_job name cronExpr goal parsed =
     \<lparr>job_Name = name, Schedule = parsed, CronRaw = cronExpr, Goal = goal, Enabled = True,
      lastFired = zero_time\<rparr>"

definition AddJob :: "string \<Rightarrow> string \<Rightarrow> string \<Rightarrow> 'd Scheduler \<Rightarrow> sched_error + 'd Scheduler" where
  "AddJob name cronExpr goal s =
     (case parsed_cron cronExpr of
        Inl e \<Rightarrow> Inl (ErrAddJob name e)
      | Inr parsed \<Rightarrow>
          if jobs s name \<noteq> None then Inl (ErrJobExists name)
          else Inr (s\<lparr>jobs := (jobs s)(name \<mapsto> new_job name cronExpr goal parsed)\<rparr>))"

definition RemoveJob :: "string \<Rightarrow> 'd Scheduler \<Rightarrow> sched_error + 'd Scheduler" where
  "RemoveJob name s =
     (if jobs s name = None then Inl (ErrJobNotFound name)
      else Inr (s\<lparr>jobs := (jobs s)(name := None)\<rparr>))"

definition EnableJob :: "string \<Rightarrow> 'd Scheduler \<Rightarrow> sched_error + 'd Scheduler" where
  "EnableJob name s =
     (case jobs s name of
        None \<Rightarrow> Inl (ErrJobNotFound name)
      | Some job \<Rightarrow> Inr (s\<lparr>jobs := (jobs s)(name \<mapsto> job\<lparr>Enabled := True\<rparr>)\<rparr>))"

definition DisableJob :: "string \<Rightarrow> 'd Scheduler \<Rightarrow> sched_error + 'd Scheduler" where
  "DisableJob name s =
     (case jobs s name of
        None \<Rightarrow> Inl (ErrJobNotFound name)
      | Some job \<Rightarrow> Inr (s\<lparr>jobs := (jobs s)(name \<mapsto> job\<lparr>Enabled := False\<rparr>)\<rparr>))"

definition Jobs :: "'d Scheduler \<Rightarrow> string list \<Rightarrow> Job list" where
  "Jobs s ord = range_values (jobs s) ord"

definition sched_Len :: "'d Scheduler \<Rightarrow> nat" where
  "sched_Len s = map_len (jobs s)"

text \<open>The job table as a registry; a request is a name, a cron expression and a goal.\<close>

interpretation job_table: removable_registry jobs fst
    "\<lambda>(n, c, g). new_job n c g (projr (parsed_cron c))" "\<lambda>(n, c, g). \<not> isl (parsed_cron c)"
    "\<lambda>(n, c, g). AddJob n c g" RemoveJob
  by unfold_locales (auto simp: AddJob_def RemoveJob_def split: sum.splits)

text \<open>Every job is stored under its own name, with a schedule parsed from its expression.\<close>

definition jobs_wf :: "'d Scheduler \<Rightarrow> bool" where
  "jobs_wf s \<longleftrightarrow> (\<forall>n j. jobs s n = Some j \<longrightarrow>
     job_Name j = n \<and> ParseCron (CronRaw j) = Some (Inr (Schedule j)))"

lemma jobs_wf_New: "jobs_wf (New nid)"
  by (simp add: jobs_wf_def New_def)

lemma jobs_wf_AddJob: "jobs_wf s \<Longrightarrow> AddJob n c g s = Inr s' \<Longrightarrow> jobs_wf s'"
  using parsed_cron_eq[of c]
  by (auto simp: jobs_wf_def AddJob_def new_job_def split: sum.splits if_splits)

lemma jobs_wf_RemoveJob: "jobs_wf s \<Longrightarrow> RemoveJob n s = Inr s' \<Longrightarrow> jobs_wf s'"
  by (auto simp: jobs_wf_def RemoveJob_def split: if_splits)

lemma jobs_wf_EnableJob: "jobs_wf s \<Longrightarrow> EnableJob n s = Inr s' \<Longrightarrow> jobs_wf s'"
  by (auto simp: jobs_wf_def EnableJob_def split: option.splits if_splits)

lemma jobs_wf_DisableJob: "jobs_wf s \<Longrightarrow> DisableJob n s = Inr s' \<Longrightarrow> jobs_wf s'"
  by (auto simp: jobs_wf_def DisableJob_def split: option.splits if_splits)

section \<open>Evaluating the jobs at a tick\<close>

text \<open>
  The loop of \<open>evaluateAndDispatch\<close> over the job table: the table with the new \<open>lastFired\<close>
  times, and the due jobs in the order of the range.
\<close>

fun evalJobs :: "zone \<Rightarrow> instant \<Rightarrow> string list \<Rightarrow> (string \<rightharpoonup> Job) \<Rightarrow> (string \<rightharpoonup> Job) \<times> Job list" where
  "evalJobs z now [] js = (js, [])"
| "evalJobs z now (n # ns) js =
     (case js n of
        None \<Rightarrow> evalJobs z now ns js
      | Some job \<Rightarrow>
          if \<not> Enabled job then evalJobs z now ns js
          else if Truncate (lastFired job) Minute_d = Truncate now Minute_d then evalJobs z now ns js
          else if Matches (Schedule job) z (Truncate now Minute_d) then
            (let job' = job\<lparr>lastFired := now\<rparr>; (js', due) = evalJobs z now ns (js(n \<mapsto> job'))
             in (js', job' # due))
          else evalJobs z now ns js)"

definition sched_task :: "zone \<Rightarrow> instant \<Rightarrow> Job \<Rightarrow> ModuleTask" where
  "sched_task z now job =
     \<lparr>task_ID = ''sched-'' @ job_Name job @ ''-'' @ show_int (UnixNano now),
      task_Input = Goal job,
      task_Metadata = [''source'' \<mapsto> ''scheduler'', ''job_name'' \<mapsto> job_Name job,
        ''cron_expr'' \<mapsto> CronRaw job,
        ''scheduled'' \<mapsto> format_RFC3339 z (Truncate now Minute_d)]\<rparr>"

definition evaluateAndDispatch ::
    "zone \<Rightarrow> string list \<Rightarrow> instant \<Rightarrow> 'd Scheduler \<Rightarrow> 'd Scheduler \<times> ('d \<times> ModuleTask) list" where
  "evaluateAndDispatch z ord now s =
     (let (js, due) = evalJobs z now ord (jobs s); s' = s\<lparr>jobs := js\<rparr>
      in case dispatcher s of
           None \<Rightarrow> (s', [])
         | Some d \<Rightarrow> if due = [] then (s', []) else (s', map (\<lambda>job. (d, sched_task z now job)) due))"

text \<open>What a tick means for one job, whatever the order of the range.\<close>

definition due_now :: "zone \<Rightarrow> instant \<Rightarrow> Job \<Rightarrow> bool" where
  "due_now z now job \<longleftrightarrow> Enabled job \<and> Truncate (lastFired job) Minute_d \<noteq> Truncate now Minute_d
     \<and> Matches (Schedule job) z (Truncate now Minute_d)"

definition tick_job :: "zone \<Rightarrow> instant \<Rightarrow> Job \<Rightarrow> Job" where
  "tick_job z now job = (if due_now z now job then job\<lparr>lastFired := now\<rparr> else job)"

definition due_jobs :: "zone \<Rightarrow> instant \<Rightarrow> (string \<rightharpoonup> Job) \<Rightarrow> string list \<Rightarrow> Job list" where
  "due_jobs z now js ord =
     map (tick_job z now) (filter (due_now z now) (range_values js ord))"

lemma evalJobs_map:
  assumes "distinct ord"
  shows "fst (evalJobs z now ord js) =
     (\<lambda>n. if n \<in> set ord then map_option (tick_job z now) (js n) else js n)"
  using assms
proof (induction ord arbitrary: js)
  case (Cons n ns)
  then show ?case
    by (cases "js n") (auto simp: tick_job_def due_now_def fun_eq_iff Let_def case_prod_unfold)
qed simp

lemma range_values_upd: "n \<notin> set ns \<Longrightarrow> range_values (js(n \<mapsto> j)) ns = range_values js ns"
  by (induction ns) (auto split: option.splits)

lemma due_jobs_upd: "n \<notin> set ns \<Longrightarrow> due_jobs z now (js(n \<mapsto> j)) ns = due_jobs z now js ns"
  by (simp add: due_jobs_def range_values_upd)

lemma evalJobs_due:
  assumes "distinct ord"
  shows "snd (evalJobs z now ord js) = due_jobs z now js ord"
  using assms
proof (induction ord arbitrary: js)
  case (Cons n ns)
  show ?case
  proof (cases "js n")
    case (Some job)
    show ?thesis
    proof (cases "due_now z now job")
      case True
      obtain js' due where e: "evalJobs z now ns (js(n \<mapsto> job\<lparr>lastFired := now\<rparr>)) = (js', due)" by force
      with Cons have "due = due_jobs z now js ns" using due_jobs_upd[of n ns] by (metis distinct.simps(2) snd_conv)
      with True Some e show ?thesis by (simp add: due_now_def due_jobs_def tick_job_def)
    next
      case False
      with Some Cons show ?thesis by (auto simp: due_now_def due_jobs_def)
    qed
  qed (use Cons in \<open>simp add: due_jobs_def\<close>)
qed (simp add: due_jobs_def)

lemma evaluateAndDispatch_jobs:
  assumes "range_order (jobs s) ord"
  shows "jobs (fst (evaluateAndDispatch z ord now s)) = map_option (tick_job z now) \<circ> jobs s"
proof -
  have "jobs (fst (evaluateAndDispatch z ord now s)) = fst (evalJobs z now ord (jobs s))"
    by (simp add: evaluateAndDispatch_def Let_def split: prod.splits option.splits)
  with assms show ?thesis
    by (auto simp: evalJobs_map range_order_def fun_eq_iff domIff)
qed

lemma evaluateAndDispatch_tasks:
  assumes "distinct ord"
  shows "snd (evaluateAndDispatch z ord now s) =
     (case dispatcher s of None \<Rightarrow> []
      | Some d \<Rightarrow> map (\<lambda>job. (d, sched_task z now job)) (due_jobs z now (jobs s) ord))"
  using evalJobs_due[OF assms, of z now "jobs s"]
  by (auto simp: evaluateAndDispatch_def Let_def split: prod.splits option.splits)

lemma evaluateAndDispatch_frame [frame_simps]:
  "dispatcher (fst (evaluateAndDispatch z ord now s)) = dispatcher s"
  "quit_closed (fst (evaluateAndDispatch z ord now s)) = quit_closed s"
  "stopOnce_done (fst (evaluateAndDispatch z ord now s)) = stopOnce_done s"
  "running (fst (evaluateAndDispatch z ord now s)) = running s"
  by (simp_all add: evaluateAndDispatch_def Let_def split: prod.splits option.splits)

lemma tick_job_frame [frame_simps]:
  "job_Name (tick_job z now j) = job_Name j" "Schedule (tick_job z now j) = Schedule j"
  "CronRaw (tick_job z now j) = CronRaw j" "Enabled (tick_job z now j) = Enabled j"
  "Goal (tick_job z now j) = Goal j"
  by (simp_all add: tick_job_def)

lemma jobs_wf_evaluate:
  "jobs_wf s \<Longrightarrow> range_order (jobs s) ord \<Longrightarrow> jobs_wf (fst (evaluateAndDispatch z ord now s))"
  by (auto simp: jobs_wf_def evaluateAndDispatch_jobs frame_simps)

section \<open>A run of ticks\<close>

lemma Truncate_mono: "0 < d \<Longrightarrow> t \<le> u \<Longrightarrow> Truncate t d \<le> Truncate u d"
proof -
  assume d: "0 < d" and tu: "t \<le> u"
  have "t div d \<le> u div d" using zdiv_mono1[OF tu d] .
  then have "d * (t div d) \<le> d * (u div d)" using d by (simp add: mult_left_mono)
  with d show "Truncate t d \<le> Truncate u d" by (simp add: Truncate_def minus_mod_eq_mult_div)
qed

lemma sorted_minutes: "sorted ts \<Longrightarrow> sorted (map (\<lambda>t. Truncate t Minute_d) ts)"
  by (induction ts) (auto intro: Truncate_mono simp: duration_defs)

lemma remdups_adj_sorted_head:
  assumes "sorted (m # xs)" and "P m"
  shows "m # remdups_adj (filter (\<lambda>k. P k \<and> k \<noteq> m) xs) = remdups_adj (m # filter P xs)"
  using assms
proof (induction xs)
  case (Cons x xs)
  show ?case
  proof (cases "x = m")
    case True with Cons show ?thesis by simp
  next
    case False
    have "filter (\<lambda>k. P k \<and> k \<noteq> m) xs = filter P xs"
      using False Cons.prems by (intro filter_cong) auto
    with False Cons.prems Cons.IH show ?thesis by (cases "P x") auto
  qed
qed simp


text \<open>
  Ticks one after the other, each with the range order its loop happens to use; every dispatch is
  logged with the time of its tick.
\<close>

fun run_ticks ::
    "zone \<Rightarrow> (string list \<times> instant) list \<Rightarrow> 'd Scheduler
     \<Rightarrow> 'd Scheduler \<times> (instant \<times> 'd \<times> ModuleTask) list" where
  "run_ticks z [] s = (s, [])"
| "run_ticks z ((ord, now) # es) s =
     (let (s', out) = evaluateAndDispatch z ord now s; (s'', log) = run_ticks z es s'
      in (s'', map (Pair now) out @ log))"

definition for_job :: "string \<Rightarrow> instant \<times> 'd \<times> ModuleTask \<Rightarrow> bool" where
  "for_job n x \<longleftrightarrow> task_Metadata (snd (snd x)) ''job_name'' = Some n"

definition in_minute :: "instant \<Rightarrow> instant \<times> 'd \<times> ModuleTask \<Rightarrow> bool" where
  "in_minute m x \<longleftrightarrow> Truncate (fst x) Minute_d = m"

text \<open>The ticks at which a job fires: those whose minute matches and is not the last one fired.\<close>

fun firing_ticks :: "(instant \<Rightarrow> bool) \<Rightarrow> instant \<Rightarrow> instant list \<Rightarrow> instant list" where
  "firing_ticks P prev [] = []"
| "firing_ticks P prev (t # ts) =
     (let m = Truncate t Minute_d
      in if m \<noteq> prev \<and> P m then t # firing_ticks P m ts else firing_ticks P prev ts)"

lemma sched_task_job_name [simp]: "task_Metadata (sched_task z now j) ''job_name'' = Some (job_Name j)"
  by (simp add: sched_task_def)

lemma sched_task_tick [simp]: "sched_task z now (tick_job z' now' j) = sched_task z now j"
  by (simp add: sched_task_def tick_job_def)

lemma filter_due_jobs:
  assumes "jobs_wf s" and "distinct ord" and "set ord \<subseteq> dom (jobs s)" and "jobs s n = Some job"
  shows "filter (\<lambda>j. job_Name j = n) (due_jobs z now (jobs s) ord) =
     (if n \<in> set ord \<and> due_now z now job then [tick_job z now job] else [])"
  using assms(2,3)
proof (induction ord)
  case (Cons k ord)
  then obtain jk where jk: "jobs s k = Some jk" by auto
  with assms(1) have "job_Name jk = k" by (simp add: jobs_wf_def)
  with Cons jk assms(4) show ?case
    by (cases "k = n") (auto simp: due_jobs_def frame_simps)
qed (simp add: due_jobs_def)

lemma evaluate_job_log:
  assumes "jobs_wf s" and "range_order (jobs s) ord" and "jobs s n = Some job" and "dispatcher s = Some d"
  shows "filter (for_job n) (map (Pair now) (snd (evaluateAndDispatch z ord now s))) =
     (if due_now z now job then [(now, d, sched_task z now job)] else [])"
proof -
  have "n \<in> set ord" using assms(2,3) by (auto simp: range_order_def)
  with assms have f: "filter (\<lambda>j. job_Name j = n) (due_jobs z now (jobs s) ord) =
      (if due_now z now job then [tick_job z now job] else [])"
    by (subst filter_due_jobs) (auto simp: range_order_def)
  have "filter (for_job n) (map (\<lambda>job. (now, d, sched_task z now job)) js) =
      map (\<lambda>job. (now, d, sched_task z now job)) (filter (\<lambda>j. job_Name j = n) js)" for js
    by (induction js) (simp_all add: for_job_def)
  with f assms show ?thesis
    by (simp add: evaluateAndDispatch_tasks range_order_distinct comp_def)
qed

lemma run_ticks_log:
  assumes "jobs_wf s" and "\<forall>e \<in> set es. range_order (jobs s) (fst e)"
    and "jobs s n = Some job" and "Enabled job" and "dispatcher s = Some d"
  shows "filter (for_job n) (snd (run_ticks z es s)) =
     map (\<lambda>now. (now, d, sched_task z now job))
       (firing_ticks (Matches (Schedule job) z) (Truncate (lastFired job) Minute_d) (map snd es))"
  using assms
proof (induction es arbitrary: s job)
  case (Cons e es)
  obtain ord now where e: "e = (ord, now)" by force
  obtain s' out where ev: "evaluateAndDispatch z ord now s = (s', out)" by force
  have ord: "range_order (jobs s) ord" using Cons.prems e by simp
  have js: "jobs s' = map_option (tick_job z now) \<circ> jobs s"
    using evaluateAndDispatch_jobs[OF ord, of z now] ev by simp
  have wf: "jobs_wf s'" using jobs_wf_evaluate[OF Cons.prems(1) ord, of z now] ev by simp
  have disp: "dispatcher s' = Some d"
    using evaluateAndDispatch_frame(1)[of z ord now s] ev Cons.prems(5) by simp
  have dom: "\<forall>e \<in> set es. range_order (jobs s') (fst e)"
    using Cons.prems(2) js by (auto simp: range_order_def dom_def)
  have "filter (for_job n) (snd (run_ticks z es s')) =
     map (\<lambda>now. (now, d, sched_task z now job))
       (firing_ticks (Matches (Schedule job) z) (Truncate (lastFired (tick_job z now job)) Minute_d) (map snd es))"
    using Cons.IH[OF wf dom _ _ disp, of "tick_job z now job"] Cons.prems js by (simp add: frame_simps)
  moreover have "filter (for_job n) (map (Pair now) out) =
      (if due_now z now job then [(now, d, sched_task z now job)] else [])"
    using evaluate_job_log[OF Cons.prems(1) ord Cons.prems(3,5), of now z] ev by simp
  ultimately show ?case using Cons.prems(4) e ev
    by (auto simp: Let_def tick_job_def due_now_def split: prod.splits)
qed simp

lemma firing_ticks_minutes:
  assumes "sorted ts" and "\<forall>t \<in> set ts. prev \<le> Truncate t Minute_d"
  shows "map (\<lambda>t. Truncate t Minute_d) (firing_ticks P prev ts) =
     remdups_adj (filter (\<lambda>m. P m \<and> m \<noteq> prev) (map (\<lambda>t. Truncate t Minute_d) ts))"
  using assms
proof (induction ts arbitrary: prev)
  case (Cons t ts)
  let ?m = "Truncate t Minute_d"
  have mono: "\<forall>u \<in> set ts. ?m \<le> Truncate u Minute_d"
    using Cons.prems(1) by (auto simp: Truncate_mono duration_defs)
  show ?case
  proof (cases "?m \<noteq> prev \<and> P ?m")
    case True
    let ?tr = "\<lambda>t. Truncate t Minute_d"
    have "filter (\<lambda>m. P m \<and> m \<noteq> prev) (map ?tr ts) = filter P (map ?tr ts)"
      using mono True Cons.prems(2) by (intro filter_cong) auto
    moreover have "?m # remdups_adj (filter (\<lambda>m. P m \<and> m \<noteq> ?m) (map ?tr ts)) =
        remdups_adj (?m # filter P (map ?tr ts))"
      using sorted_minutes[OF Cons.prems(1)] True by (intro remdups_adj_sorted_head) simp_all
    ultimately show ?thesis using True Cons.IH[of ?m] Cons.prems(1) mono by simp
  next
    case False
    with Cons show ?thesis by auto
  qed
qed simp

section \<open>The life cycle of the tick loop\<close>

text \<open>
  The goroutines of the scheduler. A context is a number and \<open>done\<close> is the set of those that are
  cancelled; \<open>loops\<close> holds one context per live tick loop, \<open>leaving\<close> one per loop that has found its context
  done and is inside its call of \<open>Stop\<close>. \<open>Stop\<close> is two steps, closing the
  quit channel and clearing \<open>running\<close> under the lock, so other goroutines may run in between; only the first call
  takes them, and every call returns after the second.
  Once the channel is closed a loop whose ticker is ready as well may still take the tick, since
  \<open>select\<close> chooses either.
\<close>

record 'd sched_world =
  sched :: "'d Scheduler"
  loops :: "nat multiset"
  leaving :: "nat multiset"
  ctx_done :: "nat set"
  stopping :: bool
  sent :: "(instant \<times> 'd \<times> ModuleTask) list"

definition close_quit :: "'d sched_world \<Rightarrow> 'd sched_world" where
  "close_quit w =
     (if stopOnce_done (sched w) then w
      else w\<lparr>sched := (sched w)\<lparr>stopOnce_done := True, quit_closed := True\<rparr>, stopping := True\<rparr>)"

inductive sched_step :: "zone \<Rightarrow> 'd sched_world \<Rightarrow> 'd sched_world \<Rightarrow> bool" for z where
  Start_noop: "running (sched w) \<Longrightarrow> sched_step z w w"
| Start: "\<not> running (sched w) \<Longrightarrow>
    sched_step z w (w\<lparr>sched := (sched w)\<lparr>running := True\<rparr>, loops := add_mset c (loops w)\<rparr>)"
| Stop_close: "sched_step z w (close_quit w)"
| Stop_clear: "stopping w \<Longrightarrow>
    sched_step z w (w\<lparr>sched := (sched w)\<lparr>running := False\<rparr>, stopping := False\<rparr>)"
| Cancel: "sched_step z w (w\<lparr>ctx_done := insert c (ctx_done w)\<rparr>)"
| Loop_quit: "c \<in># loops w \<Longrightarrow> quit_closed (sched w) \<Longrightarrow>
    sched_step z w (w\<lparr>loops := loops w - {#c#}\<rparr>)"
| Loop_done: "c \<in># loops w \<Longrightarrow> c \<in> ctx_done w \<Longrightarrow>
    sched_step z w (close_quit (w\<lparr>loops := loops w - {#c#}, leaving := add_mset c (leaving w)\<rparr>))"
| Loop_left: "c \<in># leaving w \<Longrightarrow> \<not> stopping w \<Longrightarrow>
    sched_step z w (w\<lparr>leaving := leaving w - {#c#}\<rparr>)"
| Loop_tick: "c \<in># loops w \<Longrightarrow> range_order (jobs (sched w)) ord \<Longrightarrow>
    evaluateAndDispatch z ord now (sched w) = (s', out) \<Longrightarrow>
    sched_step z w (w\<lparr>sched := s', sent := sent w @ map (Pair now) out\<rparr>)"
| Add: "AddJob n c g (sched w) = Inr s' \<Longrightarrow> sched_step z w (w\<lparr>sched := s'\<rparr>)"
| Remove: "RemoveJob n (sched w) = Inr s' \<Longrightarrow> sched_step z w (w\<lparr>sched := s'\<rparr>)"
| Enable: "EnableJob n (sched w) = Inr s' \<Longrightarrow> sched_step z w (w\<lparr>sched := s'\<rparr>)"
| Disable: "DisableJob n (sched w) = Inr s' \<Longrightarrow> sched_step z w (w\<lparr>sched := s'\<rparr>)"
| Dispatcher: "sched_step z w (w\<lparr>sched := SetDispatcher d (sched w)\<rparr>)"

inductive_cases sched_stepE: "sched_step z w w'"

definition init_world :: "string \<Rightarrow> 'd sched_world" where
  "init_world nid = \<lparr>sched = New nid, loops = {#}, leaving = {#}, ctx_done = {}, stopping = False, sent = []\<rparr>"

definition reachable_sched :: "zone \<Rightarrow> string \<Rightarrow> 'd sched_world \<Rightarrow> bool" where
  "reachable_sched z nid w \<longleftrightarrow> (sched_step z)\<^sup>*\<^sup>* (init_world nid) w"

text \<open>
  The phases of a scheduler: before \<open>Stop\<close> there is at most one loop, while \<open>Stop\<close> is between its
  two steps still at most one, and afterwards \<open>Start\<close> works once more.
\<close>

definition loop_inv :: "'d sched_world \<Rightarrow> bool" where
  "loop_inv w \<longleftrightarrow>
     (let s = sched w; k = size (loops w) + size (leaving w) in
      quit_closed s = stopOnce_done s \<and> (leaving w = {#} \<or> stopOnce_done s) \<and>
      (if stopping w then stopOnce_done s \<and> k \<le> (if running s then 1 else 0)
       else if stopOnce_done s then k \<le> (if running s then 2 else 1)
       else k = (if running s then 1 else 0))) \<and> jobs_wf (sched w)"

lemma job_ops_frame [frame_simps]:
  "AddJob n c g s = Inr s' \<Longrightarrow> quit_closed s' = quit_closed s \<and> stopOnce_done s' = stopOnce_done s \<and> running s' = running s"
  "RemoveJob n s = Inr s' \<Longrightarrow> quit_closed s' = quit_closed s \<and> stopOnce_done s' = stopOnce_done s \<and> running s' = running s"
  "EnableJob n s = Inr s' \<Longrightarrow> quit_closed s' = quit_closed s \<and> stopOnce_done s' = stopOnce_done s \<and> running s' = running s"
  "DisableJob n s = Inr s' \<Longrightarrow> quit_closed s' = quit_closed s \<and> stopOnce_done s' = stopOnce_done s \<and> running s' = running s"
  by (auto simp: AddJob_def RemoveJob_def EnableJob_def DisableJob_def split: sum.splits option.splits if_splits)

lemma loop_inv_init: "loop_inv (init_world nid)"
  by (simp add: loop_inv_def init_world_def jobs_wf_New Let_def) (simp add: New_def)

lemma loop_inv_close: "loop_inv w \<Longrightarrow> loop_inv (close_quit w)"
  by (auto simp: loop_inv_def close_quit_def Let_def jobs_wf_def split: if_splits)

lemma loop_inv_sched:
  assumes "loop_inv w" and "jobs_wf s'" and "quit_closed s' = quit_closed (sched w)"
    and "stopOnce_done s' = stopOnce_done (sched w)" and "running s' = running (sched w)"
  shows "loop_inv (w\<lparr>sched := s'\<rparr>)" and "loop_inv (w\<lparr>sched := s', sent := xs\<rparr>)"
  using assms by (auto simp: loop_inv_def Let_def split: if_splits)

lemma loop_inv_exit:
  assumes "loop_inv w" and "c \<in># loops w" and "quit_closed (sched w)"
  shows "loop_inv (w\<lparr>loops := loops w - {#c#}\<rparr>)"
  using assms by (auto simp: loop_inv_def Let_def size_Diff_singleton split: if_splits)

lemma loop_inv_left:
  assumes "loop_inv w" and "c \<in># leaving w" and "\<not> stopping w"
  shows "loop_inv (w\<lparr>leaving := leaving w - {#c#}\<rparr>)"
  using assms by (auto simp: loop_inv_def Let_def size_Diff_singleton split: if_splits)

lemma loop_inv_jobs_wf: "loop_inv w \<Longrightarrow> jobs_wf (sched w)"
  by (simp add: loop_inv_def Let_def)

lemma loop_inv_done:
  assumes "loop_inv w" and "c \<in># loops w"
  shows "loop_inv (close_quit (w\<lparr>loops := loops w - {#c#}, leaving := add_mset c (leaving w)\<rparr>))"
proof -
  from assms(2) obtain L where "loops w = add_mset c L" by (blast dest: multi_member_split)
  with assms(1) show ?thesis
    by (auto simp: loop_inv_def close_quit_def Let_def jobs_wf_def size_Diff_singleton split: if_splits)
qed

lemma loop_inv_step: "sched_step z w w' \<Longrightarrow> loop_inv w \<Longrightarrow> loop_inv w'"
proof (induction rule: sched_step.induct)
  case (Start w c)
  then show ?case by (auto simp: loop_inv_def Let_def jobs_wf_def split: if_splits)
next
  case (Stop_clear w)
  then show ?case by (auto simp: loop_inv_def Let_def jobs_wf_def split: if_splits)
next
  case (Cancel w c)
  then show ?case by (auto simp: loop_inv_def Let_def split: if_splits)
next
  case (Loop_tick c w ord now s' out)
  then show ?case
    using jobs_wf_evaluate[of "sched w" ord z now] evaluateAndDispatch_frame[of z ord now "sched w"]
    by (intro loop_inv_sched) (auto simp: loop_inv_jobs_wf)
next
  case (Dispatcher w d)
  then show ?case
    by (intro loop_inv_sched) (auto simp: SetDispatcher_def jobs_wf_def dest: loop_inv_jobs_wf)
qed (auto intro: loop_inv_close loop_inv_exit loop_inv_done loop_inv_left loop_inv_sched jobs_wf_AddJob
      jobs_wf_RemoveJob jobs_wf_EnableJob jobs_wf_DisableJob loop_inv_jobs_wf dest: job_ops_frame)

lemma loop_inv_reachable: "reachable_sched z nid w \<Longrightarrow> loop_inv w"
proof -
  assume "reachable_sched z nid w"
  then have "(sched_step z)\<^sup>*\<^sup>* (init_world nid) w" by (simp add: reachable_sched_def)
  then show ?thesis by (induction rule: rtranclp_induct) (auto intro: loop_inv_init loop_inv_step)
qed

section \<open>The scheduler as a module\<close>

definition scheduler_Stop :: "'d Scheduler \<Rightarrow> 'd Scheduler" where
  "scheduler_Stop s =
     (if stopOnce_done s then s
      else s\<lparr>stopOnce_done := True, quit_closed := True, running := False\<rparr>)"

definition scheduler_Manifest :: ModuleManifest where
  "scheduler_Manifest =
     \<lparr>mod_Name = ''scheduler'',
      mod_Description = ''Cron-like background task scheduler for proactive agent behavior'',
      mod_Version = ''1.0.0'', mod_Author = ''AetherCore'', mod_Capabilities = [CapState],
      MaxTaskRuntimeMs = 10000, MemoryLimitMB = 32\<rparr>"

definition scheduler_HandleTask :: "ModuleTask \<Rightarrow> 'd Scheduler \<Rightarrow> (string + ModuleResult) \<times> 'd Scheduler" where
  "scheduler_HandleTask t s =
     (Inr \<lparr>res_TaskID = task_ID t,
           res_Output = ''scheduler: '' @ show_nat (sched_Len s) @ '' active jobs'',
           res_Metadata = Map.empty\<rparr>, s)"

definition scheduler_module :: "'d Scheduler sdk_module" where
  "scheduler_module =
     \<lparr>mod_Manifest = scheduler_Manifest,
      OnStart = (\<lambda>d mc s. (None, mc, s)),
      OnStop = (\<lambda>d s. (None, scheduler_Stop s)),
      HandleTask = scheduler_HandleTask\<rparr>"

lemma name_of_scheduler: "name_of scheduler_module = ''scheduler''"
  by (simp add: name_of_def scheduler_module_def scheduler_Manifest_def)

lemma two_steps_stop:
  "\<not> stopOnce_done (sched w) \<Longrightarrow>
   sched ((close_quit w)\<lparr>sched := (sched (close_quit w))\<lparr>running := False\<rparr>, stopping := False\<rparr>)
     = scheduler_Stop (sched w)"
  by (simp add: close_quit_def scheduler_Stop_def)

section \<open>Theorems\<close>

lemma ticker_sorted:
  "map snd es = map (\<lambda>i. start + int i * tickInterval) [0..<k] \<Longrightarrow> sorted (map snd es)"
  by (simp add: sorted_iff_nth_mono tickInterval_def duration_defs)

lemma ticker_after:
  "map snd es = map (\<lambda>i. start + int i * tickInterval) [0..<k] \<Longrightarrow> e \<in> set es \<Longrightarrow> start \<le> snd e"
proof -
  assume a: "map snd es = map (\<lambda>i. start + int i * tickInterval) [0..<k]" and e: "e \<in> set es"
  then have "snd e \<in> set (map (\<lambda>i. start + int i * tickInterval) [0..<k])" by (metis a image_eqI list.set_map)
  then show "start \<le> snd e" by (auto simp: tickInterval_def duration_defs)
qed

lemma ticker_covers:
  assumes "Minute_d dvd m" and "start \<le> m" and "m + tickInterval \<le> start + int k * tickInterval"
  shows "\<exists>i<k. Truncate (start + int i * tickInterval) Minute_d = m"
proof -
  define i where "i = nat ((m - start + tickInterval - 1) div tickInterval)"
  define t where "t = start + int i * tickInterval"
  have i: "int i = (m - start + tickInterval - 1) div tickInterval"
    using assms(2) by (simp add: i_def tickInterval_def duration_defs)
  have t: "m \<le> t" "t < m + tickInterval" unfolding t_def i using assms(2)
    by (simp_all add: tickInterval_def duration_defs)
  with assms(3) have "int i * tickInterval < int k * tickInterval" unfolding t_def by linarith
  then have "i < k" by (simp add: tickInterval_def duration_defs)
  moreover obtain q where q: "m = Minute_d * q" using assms(1) by (elim dvdE)
  have "t div Minute_d = q"
    using t q by (simp add: tickInterval_def duration_defs)
  with q have "Truncate t Minute_d = m" by (simp add: Truncate_def minus_mod_eq_mult_div duration_defs)
  ultimately show ?thesis unfolding t_def by blast
qed

lemma distinct_remdups_adj_sorted: "sorted (xs :: int list) \<Longrightarrow> distinct (remdups_adj xs)"
  by (induction xs rule: remdups_adj.induct) force+

lemma count_list_distinct: "distinct xs \<Longrightarrow> count_list xs x = (if x \<in> set xs then 1 else 0)"
  by (induction xs) auto

lemma firing_log:
  assumes "jobs_wf s" and "\<forall>e \<in> set es. range_order (jobs s) (fst e)"
    and "jobs s n = Some job" and "Enabled job" and "dispatcher s = Some d"
    and "sorted (map snd es)"
    and "\<forall>e \<in> set es. Truncate (lastFired job) Minute_d < Truncate (snd e) Minute_d"
  shows "\<exists>ts. filter (for_job n) (snd (run_ticks z es s)) = map (\<lambda>t. (t, d, sched_task z t job)) ts
     \<and> map (\<lambda>t. Truncate t Minute_d) ts =
         remdups_adj (filter (Matches (Schedule job) z) (map (\<lambda>e. Truncate (snd e) Minute_d) es))"
proof -
  let ?p = "Truncate (lastFired job) Minute_d"
  let ?ts = "firing_ticks (Matches (Schedule job) z) ?p (map snd es)"
  have "filter (\<lambda>m. Matches (Schedule job) z m \<and> m \<noteq> ?p) (map (\<lambda>t. Truncate t Minute_d) (map snd es))
      = filter (Matches (Schedule job) z) (map (\<lambda>e. Truncate (snd e) Minute_d) es)"
    using assms(7) by (intro filter_cong) (auto simp: comp_def)
  then have "map (\<lambda>t. Truncate t Minute_d) ?ts =
      remdups_adj (filter (Matches (Schedule job) z) (map (\<lambda>e. Truncate (snd e) Minute_d) es))"
    using assms(6,7) by (subst firing_ticks_minutes) (auto intro: less_imp_le)
  with run_ticks_log[OF assms(1-5)] show ?thesis by blast
qed

text \<open>
  The job table behaves as a finite map under any sequence of additions and removals. A
  request whose cron expression does not parse, or whose name is taken, changes nothing.
\<close>

lemma job_table_refines_map:
  "jobs (fold job_table.apply_op ops s) = fold job_table.map_op ops (jobs s)"
  by (rule job_table.lookup_apply_ops)

text \<open>
  C3: over any run of ticks in time order an enabled job is dispatched exactly once for every
  minute among the ticks that matches its schedule, in order, with the job's own goal and
  expression, however many ticks fall into the minute and whatever the range orders are.
\<close>

theorem fires_once_per_minute:
  assumes "jobs_wf s" and "\<forall>e \<in> set es. range_order (jobs s) (fst e)"
    and "jobs s n = Some job" and "Enabled job" and "dispatcher s = Some d"
    and "sorted (map snd es)"
    and "\<forall>e \<in> set es. Truncate (lastFired job) Minute_d < Truncate (snd e) Minute_d"
  shows "\<exists>ts. filter (for_job n) (snd (run_ticks z es s)) = map (\<lambda>t. (t, d, sched_task z t job)) ts
     \<and> map (\<lambda>t. Truncate t Minute_d) ts =
         remdups_adj (filter (Matches (Schedule job) z) (map (\<lambda>e. Truncate (snd e) Minute_d) es))"
  using assms by (rule firing_log)

lemma add_every_minute:
  "\<exists>c s. parsed_cron ''* * * * *'' = Inr c \<and> (\<forall>z t. Matches c z t)
     \<and> AddJob ''a'' ''* * * * *'' g (SetDispatcher (Some d) (New nid)) = Inr s
     \<and> jobs s = [''a'' \<mapsto> new_job ''a'' ''* * * * *'' g c] \<and> dispatcher s = Some d \<and> jobs_wf s"
proof -
  obtain c where "ParseCron ''* * * * *'' = Some (Inr c)" and m: "\<forall>z t. Matches c z t"
    using parse_every_minute by blast
  then have c: "parsed_cron ''* * * * *'' = Inr c" using parsed_cron_eq[of "''* * * * *''"] by simp
  let ?s = "(New nid)\<lparr>jobs := [''a'' \<mapsto> new_job ''a'' ''* * * * *'' g c], dispatcher := Some d\<rparr>"
  have a: "AddJob ''a'' ''* * * * *'' g (SetDispatcher (Some d) (New nid)) = Inr ?s"
    using c by (simp add: AddJob_def SetDispatcher_def New_def)
  have "jobs_wf (SetDispatcher (Some d) (New nid))" by (simp add: SetDispatcher_def jobs_wf_def New_def)
  from a jobs_wf_AddJob[OF this a] have "jobs_wf ?s" by blast
  with a show ?thesis using c m by (intro exI[of _ c] exI[of _ ?s]) simp
qed

lemma fires_once_per_minute_witness:
  "\<exists>s. AddJob ''a'' ''* * * * *'' ''g'' (SetDispatcher (Some ()) (New ''n'')) = Inr s \<and>
     (\<exists>ts. map fst (filter (for_job ''a'') (snd (run_ticks utc
         [([''a''], Minute_d), ([''a''], Minute_d + tickInterval), ([''a''], 2 * Minute_d)] s))) = ts
       \<and> map (\<lambda>t. Truncate t Minute_d) ts = [Minute_d, 2 * Minute_d])"
proof -
  let ?es = "[([''a''], Minute_d), ([''a''], Minute_d + tickInterval), ([''a''], 2 * Minute_d)]"
  obtain c s where s: "AddJob ''a'' ''* * * * *'' ''g'' (SetDispatcher (Some ()) (New ''n'')) = Inr s"
    "jobs s = [''a'' \<mapsto> new_job ''a'' ''* * * * *'' ''g'' c]" "dispatcher s = Some ()" "jobs_wf s"
    "\<forall>z t. Matches c z t"
    using add_every_minute[of "''g''" "()" "''n''"] by blast
  let ?j = "new_job ''a'' ''* * * * *'' ''g'' c"
  have "\<forall>e \<in> set ?es. range_order (jobs s) (fst e)" using s by (simp add: range_order_def)
  moreover have "Enabled ?j" by (simp add: new_job_def)
  moreover have "sorted (map snd ?es)" by (simp add: duration_defs tickInterval_def)
  moreover have "\<forall>e \<in> set ?es. Truncate (lastFired ?j) Minute_d < Truncate (snd e) Minute_d"
    by (simp add: new_job_def zero_time_def Truncate_def duration_defs tickInterval_def)
  ultimately obtain ts where
    "filter (for_job ''a'') (snd (run_ticks utc ?es s)) = map (\<lambda>t. (t, (), sched_task utc t ?j)) ts"
    "map (\<lambda>t. Truncate t Minute_d) ts =
       remdups_adj (filter (Matches (Schedule ?j) utc) (map (\<lambda>e. Truncate (snd e) Minute_d) ?es))"
    using fires_once_per_minute[OF s(4), of ?es "''a''" ?j "()" utc] s(2,3) by auto
  moreover from this(1) have "map fst (filter (for_job ''a'') (snd (run_ticks utc ?es s))) = ts"
    by (simp add: comp_def)
  moreover have "filter (Matches (Schedule ?j) utc) (map (\<lambda>e. Truncate (snd e) Minute_d) ?es)
      = [Minute_d, Minute_d, 2 * Minute_d]"
    using s(5) by (simp add: new_job_def Truncate_def duration_defs tickInterval_def)
  ultimately show ?thesis using s(1)
    by (intro exI[of _ s] exI[of _ ts]) (simp add: duration_defs)
qed

text \<open>
  C23: with the ticker of the code, one tick every 30 seconds, no matching minute is missed and
  none fires twice: a job is dispatched exactly once in every matching minute the run covers and
  never in another.
\<close>

theorem ticker_never_misses:
  assumes "jobs_wf s" and "\<forall>e \<in> set es. range_order (jobs s) (fst e)"
    and "jobs s n = Some job" and "Enabled job" and "dispatcher s = Some d"
    and "map snd es = map (\<lambda>i. start + int i * tickInterval) [0..<k]"
    and "Truncate (lastFired job) Minute_d < Truncate start Minute_d"
    and "Minute_d dvd m" and "start \<le> m" and "m + tickInterval \<le> start + int k * tickInterval"
  shows "length (filter (in_minute m) (filter (for_job n) (snd (run_ticks z es s)))) =
     (if Matches (Schedule job) z m then 1 else 0)"
proof -
  let ?tr = "\<lambda>t. Truncate t Minute_d"
  note cover = ticker_covers[OF assms(8-10)]
  have after: "\<forall>e \<in> set es. ?tr (lastFired job) < ?tr (snd e)"
    using assms(7) ticker_after[OF assms(6)] by (force intro: less_le_trans Truncate_mono simp: duration_defs)
  obtain ts where ts: "filter (for_job n) (snd (run_ticks z es s)) = map (\<lambda>t. (t, d, sched_task z t job)) ts"
    "map ?tr ts = remdups_adj (filter (Matches (Schedule job) z) (map (\<lambda>e. ?tr (snd e)) es))"
    using firing_log[OF assms(1-5) _ after, of z] ticker_sorted[OF assms(6)] by blast
  have "sorted (map ?tr (map snd es))" using ticker_sorted[OF assms(6)] by (rule sorted_minutes)
  then have "distinct (map ?tr ts)"
    unfolding ts(2) by (intro distinct_remdups_adj_sorted sorted_wrt_filter) (simp add: comp_def)
  moreover have covered: "m \<in> set (map ?tr (map snd es))" unfolding assms(6) using cover by auto
  have "m \<in> set (map ?tr ts) \<longleftrightarrow> Matches (Schedule job) z m"
    unfolding ts(2) using covered by auto
  moreover have "length (filter (in_minute m) (map (\<lambda>t. (t, d, sched_task z t job)) ts)) = count_list (map ?tr ts) m"
    by (induction ts) (simp_all add: in_minute_def)
  ultimately show ?thesis unfolding ts(1) by (auto simp: count_list_distinct)
qed

lemma ticker_never_misses_witness:
  "\<exists>s. AddJob ''a'' ''* * * * *'' ''g'' (SetDispatcher (Some ()) (New ''n'')) = Inr s \<and>
     length (filter (in_minute (2 * Minute_d)) (filter (for_job ''a'') (snd (run_ticks utc
       (map (\<lambda>i. ([''a''], Minute_d + Second + int i * tickInterval)) [0..<5]) s)))) = 1"
proof -
  let ?es = "map (\<lambda>i. ([''a''], Minute_d + Second + int i * tickInterval)) [0..<5]"
  obtain c s where s: "AddJob ''a'' ''* * * * *'' ''g'' (SetDispatcher (Some ()) (New ''n'')) = Inr s"
    "jobs s = [''a'' \<mapsto> new_job ''a'' ''* * * * *'' ''g'' c]" "dispatcher s = Some ()" "jobs_wf s"
    "\<forall>z t. Matches c z t"
    using add_every_minute[of "''g''" "()" "''n''"] by blast
  let ?j = "new_job ''a'' ''* * * * *'' ''g'' c"
  have "length (filter (in_minute (2 * Minute_d)) (filter (for_job ''a'') (snd (run_ticks utc ?es s))))
      = (if Matches (Schedule ?j) utc (2 * Minute_d) then 1 else 0)"
  proof (rule ticker_never_misses[OF s(4), where start = "Minute_d + Second" and k = 5])
    show "\<forall>e \<in> set ?es. range_order (jobs s) (fst e)" using s(2) by (simp add: range_order_def)
  qed (use s(2,3) in \<open>simp_all add: new_job_def zero_time_def Truncate_def duration_defs tickInterval_def comp_def\<close>)
  with s(1,5) show ?thesis by (intro exI[of _ s]) (simp add: new_job_def)
qed

text \<open>
  C34: at every moment at most two tick loops are live, those included that are about to leave, and at most one as long
  as the scheduler has not been stopped; \<open>Start\<close>, \<open>Stop\<close>, cancellations and ticks may interleave in any way. The
  second loop is real: a scheduler that is started again after \<open>Stop\<close> spawns one although its
  quit channel is closed.
\<close>

theorem tick_loops_bounded:
  assumes "reachable_sched z nid w"
  shows "size (loops w) + size (leaving w) \<le> 2 \<and>
    (quit_closed (sched w) \<or> size (loops w) + size (leaving w) \<le> 1)"
  using loop_inv_reachable[OF assms] by (auto simp: loop_inv_def Let_def split: if_splits)

definition restarted :: "unit sched_world" where
  "restarted = \<lparr>sched = (New ''n'')\<lparr>stopOnce_done := True, quit_closed := True, running := True\<rparr>,
     loops = {#1, 0#}, leaving = {#}, ctx_done = {}, stopping = False, sent = []\<rparr>"

lemma restarted_reachable: "reachable_sched z ''n'' restarted"
proof -
  let ?w0 = "init_world ''n'' :: unit sched_world"
  let ?w1 = "?w0\<lparr>sched := (sched ?w0)\<lparr>running := True\<rparr>, loops := add_mset 0 (loops ?w0)\<rparr>"
  let ?w2 = "close_quit ?w1"
  let ?w3 = "?w2\<lparr>sched := (sched ?w2)\<lparr>running := False\<rparr>, stopping := False\<rparr>"
  let ?w4 = "?w3\<lparr>sched := (sched ?w3)\<lparr>running := True\<rparr>, loops := add_mset 1 (loops ?w3)\<rparr>"
  have "sched_step z ?w0 ?w1" by (rule sched_step.Start) (simp add: init_world_def New_def)
  moreover have "sched_step z ?w1 ?w2" by (rule sched_step.Stop_close)
  moreover have "sched_step z ?w2 ?w3"
    by (rule sched_step.Stop_clear) (simp add: close_quit_def init_world_def New_def)
  moreover have "sched_step z ?w3 ?w4" by (rule sched_step.Start) simp
  ultimately have "(sched_step z)\<^sup>*\<^sup>* ?w0 ?w4"
    by (meson rtranclp.rtrancl_into_rtrancl rtranclp.rtrancl_refl)
  moreover have "?w4 = restarted"
    by (simp add: restarted_def close_quit_def init_world_def New_def)
  ultimately show ?thesis by (simp add: reachable_sched_def)
qed

lemma tick_loops_bounded_witness:
  "\<exists>w :: unit sched_world. reachable_sched utc ''n'' w \<and> size (loops w) = 2 \<and> quit_closed (sched w)"
  using tick_loops_bounded[OF restarted_reachable[of utc]] restarted_reachable[of utc]
  by (intro exI[of _ restarted]) (simp add: restarted_def)

lemma evaluate_nil_dispatcher:
  assumes "dispatcher s = None"
  shows "snd (evaluateAndDispatch z ord now s) = []"
  using assms by (simp add: evaluateAndDispatch_def Let_def split: prod.splits)

text \<open>
  A job that falls due while no dispatcher is set is lost for that minute: it is marked as
  fired, nothing is dispatched, and a dispatcher set later in the same minute does not see it.
\<close>

lemma nil_dispatcher_consumes_firing:
  assumes "jobs_wf s" and "range_order (jobs s) ord" and "range_order (jobs s) ord'"
    and "jobs s n = Some job" and "due_now z now job" and "dispatcher s = None"
    and "Truncate now' Minute_d = Truncate now Minute_d"
    and "evaluateAndDispatch z ord now s = (s', out)"
  shows "out = [] \<and> jobs s' n = Some (job\<lparr>lastFired := now\<rparr>) \<and>
    filter (for_job n) (map (Pair now') (snd (evaluateAndDispatch z ord' now' (SetDispatcher (Some d) s')))) = []"
proof -
  have out: "out = []" using evaluate_nil_dispatcher[OF assms(6), of z ord now] assms(8) by simp
  have js: "jobs s' = map_option (tick_job z now) \<circ> jobs s"
    using evaluateAndDispatch_jobs[OF assms(2), of z now] assms(8) by simp
  with assms(4,5) have job: "jobs s' n = Some (job\<lparr>lastFired := now\<rparr>)" by (simp add: tick_job_def)
  have "jobs_wf s'" using jobs_wf_evaluate[OF assms(1,2), of z now] assms(8) by simp
  then have "jobs_wf (SetDispatcher (Some d) s')" by (simp add: SetDispatcher_def jobs_wf_def)
  moreover have "range_order (jobs (SetDispatcher (Some d) s')) ord'"
    using assms(3) js by (simp add: range_order_def dom_def SetDispatcher_def)
  moreover have "jobs (SetDispatcher (Some d) s') n = Some (job\<lparr>lastFired := now\<rparr>)"
    using job by (simp add: SetDispatcher_def)
  moreover have "dispatcher (SetDispatcher (Some d) s') = Some d" by (simp add: SetDispatcher_def)
  moreover have "\<not> due_now z now' (job\<lparr>lastFired := now\<rparr>)" using assms(7) by (simp add: due_now_def)
  ultimately show ?thesis using out job evaluate_job_log[of "SetDispatcher (Some d) s'"] by simp
qed

lemma nil_dispatcher_consumes_firing_witness:
  "\<exists>s. AddJob ''a'' ''* * * * *'' ''g'' (New ''n'') = Inr s \<and>
     filter (for_job ''a'') (map (Pair (Minute_d + tickInterval)) (snd (evaluateAndDispatch utc [''a'']
       (Minute_d + tickInterval)
       (SetDispatcher (Some ()) (fst (evaluateAndDispatch utc [''a''] Minute_d s)))))) = []"
proof -
  obtain c s0 where s0: "parsed_cron ''* * * * *'' = Inr c" "\<forall>z t. Matches c z t"
    using add_every_minute[of "[]" "()" "[]"] by blast
  let ?j = "new_job ''a'' ''* * * * *'' ''g'' c"
  let ?s = "(New ''n'')\<lparr>jobs := [''a'' \<mapsto> ?j]\<rparr> :: unit Scheduler"
  have add: "AddJob ''a'' ''* * * * *'' ''g'' (New ''n'') = Inr ?s"
    using s0 by (simp add: AddJob_def New_def)
  obtain s' out where ev: "evaluateAndDispatch utc [''a''] Minute_d ?s = (s', out)" by force
  have "due_now utc Minute_d ?j" using s0(2)
    by (simp add: due_now_def new_job_def zero_time_def Truncate_def duration_defs)
  moreover have "Truncate (Minute_d + tickInterval) Minute_d = Truncate Minute_d Minute_d"
    by (simp add: Truncate_def duration_defs tickInterval_def)
  ultimately have "filter (for_job ''a'') (map (Pair (Minute_d + tickInterval)) (snd (evaluateAndDispatch utc [''a'']
       (Minute_d + tickInterval) (SetDispatcher (Some ()) s')))) = []"
    using nil_dispatcher_consumes_firing[OF jobs_wf_AddJob[OF jobs_wf_New add] _ _ _ _ _ _ ev,
        of "[''a'']" "''a''" ?j "Minute_d + tickInterval" "()"]
    by (simp add: range_order_def New_def)
  with add ev show ?thesis by auto
qed

lemma StopModule_scheduler:
  assumes "loaded r ''scheduler'' = Some scheduler_module"
  shows "StopModule ''scheduler'' r s = (None, r\<lparr>loaded := (loaded r)(''scheduler'' := None)\<rparr>, scheduler_Stop s)"
  using assms by (simp add: StopModule_present scheduler_module_def)

end
