(* ===== verification/Go_Encoding.thy ===== *)
theory Go_Encoding
  imports Go_Strings Go_Prelude
begin

text \<open>
  The byte encodings the program takes from Go's standard library: \<open>encoding/hex\<close>,
  \<open>encoding/base64\<close> (the padded standard alphabet for writing, the unpadded URL alphabet for
  reading) and the big-endian integers of \<open>encoding/binary\<close>. A byte string is a \<open>string\<close>.
\<close>

section \<open>Hexadecimal\<close>

definition hex_digit :: "nat \<Rightarrow> char" where
  "hex_digit n = (if n < 10 then char_of (48 + n) else char_of (87 + n))"

definition hex_val :: "char \<Rightarrow> nat option" where
  "hex_val c =
     (let b = byte c in
      if 48 \<le> b \<and> b \<le> 57 then Some (b - 48)
      else if 97 \<le> b \<and> b \<le> 102 then Some (b - 87)
      else if 65 \<le> b \<and> b \<le> 70 then Some (b - 55)
      else None)"

fun hex_encode :: "string \<Rightarrow> string" where
  "hex_encode [] = []"
| "hex_encode (c # cs) = hex_digit (byte c div 16) # hex_digit (byte c mod 16) # hex_encode cs"

text \<open>\<open>hex.DecodeString\<close>; an odd length and a character that is no digit are errors.\<close>

fun hex_decode :: "string \<Rightarrow> string option" where
  "hex_decode [] = Some []"
| "hex_decode [c] = None"
| "hex_decode (a # b # cs) =
     (case (hex_val a, hex_val b) of
        (Some x, Some y) \<Rightarrow> map_option (\<lambda>r. char_of (16 * x + y) # r) (hex_decode cs)
      | _ \<Rightarrow> None)"

lemma byte_less [simp]: "byte c < 256"
  by (simp add: byte_def)

lemma byte_char_of [simp]: "n < 256 \<Longrightarrow> byte (char_of n) = n"
  by (simp add: byte_def)

lemma char_of_byte [simp]: "char_of (byte c) = c"
  by (simp add: byte_def)

lemma byte_inject: "byte c = byte d \<longleftrightarrow> c = d"
  by (metis char_of_byte)

lemma hex_val_digit [simp]: "n < 16 \<Longrightarrow> hex_val (hex_digit n) = Some n"
  by (simp add: hex_val_def hex_digit_def)

lemma byte_div_16: "byte c div 16 < 16"
  using byte_less[of c] by (simp only: less_mult_imp_div_less)

lemma hex_decode_encode [simp]: "hex_decode (hex_encode s) = Some s"
proof (induction s)
  case (Cons c s)
  have "16 * (byte c div 16) + byte c mod 16 = byte c" by simp
  with Cons byte_div_16[of c] show ?case by simp
qed simp

lemma hex_encode_inject: "hex_encode s = hex_encode t \<longleftrightarrow> s = t"
  by (metis hex_decode_encode option.inject)

lemma length_hex_encode [simp]: "length (hex_encode s) = 2 * length s"
  by (induction s) auto

lemma hex_decode_length: "hex_decode s = Some t \<Longrightarrow> length s = 2 * length t"
  by (induction s arbitrary: t rule: hex_decode.induct) (auto split: option.splits)

section \<open>Base64\<close>

definition b64_char :: "nat \<Rightarrow> nat \<Rightarrow> nat \<Rightarrow> char" where
  "b64_char c62 c63 n =
     (if n < 26 then char_of (65 + n) else if n < 52 then char_of (71 + n)
      else if n < 62 then char_of (n - 4) else if n = 62 then char_of c62 else char_of c63)"

definition b64_val :: "nat \<Rightarrow> nat \<Rightarrow> char \<Rightarrow> nat option" where
  "b64_val c62 c63 c =
     (let b = byte c in
      if 65 \<le> b \<and> b \<le> 90 then Some (b - 65)
      else if 97 \<le> b \<and> b \<le> 122 then Some (b - 71)
      else if 48 \<le> b \<and> b \<le> 57 then Some (b + 4)
      else if b = c62 then Some 62 else if b = c63 then Some 63 else None)"

text \<open>\<open>base64.StdEncoding\<close>, with \<open>+\<close>, \<open>/\<close> and padding; the URL alphabet has \<open>-\<close> and \<open>_\<close>.\<close>

fun b64_encode :: "nat \<Rightarrow> nat \<Rightarrow> bool \<Rightarrow> string \<Rightarrow> string" where
  "b64_encode x y pad [] = []"
| "b64_encode x y pad [a] =
     [b64_char x y (byte a div 4), b64_char x y (byte a mod 4 * 16)] @ (if pad then ''=='' else [])"
| "b64_encode x y pad [a, b] =
     [b64_char x y (byte a div 4), b64_char x y (byte a mod 4 * 16 + byte b div 16),
      b64_char x y (byte b mod 16 * 4)] @ (if pad then ''='' else [])"
| "b64_encode x y pad (a # b # c # cs) =
     b64_char x y (byte a div 4) # b64_char x y (byte a mod 4 * 16 + byte b div 16)
     # b64_char x y (byte b mod 16 * 4 + byte c div 64) # b64_char x y (byte c mod 64)
     # b64_encode x y pad cs"

definition std_base64 :: "string \<Rightarrow> string" where "std_base64 = b64_encode 43 47 True"
definition url_base64 :: "string \<Rightarrow> string" where "url_base64 = b64_encode 45 95 True"
definition raw_url_base64 :: "string \<Rightarrow> string" where "raw_url_base64 = b64_encode 45 95 False"

text \<open>
  \<open>base64.RawURLEncoding.DecodeString\<close>: carriage returns and newlines are skipped, padding is not
  part of the alphabet, and surplus low bits of the last group are ignored.
\<close>

fun b64_groups :: "nat list \<Rightarrow> string option" where
  "b64_groups [] = Some []"
| "b64_groups [a] = None"
| "b64_groups [a, b] = Some [char_of (a * 4 + b div 16)]"
| "b64_groups [a, b, c] = Some [char_of (a * 4 + b div 16), char_of (b mod 16 * 16 + c div 4)]"
| "b64_groups (a # b # c # d # vs) =
     map_option (\<lambda>r. char_of (a * 4 + b div 16) # char_of (b mod 16 * 16 + c div 4)
        # char_of (c mod 4 * 64 + d) # r) (b64_groups vs)"

definition raw_url_base64_decode :: "string \<Rightarrow> string option" where
  "raw_url_base64_decode s =
     (let cs = filter (\<lambda>c. byte c \<noteq> 10 \<and> byte c \<noteq> 13) s; vs = map (b64_val 45 95) cs
      in if None \<in> set vs then None else b64_groups (map the vs))"

lemma b64_val_char: "n < 64 \<Longrightarrow> b64_val 45 95 (b64_char 45 95 n) = Some n"
  by (auto simp: b64_val_def b64_char_def Let_def)

lemma b64_char_not_newline: "n < 64 \<Longrightarrow> byte (b64_char 45 95 n) \<noteq> 10 \<and> byte (b64_char 45 95 n) \<noteq> 13"
  by (auto simp: b64_char_def)

definition b64_values :: "string \<Rightarrow> nat list" where
  "b64_values s = map (\<lambda>c. the (b64_val 45 95 c)) s"

lemma b64_byte_bounds:
  "byte a div 4 < 64" "byte a mod 4 * 16 < 64" "byte a mod 4 * 16 + byte b div 16 < 64"
  "byte b mod 16 * 4 < 64" "byte b mod 16 * 4 + byte c div 64 < 64" "byte c mod 64 < 64"
proof -
  have "byte a div 4 < 64" "byte b div 16 < 16" "byte c div 64 < 4"
    using byte_less[of a] byte_less[of b] byte_less[of c] by (simp_all only: less_mult_imp_div_less)
  moreover have "byte a mod 4 < 4" "byte b mod 16 < 16" "byte c mod 64 < 64" by simp_all
  ultimately show "byte a div 4 < 64" "byte a mod 4 * 16 < 64" "byte a mod 4 * 16 + byte b div 16 < 64"
    "byte b mod 16 * 4 < 64" "byte b mod 16 * 4 + byte c div 64 < 64" "byte c mod 64 < 64"
    by linarith+
qed

definition b64_text :: "string \<Rightarrow> bool" where
  "b64_text s \<longleftrightarrow> (\<forall>c \<in> set s. \<exists>n < 64. c = b64_char 45 95 n)"

lemma b64_text_encode: "b64_text (b64_encode 45 95 False s)"
  by (induction "45 :: nat" "95 :: nat" False s rule: b64_encode.induct)
     (auto simp: b64_text_def intro: b64_byte_bounds)

lemma raw_url_base64_decode_text:
  assumes "b64_text s"
  shows "raw_url_base64_decode s = b64_groups (b64_values s)"
proof -
  have "filter (\<lambda>c. byte c \<noteq> 10 \<and> byte c \<noteq> 13) s = s"
    using assms b64_char_not_newline by (intro filter_True) (auto simp: b64_text_def)
  moreover have "None \<notin> set (map (b64_val 45 95) s)"
    using assms b64_val_char by (auto simp: b64_text_def)
  ultimately show ?thesis by (simp add: raw_url_base64_decode_def b64_values_def comp_def)
qed

lemma b64_join_bytes:
  "byte b div 16 div 16 = 0" "byte b div 16 mod 16 = byte b div 16"
  "byte c div 64 div 4 = 0" "byte c div 64 mod 4 = byte c div 64"
  using byte_less[of b] byte_less[of c] by (simp_all add: div_mult2_eq [symmetric] less_mult_imp_div_less)

lemma b64_groups_encode: "b64_groups (b64_values (b64_encode 45 95 False s)) = Some s"
  by (induction "45 :: nat" "95 :: nat" False s rule: b64_encode.induct)
     (simp_all add: b64_values_def b64_val_char b64_byte_bounds b64_join_bytes)

lemma raw_url_base64_roundtrip: "raw_url_base64_decode (raw_url_base64 s) = Some s"
  by (simp add: raw_url_base64_def raw_url_base64_decode_text b64_text_encode b64_groups_encode)

section \<open>Big-endian integers\<close>

definition be16 :: "nat \<Rightarrow> string" where
  "be16 n = [char_of (n div 256), char_of n]"

fun be_bytes :: "nat \<Rightarrow> nat \<Rightarrow> string" where
  "be_bytes 0 n = []"
| "be_bytes (Suc k) n = be_bytes k (n div 256) @ [char_of n]"

definition be_value :: "string \<Rightarrow> nat" where
  "be_value s = foldl (\<lambda>a c. 256 * a + byte c) 0 s"

lemma length_be_bytes [simp]: "length (be_bytes k n) = k"
  by (induction k arbitrary: n) auto

lemma be_value_append: "be_value (s @ [c]) = 256 * be_value s + byte c"
  by (simp add: be_value_def)

lemma byte_char_of_mod: "byte (char_of (n :: nat)) = n mod 256"
  by (simp add: byte_def)

lemma be_value_bytes: "be_value (be_bytes k n) = n mod 256 ^ k"
proof (induction k arbitrary: n)
  case (Suc k)
  have "256 * (n div 256 mod 256 ^ k) + n mod 256 = n mod (256 * 256 ^ k)"
    by (simp add: mod_mult2_eq)
  with Suc show ?case by (simp add: be_value_append byte_char_of_mod)
qed (simp add: be_value_def)

lemma be_bytes_inject: "n < 256 ^ k \<Longrightarrow> m < 256 ^ k \<Longrightarrow> be_bytes k n = be_bytes k m \<Longrightarrow> n = m"
  by (metis be_value_bytes mod_less)

end
