(* ===== verification/Go_Json.thy ===== *)
theory Go_Json
  imports Go_Encoding
begin

text \<open>
  JSON as \<open>encoding/json\<close> writes it: compact, with HTML-safe string escapes. The values of the
  program are objects with their fields in the order of the struct, or with sorted keys for a
  map; numbers are the decimal integers the program writes.
\<close>

datatype json =
    JNull
  | JBool bool
  | JInt int
  | JStr string
  | JArr "json list"
  | JObj "(string \<times> json) list"

definition json_u :: "nat \<Rightarrow> string" where
  "json_u r = CHR 0x5C # ''u'' @ [hex_digit (r div 4096 mod 16), hex_digit (r div 256 mod 16),
     hex_digit (r div 16 mod 16), hex_digit (r mod 16)]"

text \<open>One rune of a string, given with its bytes; an invalid byte is written as \<open>\ufffd\<close>.\<close>

definition json_rune :: "nat \<times> string \<Rightarrow> string" where
  "json_rune x =
     (let (r, b) = x in
      if r = 34 then [CHR 0x5C, CHR 0x22]
      else if r = 92 then [CHR 0x5C, CHR 0x5C]
      else if r = 8 then CHR 0x5C # ''b''
      else if r = 12 then CHR 0x5C # ''f''
      else if r = 10 then CHR 0x5C # ''n''
      else if r = 13 then CHR 0x5C # ''r''
      else if r = 9 then CHR 0x5C # ''t''
      else if r < 32 \<or> r = 60 \<or> r = 62 \<or> r = 38 then json_u r
      else if r = rune_error \<and> length b = 1 then json_u rune_error
      else if r = 8232 \<or> r = 8233 then json_u r
      else b)"

definition json_string :: "string \<Rightarrow> string" where
  "json_string s = CHR 0x22 # concat (map json_rune (chunks s)) @ [CHR 0x22]"

fun join_comma :: "string list \<Rightarrow> string" where
  "join_comma [] = []"
| "join_comma [w] = w"
| "join_comma (w # v # ws) = w @ '','' @ join_comma (v # ws)"

fun json_write :: "json \<Rightarrow> string"
  and json_member :: "string \<times> json \<Rightarrow> string" where
  "json_write JNull = ''null''"
| "json_write (JBool b) = (if b then ''true'' else ''false'')"
| "json_write (JInt i) = show_int i"
| "json_write (JStr s) = json_string s"
| "json_write (JArr vs) = ''['' @ join_comma (map json_write vs) @ '']''"
| "json_write (JObj ms) = ''{'' @ join_comma (map json_member ms) @ ''}''"
| "json_member (k, v) = json_string k @ '':'' @ json_write v"

text \<open>A string of letters, digits and a few signs is written as it is.\<close>

definition plain_char :: "char \<Rightarrow> bool" where
  "plain_char c \<longleftrightarrow> 32 < byte c \<and> byte c < 127 \<and> byte c \<noteq> 34 \<and> byte c \<noteq> 92 \<and> byte c \<noteq> 60
     \<and> byte c \<noteq> 62 \<and> byte c \<noteq> 38"

lemma json_string_plain:
  assumes "\<forall>c \<in> set s. plain_char c"
  shows "json_string s = CHR 0x22 # s @ [CHR 0x22]"
proof -
  have "ascii s" using assms by (auto simp: ascii_def plain_char_def)
  moreover have "concat (map (json_rune \<circ> (\<lambda>c. (byte c, [c]))) s) = s"
    using assms by (induction s) (simp_all add: json_rune_def plain_char_def rune_error_def)
  ultimately show ?thesis by (simp add: json_string_def chunks_ascii)
qed

end
