(* ===== verification/Tool_Registry.thy ===== *)
theory Tool_Registry
  imports Registry_Interface Go_Json
begin

text \<open>
  The tools of the kernel: their manifests (\<open>core/llm/types.go\<close>), the trusted keys and the manifest
  validator (\<open>core/security/keyring.go\<close>, \<open>manifest_validator.go\<close>), and the registry of the
  engine (\<open>core/tool.go\<close>).

  PEM, X.509, Ed25519 and the JSON decoder are parameters: \<open>pem_decode\<close> gives the type and the
  bytes of a block, \<open>parse_pkix\<close> a public key, \<open>ed25519_verify\<close> the verdict on key, message and
  signature, \<open>canonical\<close> the re-encoding of a JSON object (given by \<open>Manifest_Canonical\<close>), and \<open>marshal\<close> the encoding of a
  manifest, which fails if its parameter schema is not JSON.
\<close>

section \<open>Manifests and tools\<close>

datatype llm_Capability = CapNetwork_llm | CapFilesystem_llm | CapState_llm

record ToolManifest =
  tm_Name :: string
  tm_Description :: string
  tm_Parameters :: string
  tm_Capabilities :: "llm_Capability list"
  MaxRuntimeMs :: int
  MemoryLimit :: int

text \<open>A tool is code behind an interface; running it may change the world \<open>'w\<close>.\<close>

record 'w Tool =
  Manifest :: ToolManifest
  tool_Execute :: "string \<Rightarrow> 'w \<Rightarrow> (string + string) \<times> 'w"

section \<open>Trusted keys\<close>

datatype pub_key = Ed25519_key string | Other_key

datatype key_error =
    PEM_no_block
  | PEM_bad_type
  | PKIX_error string
  | Not_ed25519
  | Bad_key_size

type_synonym KeyRing = "string list"

definition NewKeyRing :: KeyRing where "NewKeyRing = []"

definition PublicKeySize :: nat where "PublicKeySize = 32"
definition SignatureSize :: nat where "SignatureSize = 64"

definition LoadPEM ::
    "(string \<Rightarrow> (string \<times> string) option) \<Rightarrow> (string \<Rightarrow> string + pub_key) \<Rightarrow> string \<Rightarrow> KeyRing
     \<Rightarrow> key_error + KeyRing" where
  "LoadPEM pem_decode parse_pkix pemData k =
     (case pem_decode pemData of
        None \<Rightarrow> Inl PEM_no_block
      | Some (ty, bytes) \<Rightarrow>
          if ty \<noteq> ''PUBLIC KEY'' then Inl PEM_bad_type
          else (case parse_pkix bytes of
                  Inl e \<Rightarrow> Inl (PKIX_error e)
                | Inr Other_key \<Rightarrow> Inl Not_ed25519
                | Inr (Ed25519_key pub) \<Rightarrow>
                    if length pub \<noteq> PublicKeySize then Inl Bad_key_size else Inr (k @ [pub])))"

section \<open>The manifest validator\<close>

datatype verify_error =
    MissingSignature
  | BadHex
  | BadSignatureLength
  | BadManifest
  | NoTrustedKeys
  | NoKeyVerifies

type_synonym verify_fn = "string \<Rightarrow> string \<Rightarrow> bool \<times> verify_error option"

fun anyKeyVerifies :: "(string \<Rightarrow> string \<Rightarrow> string \<Rightarrow> bool) \<Rightarrow> KeyRing \<Rightarrow> string \<Rightarrow> string \<Rightarrow> bool \<times> verify_error option" where
  "anyKeyVerifies ed25519_verify [] msg sig = (False, Some NoKeyVerifies)"
| "anyKeyVerifies ed25519_verify (k # ks) msg sig =
     (if ed25519_verify k msg sig then (True, None) else anyKeyVerifies ed25519_verify ks msg sig)"

definition ManifestValidator_Verify ::
    "(string \<Rightarrow> string option) \<Rightarrow> (string \<Rightarrow> string \<Rightarrow> string \<Rightarrow> bool) \<Rightarrow> KeyRing \<Rightarrow> verify_fn" where
  "ManifestValidator_Verify canonical ed25519_verify keys manifestJSON signatureHex =
     (if signatureHex = [] then (False, Some MissingSignature)
      else case hex_decode signatureHex of
        None \<Rightarrow> (False, Some BadHex)
      | Some sigBytes \<Rightarrow>
          if length sigBytes \<noteq> SignatureSize then (False, Some BadSignatureLength)
          else (case canonical manifestJSON of
                  None \<Rightarrow> (False, Some BadManifest)
                | Some msg \<Rightarrow>
                    if keys = [] then (False, Some NoTrustedKeys)
                    else anyKeyVerifies ed25519_verify keys msg sigBytes))"

lemma anyKeyVerifies_iff: "fst (anyKeyVerifies v ks msg sig) \<longleftrightarrow> (\<exists>k \<in> set ks. v k msg sig)"
  by (induction ks) auto

lemma anyKeyVerifies_error: "snd (anyKeyVerifies v ks msg sig) = None \<longleftrightarrow> fst (anyKeyVerifies v ks msg sig)"
  by (induction ks) auto

section \<open>The registry\<close>

datatype tool_error =
    ErrNilTool
  | ToolMarshalFailed string
  | VerificationFailed string "verify_error option"
  | ErrToolRegistered string
  | ErrToolNotFound string

record 'w ToolRegistry =
  tools :: "string \<rightharpoonup> 'w Tool"
  verifier :: "verify_fn option"

definition NewToolRegistry :: "verify_fn option \<Rightarrow> 'w ToolRegistry" where
  "NewToolRegistry v = \<lparr>tools = Map.empty, verifier = v\<rparr>"

text \<open>The check of a manifest before the table is touched; the registry passes no signature.\<close>

definition checkManifest ::
    "(ToolManifest \<Rightarrow> string + string) \<Rightarrow> verify_fn option \<Rightarrow> ToolManifest \<Rightarrow> tool_error option" where
  "checkManifest marshal v m =
     (case v of
        None \<Rightarrow> None
      | Some verify \<Rightarrow>
          (case marshal m of
             Inl e \<Rightarrow> Some (ToolMarshalFailed e)
           | Inr bytes \<Rightarrow>
               (let (ok, err) = verify bytes []
                in if \<not> ok \<or> err \<noteq> None then Some (VerificationFailed (tm_Name m) err) else None)))"

definition Register ::
    "(ToolManifest \<Rightarrow> string + string) \<Rightarrow> 'w Tool option \<Rightarrow> 'w ToolRegistry \<Rightarrow> tool_error + 'w ToolRegistry" where
  "Register marshal t r =
     (case t of
        None \<Rightarrow> Inl ErrNilTool
      | Some tool \<Rightarrow>
          (let m = Manifest tool in
           case checkManifest marshal (verifier r) m of
             Some e \<Rightarrow> Inl e
           | None \<Rightarrow>
               if tools r (tm_Name m) \<noteq> None then Inl (ErrToolRegistered (tm_Name m))
               else Inr (r\<lparr>tools := (tools r)(tm_Name m \<mapsto> tool)\<rparr>)))"

definition Get_tool :: "string \<Rightarrow> 'w ToolRegistry \<Rightarrow> tool_error + 'w Tool" where
  "Get_tool name r = (case tools r name of None \<Rightarrow> Inl (ErrToolNotFound name) | Some t \<Rightarrow> Inr t)"

definition tool_Manifests :: "'w ToolRegistry \<Rightarrow> string list \<Rightarrow> ToolManifest list" where
  "tool_Manifests r ord = map Manifest (range_values (tools r) ord)"

text \<open>
  The verifier of a registry never changes, so the registry is a \<open>register_once\<close> for the requests
  that carry the verifier they are checked with.
\<close>

definition Register_with ::
    "(ToolManifest \<Rightarrow> string + string) \<Rightarrow> verify_fn option \<Rightarrow> 'w Tool \<Rightarrow> (string \<rightharpoonup> 'w Tool)
     \<Rightarrow> tool_error + (string \<rightharpoonup> 'w Tool)" where
  "Register_with marshal v t m =
     (case Register marshal (Some t) \<lparr>tools = m, verifier = v\<rparr> of Inl e \<Rightarrow> Inl e | Inr r \<Rightarrow> Inr (tools r))"

interpretation kernel_tools: register_once "\<lambda>m. m" "\<lambda>t. tm_Name (Manifest t)" "\<lambda>t. t"
    "\<lambda>t. checkManifest marshal v (Manifest t) = None" "Register_with marshal v"
  for marshal v
  by unfold_locales (auto simp: Register_with_def Register_def Let_def split: option.splits)

fun register_tools ::
    "(ToolManifest \<Rightarrow> string + string) \<Rightarrow> 'w Tool list \<Rightarrow> 'w ToolRegistry \<Rightarrow> 'w ToolRegistry" where
  "register_tools marshal [] r = r"
| "register_tools marshal (t # ts) r =
     (case Register marshal (Some t) r of
        Inl e \<Rightarrow> register_tools marshal ts r
      | Inr r' \<Rightarrow> register_tools marshal ts r')"

lemma Register_frame [frame_simps]: "Register marshal t r = Inr r' \<Longrightarrow> verifier r' = verifier r"
  by (auto simp: Register_def Let_def split: option.splits if_splits)

lemma Register_with_eq:
  "Register_with marshal (verifier r) t (tools r) = (case Register marshal (Some t) r of Inl e \<Rightarrow> Inl e | Inr r \<Rightarrow> Inr (tools r))"
  by (cases r) (simp add: Register_with_def)

lemma register_tools_all:
  "tools (register_tools marshal ts r) = kernel_tools.register_all marshal (verifier r) ts (tools r)"
proof (induction ts arbitrary: r)
  case (Cons t ts)
  then show ?case
    by (cases "Register marshal (Some t) r") (simp_all add: Register_with_eq frame_simps)
qed simp

section \<open>Loading keys\<close>

lemma LoadPEM_appends:
  assumes "LoadPEM pem_decode parse_pkix pemData k = Inr k'"
  shows "\<exists>pub. k' = k @ [pub] \<and> length pub = PublicKeySize"
  using assms by (auto simp: LoadPEM_def split: option.splits sum.splits pub_key.splits prod.splits if_splits)

text \<open>Loading a key never revokes a signature.\<close>

lemma LoadPEM_keeps_valid:
  assumes "LoadPEM pem_decode parse_pkix pemData k = Inr k'"
    and "fst (ManifestValidator_Verify canonical v k m s)"
  shows "fst (ManifestValidator_Verify canonical v k' m s)"
proof -
  obtain pub where "k' = k @ [pub]" using LoadPEM_appends[OF assms(1)] by blast
  with assms(2) show ?thesis
    by (auto simp: ManifestValidator_Verify_def anyKeyVerifies_iff split: option.splits if_splits)
qed

section \<open>Theorems\<close>

text \<open>
  Over any sequence of registrations the registry holds, under each name, the first accepted
  tool that declares it; later tools of the name, and tools the verifier refuses, change nothing.
\<close>

lemma first_registration_wins:
  "tools (register_tools marshal ts r) name =
     (case tools r name of Some t \<Rightarrow> Some t
      | None \<Rightarrow> map_of (map (\<lambda>t. (tm_Name (Manifest t), t))
                  (filter (\<lambda>t. checkManifest marshal (verifier r) (Manifest t) = None) ts)) name)"
  unfolding register_tools_all by (rule kernel_tools.lookup_register_all)

text \<open>
  C35: the validator accepts a manifest exactly if the signature is the hexadecimal form of 64
  bytes which some trusted key verifies on the canonical form of the manifest, and it returns an
  error exactly if it does not accept. The order of the keys is immaterial.
\<close>

theorem manifest_accepted_iff:
  "(fst (ManifestValidator_Verify canonical v keys m signature) \<longleftrightarrow>
      (\<exists>sig msg k. hex_decode signature = Some sig \<and> length sig = SignatureSize \<and>
         canonical m = Some msg \<and> k \<in> set keys \<and> v k msg sig))
   \<and> (snd (ManifestValidator_Verify canonical v keys m signature) = None \<longleftrightarrow>
      fst (ManifestValidator_Verify canonical v keys m signature))"
  by (auto simp: ManifestValidator_Verify_def SignatureSize_def anyKeyVerifies_iff anyKeyVerifies_error
      split: option.splits)

text \<open>
  A registry with the manifest validator stays empty, whatever tools are registered and
  whatever keys are trusted: the registry hands the validator an empty signature, and the
  validator refuses it.
\<close>

lemma validated_registry_stays_empty:
  "tools (register_tools marshal ts (NewToolRegistry (Some (ManifestValidator_Verify canonical v keys)))) = Map.empty"
proof -
  have "checkManifest marshal (Some (ManifestValidator_Verify canonical v keys)) m \<noteq> None" for m
    by (auto simp: checkManifest_def ManifestValidator_Verify_def split: sum.splits)
  then show ?thesis
    unfolding register_tools_all NewToolRegistry_def
    by (auto simp: fun_eq_iff kernel_tools.lookup_register_all)
qed

end
