(* ===== verification/Prompt_Guard.thy ===== *)
theory Prompt_Guard
  imports Go_Strings Go_Prelude
begin

text \<open>
  The prompt firewall, \<open>core/security\<close>: the \<open>PromptGuard\<close> interface with its regular expression
  scanner, its semantic analyzer, the verdict parser of the LLM verifier, the mock and the
  orchestrator that runs a list of guards.

  A confidence is a constant of the source; it is kept in hundredths. The context and the
  configuration are not read by any guard, so a scan is a function of the text alone.
\<close>

section \<open>The interface\<close>

record AdversarialMatch =
  Category :: string
  Description :: string
  Snippet :: string
  Severity :: string

record GuardResult =
  IsSafe :: bool
  Confidence :: int
  Violations :: "AdversarialMatch list"

record GuardConfig =
  StrictnessLevel :: int
  BypassTokens :: "string list"
  MaxHeuristicScore :: int

type_synonym guard_scan = "string \<Rightarrow> GuardConfig \<Rightarrow> GuardResult"

definition safe_result :: GuardResult where
  "safe_result = \<lparr>IsSafe = True, Confidence = 0, Violations = []\<rparr>"

definition violation :: "int \<Rightarrow> AdversarialMatch \<Rightarrow> GuardResult" where
  "violation conf m = \<lparr>IsSafe = False, Confidence = conf, Violations = [m]\<rparr>"

text \<open>What the kernel relies on: a rejection names its reason and a confidence, an approval none.\<close>

locale prompt_guard =
  fixes scan :: guard_scan
  assumes reject_has_reason: "\<not> IsSafe (scan text cfg) \<Longrightarrow> Violations (scan text cfg) \<noteq> []"
    and reject_confident: "\<not> IsSafe (scan text cfg) \<Longrightarrow> 0 < Confidence (scan text cfg)"
    and approve_no_reason: "IsSafe (scan text cfg) \<Longrightarrow> Violations (scan text cfg) = []"
begin

lemma verdict_iff: "IsSafe (scan text cfg) \<longleftrightarrow> Violations (scan text cfg) = []"
  using reject_has_reason approve_no_reason by blast

end

section \<open>Regular expressions\<close>

text \<open>
  The fragment of RE2 the patterns use, with the flag \<open>(?i)\<close>: a letter also matches its upper
  case and, for \<open>s\<close>, the long s U+017F, which folds to it. \<open>\s\<close> is \<open>[\t\n\f\r ]\<close>.
\<close>

datatype regex =
    Letter char
  | Spaces
  | Eps
  | Cat regex regex
  | Or regex regex
  | Opt regex

definition fold_match :: "char \<Rightarrow> nat \<Rightarrow> bool" where
  "fold_match c r \<longleftrightarrow> r = byte c \<or> r = byte (upper_ascii c) \<or> (c = CHR ''s'' \<and> r = 383)"

definition re_space :: "nat \<Rightarrow> bool" where
  "re_space r \<longleftrightarrow> r = 9 \<or> r = 10 \<or> r = 12 \<or> r = 13 \<or> r = 32"

text \<open>
  Matching at the front of a text, by backtracking: the rests of all matches in the order RE2
  prefers them, so that the head is the match \<open>FindStringIndex\<close> reports.
\<close>

type_synonym text_chunks = "(nat \<times> string) list"

fun spaces_plus :: "text_chunks \<Rightarrow> text_chunks list" where
  "spaces_plus [] = []"
| "spaces_plus ((r, b) # cs) = (if re_space r then spaces_plus cs @ [cs] else [])"

fun re_match :: "regex \<Rightarrow> text_chunks \<Rightarrow> text_chunks list" where
  "re_match (Letter c) cs =
     (case cs of [] \<Rightarrow> [] | (r, b) # cs' \<Rightarrow> if fold_match c r then [cs'] else [])"
| "re_match Spaces cs = spaces_plus cs"
| "re_match Eps cs = [cs]"
| "re_match (Cat p q) cs = concat (map (re_match q) (re_match p cs))"
| "re_match (Or p q) cs = re_match p cs @ re_match q cs"
| "re_match (Opt p) cs = re_match p cs @ [cs]"

fun re_find :: "regex \<Rightarrow> text_chunks \<Rightarrow> text_chunks option" where
  "re_find p cs =
     (case re_match p cs of
        rest # _ \<Rightarrow> Some (take (length cs - length rest) cs)
      | [] \<Rightarrow> (case cs of [] \<Rightarrow> None | _ # cs' \<Rightarrow> re_find p cs'))"

declare re_find.simps [simp del]

definition FindString :: "regex \<Rightarrow> string \<Rightarrow> string option" where
  "FindString p text = map_option (\<lambda>m. concat (map snd m)) (re_find p (chunks text))"

text \<open>Words, alternatives and sequences, to write the patterns down.\<close>

fun re_word :: "string \<Rightarrow> regex" where
  "re_word [] = Eps"
| "re_word [c] = Letter c"
| "re_word (c # cs) = Cat (Letter c) (re_word cs)"

fun re_alt :: "regex list \<Rightarrow> regex" where
  "re_alt [] = Eps"
| "re_alt [p] = p"
| "re_alt (p # ps) = Or p (re_alt ps)"

fun re_seq :: "regex list \<Rightarrow> regex" where
  "re_seq [] = Eps"
| "re_seq [p] = p"
| "re_seq (p # ps) = Cat p (re_seq ps)"

definition system_prompt_leak :: regex where
  "system_prompt_leak = re_seq
     [re_alt (map re_word [''reveal'', ''show'', ''print'', ''output'']), Spaces,
      Opt (re_seq [re_word ''your'', Spaces]), Opt (re_seq [re_word ''system'', Spaces]),
      re_alt (map re_word [''prompt'', ''instructions''])]"

definition ignore_instructions :: regex where
  "ignore_instructions = re_seq
     [re_word ''ignore'', Spaces, Opt (re_seq [re_word ''all'', Spaces]),
      Opt (re_seq [re_word ''previous'', Spaces]),
      re_alt (map re_word [''instructions'', ''directions'', ''rules''])]"

definition roleplay_jailbreak :: regex where
  "roleplay_jailbreak = re_seq
     [re_alt [re_seq [re_word ''you'', Spaces, re_word ''are'', Spaces, re_word ''now''],
              re_seq [re_word ''act'', Spaces, re_word ''as'', Spaces, re_word ''a'']],
      Spaces,
      re_alt [re_word ''dan'',
              re_seq [re_word ''do'', Spaces, re_word ''anything'', Spaces, re_word ''now''],
              re_seq [re_word ''developer'', Spaces, re_word ''mode''],
              re_word ''unrestricted'']]"

definition compiledPatterns :: "string \<rightharpoonup> regex" where
  "compiledPatterns =
     [''SYSTEM_PROMPT_LEAK'' \<mapsto> system_prompt_leak, ''IGNORE_INSTRUCTIONS'' \<mapsto> ignore_instructions,
      ''ROLEPLAY_JAILBREAK'' \<mapsto> roleplay_jailbreak]"

text \<open>The scan ranges over the map of patterns in some order.\<close>

fun scanPatterns :: "string list \<Rightarrow> string \<Rightarrow> GuardResult" where
  "scanPatterns [] text = safe_result"
| "scanPatterns (category # cs) text =
     (case compiledPatterns category of
        None \<Rightarrow> scanPatterns cs text
      | Some pattern \<Rightarrow>
          (case FindString pattern text of
             Some snippet \<Rightarrow> violation 90 \<lparr>Category = category, Description = ''Matched regex'',
                 Snippet = snippet, Severity = ''HIGH''\<rparr>
           | None \<Rightarrow> scanPatterns cs text))"

definition RegexScanner_Scan :: "string list \<Rightarrow> guard_scan" where
  "RegexScanner_Scan ord text cfg = scanPatterns ord text"

subsection \<open>The language of a pattern\<close>

primrec re_lang :: "regex \<Rightarrow> nat list set" where
  "re_lang (Letter c) = {[r] |r. fold_match c r}"
| "re_lang Spaces = {ws. ws \<noteq> [] \<and> (\<forall>r \<in> set ws. re_space r)}"
| "re_lang Eps = {[]}"
| "re_lang (Cat p q) = {x @ y |x y. x \<in> re_lang p \<and> y \<in> re_lang q}"
| "re_lang (Or p q) = re_lang p \<union> re_lang q"
| "re_lang (Opt p) = insert [] (re_lang p)"

lemma set_spaces_plus:
  "rest \<in> set (spaces_plus cs) \<longleftrightarrow> (\<exists>m. cs = m @ rest \<and> map fst m \<in> re_lang Spaces)"
proof (induction cs)
  case (Cons c cs)
  obtain r b where c: "c = (r, b)" by force
  have "(\<exists>m. c # cs = m @ rest \<and> map fst m \<in> re_lang Spaces) \<longleftrightarrow>
      re_space r \<and> (rest = cs \<or> (\<exists>m. cs = m @ rest \<and> map fst m \<in> re_lang Spaces))"
  proof
    assume "\<exists>m. c # cs = m @ rest \<and> map fst m \<in> re_lang Spaces"
    then obtain m where m: "c # cs = m @ rest" "map fst m \<in> re_lang Spaces" by blast
    from m obtain m' where m': "m = c # m'" by (cases m) auto
    with m c show "re_space r \<and> (rest = cs \<or> (\<exists>m. cs = m @ rest \<and> map fst m \<in> re_lang Spaces))"
      by (cases "m' = []") auto
  next
    assume "re_space r \<and> (rest = cs \<or> (\<exists>m. cs = m @ rest \<and> map fst m \<in> re_lang Spaces))"
    then obtain m where "re_space r" "cs = m @ rest" "m = [] \<or> map fst m \<in> re_lang Spaces" by auto
    then show "\<exists>m. c # cs = m @ rest \<and> map fst m \<in> re_lang Spaces"
      using c by (intro exI[of _ "c # m"]) auto
  qed
  with Cons.IH c show ?case by auto
qed simp

lemma set_re_match:
  "rest \<in> set (re_match p cs) \<longleftrightarrow> (\<exists>m. cs = m @ rest \<and> map fst m \<in> re_lang p)"
proof (induction p arbitrary: cs rest)
  case (Letter c)
  show ?case
  proof
    assume "rest \<in> set (re_match (Letter c) cs)"
    then obtain r b where "cs = (r, b) # rest" "fold_match c r"
      by (auto split: list.splits if_splits)
    then show "\<exists>m. cs = m @ rest \<and> map fst m \<in> re_lang (Letter c)"
      by (intro exI[of _ "[(r, b)]"]) simp
  next
    assume "\<exists>m. cs = m @ rest \<and> map fst m \<in> re_lang (Letter c)"
    then obtain r b where "cs = (r, b) # rest" "fold_match c r" by auto
    then show "rest \<in> set (re_match (Letter c) cs)" by simp
  qed
next
  case Spaces
  show ?case using set_spaces_plus by simp
next
  case (Cat p q)
  show ?case
  proof
    assume "rest \<in> set (re_match (Cat p q) cs)"
    then obtain mid where "mid \<in> set (re_match p cs)" "rest \<in> set (re_match q mid)" by auto
    then obtain m1 m2 where "cs = m1 @ mid" "map fst m1 \<in> re_lang p" "mid = m2 @ rest" "map fst m2 \<in> re_lang q"
      using Cat.IH(1)[of mid cs] Cat.IH(2)[of rest mid] by blast
    then show "\<exists>m. cs = m @ rest \<and> map fst m \<in> re_lang (Cat p q)"
      by (intro exI[of _ "m1 @ m2"]) (simp, blast)
  next
    assume "\<exists>m. cs = m @ rest \<and> map fst m \<in> re_lang (Cat p q)"
    then obtain m x y where m: "cs = m @ rest" "map fst m = x @ y" "x \<in> re_lang p" "y \<in> re_lang q" by auto
    then obtain m1 m2 where "m = m1 @ m2" "map fst m1 = x" "map fst m2 = y" by (auto simp: map_eq_append_conv)
    with m have "m2 @ rest \<in> set (re_match p cs)" "rest \<in> set (re_match q (m2 @ rest))"
      unfolding Cat.IH by auto
    then show "rest \<in> set (re_match (Cat p q) cs)" by auto
  qed
qed auto

lemma re_find_Some:
  "re_find p cs = Some m \<Longrightarrow> \<exists>a b. cs = a @ m @ b \<and> map fst m \<in> re_lang p"
proof (induction cs)
  case Nil
  then obtain rest where "rest \<in> set (re_match p [])" "m = []"
    by (cases "re_match p []") (auto simp: re_find.simps[of _ "[]"])
  then show ?case using set_re_match[of rest p "[]"] by auto
next
  case (Cons c cs)
  show ?case
  proof (cases "re_match p (c # cs)")
    case Nil
    with Cons have "\<exists>a b. cs = a @ m @ b \<and> map fst m \<in> re_lang p"
      by (simp add: re_find.simps[of _ "c # cs"])
    then obtain a b where "cs = a @ m @ b" "map fst m \<in> re_lang p" by blast
    then show ?thesis by (intro exI[of _ "c # a"] exI[of _ b]) simp
  next
    case rest: (Cons rest rests)
    then obtain m' where m': "c # cs = m' @ rest" "map fst m' \<in> re_lang p"
      using set_re_match[of rest p "c # cs"] by auto
    have "m = take (length (c # cs) - length rest) (c # cs)"
      using Cons.prems rest by (simp add: re_find.simps[of p "c # cs"])
    then have "m = m'" unfolding m' by simp
    with m' show ?thesis by (intro exI[of _ "[]"] exI[of _ rest]) simp
  qed
qed

lemma re_find_None: "re_find p cs = None \<Longrightarrow> cs = a @ m @ b \<Longrightarrow> map fst m \<notin> re_lang p"
proof (induction cs arbitrary: a)
  case Nil
  then have "re_match p [] = []" by (simp add: re_find.simps[of _ "[]"] split: list.splits)
  with Nil.prems(2) set_re_match[of "[]" p "[]"] show ?case by auto
next
  case (Cons c cs)
  have none: "re_match p (c # cs) = []" "re_find p cs = None"
    using Cons.prems(1) by (simp_all add: re_find.simps[of _ "c # cs"] split: list.splits)
  show ?case
  proof (cases a)
    case Nil
    with Cons.prems none(1) set_re_match[of b p "c # cs"] show ?thesis by auto
  next
    case (Cons a1 a')
    with Cons.prems(2) Cons.IH[OF none(2)] show ?thesis by auto
  qed
qed

lemma FindString_iff:
  "FindString p text \<noteq> None \<longleftrightarrow> (\<exists>a m b. runes text = a @ m @ b \<and> m \<in> re_lang p)"
proof
  assume "FindString p text \<noteq> None"
  then obtain m where "re_find p (chunks text) = Some m" by (auto simp: FindString_def)
  from re_find_Some[OF this] obtain a b where "chunks text = a @ m @ b" "map fst m \<in> re_lang p" by blast
  then show "\<exists>a m b. runes text = a @ m @ b \<and> m \<in> re_lang p"
    by (intro exI[of _ "map fst a"] exI[of _ "map fst m"] exI[of _ "map fst b"]) (simp add: runes_def)
next
  assume "\<exists>a m b. runes text = a @ m @ b \<and> m \<in> re_lang p"
  then obtain a m b where m: "map fst (chunks text) = a @ m @ b" "m \<in> re_lang p" by (auto simp: runes_def)
  then obtain a' m' b' where "chunks text = a' @ m' @ b'" "map fst m' = m"
    by (metis map_eq_append_conv)
  with m(2) re_find_None[of p "chunks text" a' m' b'] show "FindString p text \<noteq> None"
    by (auto simp: FindString_def)
qed

lemma FindString_part:
  assumes "FindString p text = Some sn"
  shows "\<exists>a b. text = a @ sn @ b"
proof -
  obtain m where m: "re_find p (chunks text) = Some m" "sn = concat (map snd m)"
    using assms by (auto simp: FindString_def)
  then obtain a b where "chunks text = a @ m @ b" using re_find_Some by blast
  then have "text = concat (map snd a) @ sn @ concat (map snd b)"
    using concat_chunks[of "text"] m(2) by simp
  then show ?thesis by blast
qed

lemma scanPatterns_cases:
  "(scanPatterns ord text = safe_result \<and>
      (\<forall>c \<in> set ord. \<forall>p. compiledPatterns c = Some p \<longrightarrow> FindString p text = None)) \<or>
   (\<exists>c \<in> set ord. \<exists>p sn. compiledPatterns c = Some p \<and> FindString p text = Some sn \<and>
      scanPatterns ord text = violation 90 \<lparr>Category = c, Description = ''Matched regex'',
         Snippet = sn, Severity = ''HIGH''\<rparr>)"
  by (induction ord) (auto split: option.splits)

lemma scanPatterns_safe_iff:
  "IsSafe (scanPatterns ord text) \<longleftrightarrow>
     (\<forall>c \<in> set ord. \<forall>p. compiledPatterns c = Some p \<longrightarrow> FindString p text = None)"
  by (induction ord) (auto simp: safe_result_def violation_def split: option.splits)

section \<open>The semantic analyzer\<close>

definition is_sep :: "nat \<Rightarrow> bool" where
  "is_sep r \<longleftrightarrow> r = 32 \<or> r = 10 \<or> r = 9"

fun tokenLoop :: "nat list \<Rightarrow> nat \<Rightarrow> nat \<Rightarrow> nat" where
  "tokenLoop [] maxWordLen currentWordLen = max maxWordLen currentWordLen"
| "tokenLoop (r # rs) maxWordLen currentWordLen =
     (if is_sep r then tokenLoop rs (max maxWordLen currentWordLen) 0
      else tokenLoop rs maxWordLen (Suc currentWordLen))"

definition checkTokenDensity :: "string \<Rightarrow> AdversarialMatch option" where
  "checkTokenDensity text =
     (if tokenLoop (runes text) 0 0 > 50 then
        Some \<lparr>Category = ''TOKEN_DENSITY_ANOMALY'',
              Description = ''Unusually long unbroken token detected'', Snippet = [], Severity = ''MEDIUM''\<rparr>
      else None)"

definition special :: "nat \<Rightarrow> bool" where
  "special r \<longleftrightarrow> (r < 97 \<or> r > 122) \<and> (r < 65 \<or> r > 90) \<and> (r < 48 \<or> r > 57) \<and> r \<noteq> 32 \<and> r \<noteq> 10 \<and> r \<noteq> 9"

text \<open>
  The code divides two \<open>float64\<close>s and compares with \<open>0.4\<close>. Rounding is monotone and the quotients
  of integers below \<open>2 ^ 50\<close> that exceed 2/5 do so by more than the rounding error, so the test
  is \<open>5 * specialChars > 2 * len\<close>.
\<close>

definition checkSpecialCharRatio :: "string \<Rightarrow> AdversarialMatch option" where
  "checkSpecialCharRatio text =
     (let specialChars = length (filter special (runes text))
      in if length text > 20 \<and> 5 * specialChars > 2 * length text then
           Some \<lparr>Category = ''PADDING_ABUSE'',
              Description = ''High concentration of special characters'', Snippet = [], Severity = ''HIGH''\<rparr>
         else None)"

definition SemanticAnalyzer_Scan :: guard_scan where
  "SemanticAnalyzer_Scan text cfg =
     (if text = [] then safe_result
      else case checkTokenDensity text of
        Some v \<Rightarrow> violation 80 v
      | None \<Rightarrow> (case checkSpecialCharRatio text of Some v \<Rightarrow> violation 85 v | None \<Rightarrow> safe_result))"

text \<open>A run of \<open>k\<close> runes without a separator, at the front of a text or anywhere in it.\<close>

definition run_front :: "nat \<Rightarrow> nat list \<Rightarrow> bool" where
  "run_front k rs \<longleftrightarrow> (\<exists>m b. rs = m @ b \<and> (\<forall>r \<in> set m. \<not> is_sep r) \<and> length m = k)"

definition has_run :: "nat \<Rightarrow> nat list \<Rightarrow> bool" where
  "has_run k rs \<longleftrightarrow> (\<exists>a m b. rs = a @ m @ b \<and> (\<forall>r \<in> set m. \<not> is_sep r) \<and> length m = k)"

lemma run_front_0 [simp]: "run_front 0 rs"
  by (simp add: run_front_def)

lemma run_front_Nil [simp]: "run_front k [] \<longleftrightarrow> k = 0"
  by (auto simp: run_front_def)

lemma run_front_Suc: "run_front (Suc k) (r # rs) \<longleftrightarrow> \<not> is_sep r \<and> run_front k rs"
proof
  assume "run_front (Suc k) (r # rs)"
  then obtain m b where "r # rs = m @ b" "\<forall>r \<in> set m. \<not> is_sep r" "length m = Suc k"
    by (auto simp: run_front_def)
  then show "\<not> is_sep r \<and> run_front k rs" by (cases m) (auto simp: run_front_def)
next
  assume "\<not> is_sep r \<and> run_front k rs"
  then obtain m b where "\<not> is_sep r" "rs = m @ b" "\<forall>r \<in> set m. \<not> is_sep r" "length m = k"
    by (auto simp: run_front_def)
  then show "run_front (Suc k) (r # rs)"
    unfolding run_front_def by (intro exI[of _ "r # m"] exI[of _ b]) simp
qed

lemma run_front_mono: "run_front k rs \<Longrightarrow> j \<le> k \<Longrightarrow> run_front j rs"
proof (induction k arbitrary: j rs)
  case (Suc k)
  then show ?case by (cases rs; cases j) (auto simp: run_front_Suc)
qed simp

lemma has_run_Nil [simp]: "has_run k [] \<longleftrightarrow> k = 0"
  by (auto simp: has_run_def)

lemma has_run_Cons: "has_run k (r # rs) \<longleftrightarrow> run_front k (r # rs) \<or> has_run k rs"
proof
  assume "has_run k (r # rs)"
  then obtain a m b where m: "r # rs = a @ m @ b" "\<forall>r \<in> set m. \<not> is_sep r" "length m = k"
    by (auto simp: has_run_def)
  show "run_front k (r # rs) \<or> has_run k rs"
  proof (cases a)
    case Nil
    with m show ?thesis unfolding run_front_def by auto
  next
    case (Cons x a')
    with m have "rs = a' @ m @ b" by simp
    with m(2,3) show ?thesis unfolding has_run_def by blast
  qed
next
  assume "run_front k (r # rs) \<or> has_run k rs"
  then show "has_run k (r # rs)"
  proof
    assume "run_front k (r # rs)"
    then obtain m b where "r # rs = [] @ m @ b" "\<forall>r \<in> set m. \<not> is_sep r" "length m = k"
      by (auto simp: run_front_def)
    then show ?thesis unfolding has_run_def by blast
  next
    assume "has_run k rs"
    then obtain a m b where "r # rs = (r # a) @ m @ b" "\<forall>r \<in> set m. \<not> is_sep r" "length m = k"
      by (auto simp: has_run_def)
    then show ?thesis unfolding has_run_def by blast
  qed
qed

lemma run_front_step:
  "0 < k \<Longrightarrow> run_front (k - cur) (r # rs) \<longleftrightarrow> k \<le> cur \<or> (\<not> is_sep r \<and> run_front (k - Suc cur) rs)"
proof (cases "k \<le> cur")
  case False
  then have "k - cur = Suc (k - Suc cur)" by simp
  with False show ?thesis by (simp only: run_front_Suc) simp
qed simp

lemma has_run_front: "run_front k rs \<Longrightarrow> has_run k rs"
  unfolding run_front_def has_run_def by (metis append_Nil)

lemma tokenLoop_ge:
  assumes "0 < k"
  shows "k \<le> tokenLoop rs mx cur \<longleftrightarrow> k \<le> mx \<or> run_front (k - cur) rs \<or> has_run k rs"
proof (induction rs arbitrary: mx cur)
  case Nil
  then show ?case using assms by auto
next
  case (Cons r rs)
  note front = run_front_step[OF assms, of cur r rs] run_front_step[OF assms, of 0 r rs]
  show ?case
  proof (cases "is_sep r")
    case True
    then have "k \<le> tokenLoop (r # rs) mx cur \<longleftrightarrow> k \<le> mx \<or> k \<le> cur \<or> has_run k rs"
      using Cons.IH[of "max mx cur" 0] assms run_front_0 front(2)
      by (auto simp: le_max_iff_disj dest: has_run_front)
    with True front assms show ?thesis by (auto simp: has_run_Cons)
  next
    case False
    have "run_front (k - 1) rs \<Longrightarrow> run_front (k - Suc cur) rs" by (erule run_front_mono) simp
    with False Cons.IH[of mx "Suc cur"] front assms show ?thesis
      by (auto simp: has_run_Cons)
  qed
qed

section \<open>The other guards\<close>

record MockPromptGuard =
  ForceFail :: bool
  MockReason :: string

definition Mock_Scan :: "MockPromptGuard \<Rightarrow> guard_scan" where
  "Mock_Scan m text cfg =
     (if ForceFail m then
        violation 99 \<lparr>Category = ''MOCK_INJECTION'', Description = MockReason m, Snippet = [],
          Severity = ''CRITICAL''\<rparr>
      else \<lparr>IsSafe = True, Confidence = 100, Violations = []\<rparr>)"

text \<open>
  \<open>json.Unmarshal\<close> into the two fields of the LLM's verdict; \<open>None\<close> is a decoding error, and an
  absent field keeps its zero value.
\<close>

type_synonym verdict_json = "string \<Rightarrow> (bool \<times> string) option"

definition parseResponse :: "verdict_json \<Rightarrow> string \<Rightarrow> GuardResult" where
  "parseResponse unmarshal jsonStr =
     (case unmarshal jsonStr of
        None \<Rightarrow> safe_result
      | Some (is_safe, reason) \<Rightarrow>
          if \<not> is_safe then
            violation 95 \<lparr>Category = ''LLM_FIREWALL_REJECTION'', Description = reason, Snippet = [],
              Severity = ''HIGH''\<rparr>
          else safe_result)"

definition LLMVerifier_Scan :: guard_scan where
  "LLMVerifier_Scan text cfg = safe_result"

fun OrchestratorGuard_Scan :: "guard_scan list \<Rightarrow> guard_scan" where
  "OrchestratorGuard_Scan [] text cfg = safe_result"
| "OrchestratorGuard_Scan (scanner # scanners) text cfg =
     (let res = scanner text cfg
      in if \<not> IsSafe res then res else OrchestratorGuard_Scan scanners text cfg)"

lemmas guard_results = safe_result_def violation_def

interpretation regex_guard: prompt_guard "RegexScanner_Scan ord"
proof
  fix t cfg
  show "IsSafe (RegexScanner_Scan ord t cfg) \<Longrightarrow> Violations (RegexScanner_Scan ord t cfg) = []"
    using scanPatterns_cases[of ord t] by (auto simp: RegexScanner_Scan_def guard_results)
  assume "\<not> IsSafe (RegexScanner_Scan ord t cfg)"
  then show "Violations (RegexScanner_Scan ord t cfg) \<noteq> []" "0 < Confidence (RegexScanner_Scan ord t cfg)"
    using scanPatterns_cases[of ord t] by (auto simp: RegexScanner_Scan_def guard_results)
qed

interpretation semantic_guard: prompt_guard SemanticAnalyzer_Scan
  by unfold_locales (auto simp: SemanticAnalyzer_Scan_def guard_results split: option.splits if_splits)

interpretation llm_guard: prompt_guard LLMVerifier_Scan
  by unfold_locales (simp_all add: LLMVerifier_Scan_def guard_results)

interpretation llm_verdict_guard: prompt_guard "\<lambda>jsonStr cfg. parseResponse unmarshal jsonStr"
  by unfold_locales (auto simp: parseResponse_def guard_results split: option.splits prod.splits if_splits)

interpretation mock_guard: prompt_guard "Mock_Scan m"
  by unfold_locales (auto simp: Mock_Scan_def guard_results split: if_splits)

lemma orchestrator_first:
  "OrchestratorGuard_Scan ss text cfg =
     (case dropWhile (\<lambda>s. IsSafe (s text cfg)) ss of [] \<Rightarrow> safe_result | s # _ \<Rightarrow> s text cfg)"
  by (induction ss) (auto simp: Let_def)

text \<open>An orchestrator of guards that keep the contract keeps it as well.\<close>

lemma orchestrator_contract:
  assumes "\<forall>s \<in> set ss. prompt_guard s"
  shows "prompt_guard (OrchestratorGuard_Scan ss)"
  using assms
proof (induction ss)
  case Nil
  show ?case by unfold_locales (simp_all add: guard_results)
next
  case (Cons s ss)
  then have "prompt_guard s" and "prompt_guard (OrchestratorGuard_Scan ss)" by simp_all
  then show ?case by (auto simp: prompt_guard_def Let_def)
qed

text \<open>The guard of the kernel: the regular expressions, then the analyzer (\<open>core/event_loop.go\<close>).\<close>

definition kernel_guard :: "string list \<Rightarrow> guard_scan" where
  "kernel_guard ord =
     OrchestratorGuard_Scan [RegexScanner_Scan ord, SemanticAnalyzer_Scan]"

interpretation kernel_guard: prompt_guard "kernel_guard ord"
  unfolding kernel_guard_def
  by (rule orchestrator_contract)
     (simp add: regex_guard.prompt_guard_axioms semantic_guard.prompt_guard_axioms)

section \<open>Case variations\<close>

primrec lower_letters :: "regex \<Rightarrow> bool" where
  "lower_letters (Letter c) \<longleftrightarrow> 97 \<le> byte c \<and> byte c \<le> 122"
| "lower_letters Spaces \<longleftrightarrow> True"
| "lower_letters Eps \<longleftrightarrow> True"
| "lower_letters (Cat p q) \<longleftrightarrow> lower_letters p \<and> lower_letters q"
| "lower_letters (Or p q) \<longleftrightarrow> lower_letters p \<and> lower_letters q"
| "lower_letters (Opt p) \<longleftrightarrow> lower_letters p"

definition same_letter :: "nat \<Rightarrow> nat \<Rightarrow> bool" where
  "same_letter r q \<longleftrightarrow> r = q \<or> (65 \<le> r \<and> r \<le> 90 \<and> q = r + 32) \<or> (65 \<le> q \<and> q \<le> 90 \<and> r = q + 32)"

lemma byte_upper: "97 \<le> byte c \<Longrightarrow> byte c \<le> 122 \<Longrightarrow> byte (upper_ascii c) = byte c - 32"
  by (simp add: upper_ascii_def byte_def)

lemma fold_match_same:
  assumes "97 \<le> byte c" "byte c \<le> 122" and "same_letter r q"
  shows "fold_match c r \<longleftrightarrow> fold_match c q"
  using assms byte_upper[OF assms(1,2)] by (auto simp: fold_match_def same_letter_def)

lemma re_space_same: "same_letter r q \<Longrightarrow> re_space r \<longleftrightarrow> re_space q"
  by (auto simp: re_space_def same_letter_def)

lemma re_lang_same:
  "lower_letters p \<Longrightarrow> list_all2 same_letter m m' \<Longrightarrow> m \<in> re_lang p \<Longrightarrow> m' \<in> re_lang p"
proof (induction p arbitrary: m m')
  case (Letter c)
  then obtain r where "m = [r]" "fold_match c r" by auto
  with Letter.prems show ?case by (auto simp: list_all2_Cons1 fold_match_same)
next
  case Spaces
  from Spaces.prems have "\<forall>r \<in> set m'. re_space r"
    by (auto simp: list_all2_conv_all_nth in_set_conv_nth) (metis re_space_same nth_mem)
  with Spaces.prems show ?case by auto
next
  case (Cat p q)
  then obtain x y where m: "m = x @ y" "x \<in> re_lang p" "y \<in> re_lang q" by auto
  with Cat.prems(2) obtain x' y' where "m' = x' @ y'" "list_all2 same_letter x x'" "list_all2 same_letter y y'"
    by (auto simp: list_all2_append1)
  moreover from this m Cat have "x' \<in> re_lang p" "y' \<in> re_lang q" by auto
  ultimately show ?case by auto
qed auto

lemma lower_patterns: "compiledPatterns c = Some p \<Longrightarrow> lower_letters p"
  by (auto simp: compiledPatterns_def system_prompt_leak_def ignore_instructions_def
      roleplay_jailbreak_def byte_def split: if_splits)

lemma FindString_same:
  assumes "list_all2 same_letter (runes t) (runes u)" and "lower_letters p" and "FindString p t \<noteq> None"
  shows "FindString p u \<noteq> None"
proof -
  obtain a m b where m: "runes t = a @ m @ b" "m \<in> re_lang p" using assms(3) FindString_iff[of p t] by blast
  with assms(1) obtain a' m' b' where "runes u = a' @ m' @ b'" "list_all2 same_letter m m'"
    by (auto simp: list_all2_append1)
  with m(2) assms(2) show ?thesis using FindString_iff[of p u] re_lang_same by blast
qed

lemma same_letter_sym: "same_letter r q \<Longrightarrow> same_letter q r"
  by (auto simp: same_letter_def)

section \<open>Unbroken texts\<close>

text \<open>Every match of a pattern contains white space.\<close>

primrec needs_space :: "regex \<Rightarrow> bool" where
  "needs_space (Letter c) \<longleftrightarrow> False"
| "needs_space Spaces \<longleftrightarrow> True"
| "needs_space Eps \<longleftrightarrow> False"
| "needs_space (Cat p q) \<longleftrightarrow> needs_space p \<or> needs_space q"
| "needs_space (Or p q) \<longleftrightarrow> needs_space p \<and> needs_space q"
| "needs_space (Opt p) \<longleftrightarrow> False"

lemma needs_space_lang: "needs_space p \<Longrightarrow> m \<in> re_lang p \<Longrightarrow> \<exists>r \<in> set m. re_space r"
proof (induction p arbitrary: m)
  case Spaces
  then show ?case by (cases m) auto
qed (auto; blast)+

lemma patterns_need_space: "compiledPatterns c = Some p \<Longrightarrow> needs_space p"
  by (auto simp: compiledPatterns_def system_prompt_leak_def ignore_instructions_def
      roleplay_jailbreak_def split: if_splits)

definition solid :: "string \<Rightarrow> bool" where
  "solid t \<longleftrightarrow> (\<forall>c \<in> set t. 32 < byte c \<and> byte c < 128)"

lemma solid_simps [simp]:
  "solid []" "solid (c # s) \<longleftrightarrow> 32 < byte c \<and> byte c < 128 \<and> solid s" "solid (s @ t) \<longleftrightarrow> solid s \<and> solid t"
  by (auto simp: solid_def)

lemma solid_runes: "solid t \<Longrightarrow> runes t = map byte t \<and> (\<forall>r \<in> set (runes t). \<not> re_space r \<and> \<not> is_sep r)"
  by (auto simp: solid_def runes_ascii ascii_def re_space_def is_sep_def)

lemma solid_regex_safe: "solid t \<Longrightarrow> scanPatterns ord t = safe_result"
proof -
  assume t: "solid t"
  have "FindString p t = None" if "compiledPatterns c = Some p" for c p
  proof (rule ccontr)
    assume "FindString p t \<noteq> None"
    then obtain a m b where "runes t = a @ m @ b" "m \<in> re_lang p" using FindString_iff[of p t] by blast
    with needs_space_lang[OF patterns_need_space[OF that]] solid_runes[OF t] show False by auto
  qed
  then show ?thesis using scanPatterns_cases[of ord t] by auto
qed

lemma tokenLoop_long:
  assumes "solid t" and "50 < length t"
  shows "50 < tokenLoop (runes t) 0 0"
proof -
  have "runes t = [] @ take 51 (runes t) @ drop 51 (runes t)" by simp
  moreover have "\<forall>r \<in> set (take 51 (runes t)). \<not> is_sep r"
    using solid_runes[OF assms(1)] in_set_takeD[of _ 51 "runes t"] by blast
  moreover have "length (take 51 (runes t)) = 51"
    using solid_runes[OF assms(1)] assms(2) by simp
  ultimately have "has_run 51 (runes t)" unfolding has_run_def by blast
  then show ?thesis using tokenLoop_ge[of 51 "runes t" 0 0] by simp
qed

lemma solid_verdict:
  assumes "solid t" and "50 < length t"
  shows "kernel_guard ord t cfg = violation 80 \<lparr>Category = ''TOKEN_DENSITY_ANOMALY'',
     Description = ''Unusually long unbroken token detected'', Snippet = [], Severity = ''MEDIUM''\<rparr>"
proof -
  have "t \<noteq> []" using assms(2) by auto
  with assms tokenLoop_long[OF assms] solid_regex_safe[OF assms(1), of ord] show ?thesis
    by (simp add: kernel_guard_def RegexScanner_Scan_def SemanticAnalyzer_Scan_def checkTokenDensity_def
        guard_results Let_def)
qed

section \<open>Theorems\<close>

lemma matched_iff:
  assumes "range_order compiledPatterns ord"
  shows "IsSafe (RegexScanner_Scan ord t cfg) \<longleftrightarrow>
     (\<forall>p \<in> ran compiledPatterns. \<not> (\<exists>a m b. runes t = a @ m @ b \<and> m \<in> re_lang p))"
proof -
  have "FindString p t = None \<longleftrightarrow> \<not> (\<exists>a m b. runes t = a @ m @ b \<and> m \<in> re_lang p)" for p
    using FindString_iff[of p t] by blast
  then show ?thesis
    unfolding RegexScanner_Scan_def scanPatterns_safe_iff ball_range_order[OF assms] by simp
qed

text \<open>
  C12: the verdict of the kernel's guard, for every input: a text is refused exactly if it
  contains a match of one of the three patterns (a contiguous run of runes in the pattern's
  language), or a run of 51 runes without a space, newline or tab, or more than 20 bytes of which
  the special runes number over two fifths. The order in which the patterns are tried is
  immaterial.
\<close>

theorem kernel_guard_verdict:
  assumes "range_order compiledPatterns ord"
  shows "IsSafe (kernel_guard ord t cfg) \<longleftrightarrow>
     (\<forall>p \<in> ran compiledPatterns. \<not> (\<exists>a m b. runes t = a @ m @ b \<and> m \<in> re_lang p))
     \<and> \<not> has_run 51 (runes t)
     \<and> \<not> (20 < length t \<and> 2 * length t < 5 * length (filter special (runes t)))"
proof -
  have "tokenLoop (runes t) 0 0 > 50 \<longleftrightarrow> has_run 51 (runes t)"
    using tokenLoop_ge[of 51 "runes t" 0 0] has_run_front[of 51 "runes t"] by auto
  then have "IsSafe (SemanticAnalyzer_Scan t cfg) \<longleftrightarrow> \<not> has_run 51 (runes t)
     \<and> \<not> (20 < length t \<and> 2 * length t < 5 * length (filter special (runes t)))"
    by (cases "t = []") (simp_all add: SemanticAnalyzer_Scan_def checkTokenDensity_def
        checkSpecialCharRatio_def guard_results Let_def runes_def)
  moreover have "IsSafe (kernel_guard ord t cfg) \<longleftrightarrow>
      IsSafe (RegexScanner_Scan ord t cfg) \<and> IsSafe (SemanticAnalyzer_Scan t cfg)"
    by (simp add: kernel_guard_def Let_def guard_results)
  ultimately show ?thesis using matched_iff[OF assms] by simp
qed

text \<open>
  No change of letter case in a text evades the pattern scan, whatever the order in which
  the patterns are tried.
\<close>

lemma case_does_not_evade:
  assumes "range_order compiledPatterns ord" and "range_order compiledPatterns ord'"
    and "ascii t" and "ascii u" and "map lower_ascii t = map lower_ascii u"
  shows "IsSafe (RegexScanner_Scan ord t cfg) = IsSafe (RegexScanner_Scan ord' u cfg)"
proof -
  have same_l: "same_letter (byte c) (byte d)" if "lower_ascii c = lower_ascii d" for c d
  proof -
    have "byte (lower_ascii c) = byte (lower_ascii d)" using that by simp
    then show ?thesis by (auto simp: lower_ascii_def same_letter_def byte_def split: if_splits)
  qed
  have "list_all2 (=) (map lower_ascii t) (map lower_ascii u)"
    unfolding assms(5) list.rel_eq by (rule refl)
  then have "list_all2 (\<lambda>c d. lower_ascii c = lower_ascii d) t u"
    by (simp only: list_all2_map1 list_all2_map2)
  then have "list_all2 (\<lambda>c d. same_letter (byte c) (byte d)) t u"
    by (rule list_all2_mono) (rule same_l)
  then have same: "list_all2 same_letter (runes t) (runes u)"
    using assms(3,4) by (simp add: runes_ascii list_all2_map1 list_all2_map2)
  then have same': "list_all2 same_letter (runes u) (runes t)"
    by (auto simp: list_all2_conv_all_nth same_letter_sym)
  have "FindString p t = None \<longleftrightarrow> FindString p u = None" if "compiledPatterns c = Some p" for c p
    using FindString_same[OF same lower_patterns[OF that]] FindString_same[OF same' lower_patterns[OF that]]
    by blast
  moreover have "set ord = set ord'" using assms(1,2) by (simp add: range_order_def)
  ultimately show ?thesis by (simp add: RegexScanner_Scan_def scanPatterns_safe_iff)
qed

definition pattern_order :: "string list" where
  "pattern_order = [''SYSTEM_PROMPT_LEAK'', ''IGNORE_INSTRUCTIONS'', ''ROLEPLAY_JAILBREAK'']"

lemma pattern_order: "range_order compiledPatterns pattern_order"
    "range_order compiledPatterns (rev pattern_order)"
  by (auto simp: range_order_def pattern_order_def compiledPatterns_def)

lemma kernel_guard_verdict_witness:
  "\<not> IsSafe (kernel_guard pattern_order (replicate 51 (CHR ''a''))
     \<lparr>StrictnessLevel = 0, BypassTokens = [], MaxHeuristicScore = 0\<rparr>)"
proof -
  have "runes (replicate 51 (CHR ''a'')) = [] @ replicate 51 97 @ []"
    by (simp add: runes_ascii ascii_def byte_def)
  then have "has_run 51 (runes (replicate 51 (CHR ''a'')))"
    unfolding has_run_def by (intro exI conjI, assumption) (simp_all add: is_sep_def)
  then show ?thesis using kernel_guard_verdict[OF pattern_order(1)] by blast
qed

lemma found_ignore: "FindString ignore_instructions ''ignore rules'' \<noteq> None"
  by code_simp

lemma case_does_not_evade_witness:
  "\<not> IsSafe (RegexScanner_Scan (rev pattern_order) ''IGNORE Rules''
     \<lparr>StrictnessLevel = 0, BypassTokens = [], MaxHeuristicScore = 0\<rparr>)"
proof -
  have "\<not> IsSafe (RegexScanner_Scan pattern_order ''ignore rules''
     \<lparr>StrictnessLevel = 0, BypassTokens = [], MaxHeuristicScore = 0\<rparr>)"
    unfolding RegexScanner_Scan_def scanPatterns_safe_iff
    using found_ignore by (auto simp: pattern_order_def compiledPatterns_def)
  with case_does_not_evade[OF pattern_order, of "''ignore rules''" "''IGNORE Rules''"
      "\<lparr>StrictnessLevel = 0, BypassTokens = [], MaxHeuristicScore = 0\<rparr>"]
  show ?thesis by (simp add: byte_def lower_ascii_def char_of_def bit_0)
qed

text \<open>
  The ratio test counts runes against bytes: a text whose runes all take three bytes or more is
  never taken for padding, however many of them are special.
\<close>

lemma wide_runes_never_padding:
  assumes "\<forall>x \<in> set (chunks t). 3 \<le> length (snd x)"
  shows "checkSpecialCharRatio t = None"
proof -
  have "\<forall>x \<in> set cs. 3 \<le> length (snd x) \<Longrightarrow> 3 * length cs \<le> length (concat (map snd cs))"
    for cs :: text_chunks by (induction cs) auto
  from this[OF assms] have "3 * length (runes t) \<le> length t"
    by (simp add: concat_chunks runes_def)
  moreover have "length (filter special (runes t)) \<le> length (runes t)" by simp
  ultimately have "\<not> 2 * length t < 5 * length (filter special (runes t))" by linarith
  then show ?thesis by (simp add: checkSpecialCharRatio_def)
qed

end
