(* ===== verification/Audit_Chain.thy ===== *)
theory Audit_Chain
  imports Go_Json Go_Time "HOL-Library.List_Lexorder" "HOL-Library.Char_ord"
begin

text \<open>
  The audit trail, \<open>core/audit\<close>: events and blocks, the hash chain with its verification
  (\<open>chain.go\<close>), and the \<open>Logger\<close> interface. SHA-256 is the parameter \<open>sha256\<close>, a function on byte
  strings.

  A time is an instant with the offset of its location. The values of the metadata are JSON, or
  \<open>None\<close> for a value that \<open>encoding/json\<close> cannot encode.
\<close>

section \<open>Events and blocks\<close>

type_synonym timestamp = "instant \<times> int"

record Event =
  ev_ID :: string
  ev_Timestamp :: timestamp
  ev_Type :: string
  ev_Actor :: string
  ev_Metadata :: "(string \<times> json option) list option"

record Block =
  Index :: "64 word"
  Timestamp :: timestamp
  block_Event :: Event
  PreviousHash :: string
  Hash :: string

text \<open>\<open>time.RFC3339Nano\<close>: the fraction of the second without its trailing zeros.\<close>

definition nano_fraction :: "instant \<Rightarrow> string" where
  "nano_fraction t =
     (let ns = t mod Second; ds = rev (dropWhile (\<lambda>c. c = CHR ''0'') (rev (pad_int 9 ns)))
      in if ns = 0 then [] else CHR ''.'' # ds)"

definition format_RFC3339Nano :: "timestamp \<Rightarrow> string" where
  "format_RFC3339Nano ts =
     (let (t, off) = ts; z = (\<lambda>_. off) in
      pad_int 4 (time_Year z t) @ ''-'' @ pad_int 2 (time_Month z t) @ ''-'' @ pad_int 2 (time_Day z t)
      @ ''T'' @ pad_int 2 (time_Hour z t) @ '':'' @ pad_int 2 (time_Minute z t)
      @ '':'' @ pad_int 2 (time_Second z t) @ nano_fraction t @ zone_suffix off)"

definition to_UTC :: "timestamp \<Rightarrow> timestamp" where
  "to_UTC ts = (fst ts, 0)"

text \<open>\<open>json.Marshal\<close> of a time fails outside the years 0 to 9999.\<close>

definition time_json :: "timestamp \<Rightarrow> json option" where
  "time_json ts =
     (let y = time_Year (\<lambda>_. snd ts) (fst ts)
      in if 0 \<le> y \<and> y \<le> 9999 then Some (JStr (format_RFC3339Nano ts)) else None)"

fun encode_members :: "(string \<times> json option) list \<Rightarrow> (string \<times> json) list option" where
  "encode_members [] = Some []"
| "encode_members ((k, v) # ms) =
     (case (v, encode_members ms) of (Some x, Some r) \<Rightarrow> Some ((k, x) # r) | _ \<Rightarrow> None)"

text \<open>A map is written with its keys in order, a nil map as \<open>null\<close>.\<close>

definition metadata_json :: "(string \<times> json option) list option \<Rightarrow> json option" where
  "metadata_json md =
     (case md of
        None \<Rightarrow> Some JNull
      | Some ms \<Rightarrow> map_option (\<lambda>r. JObj (sort_key fst r)) (encode_members ms))"

definition event_json :: "Event \<Rightarrow> string option" where
  "event_json e =
     (case (time_json (ev_Timestamp e), metadata_json (ev_Metadata e)) of
        (Some ts, Some md) \<Rightarrow> Some (json_write (JObj
           [(''id'', JStr (ev_ID e)), (''timestamp'', ts), (''type'', JStr (ev_Type e)),
            (''actor'', JStr (ev_Actor e)), (''metadata'', md)]))
      | _ \<Rightarrow> None)"

section \<open>The chain\<close>

definition hash_record :: "Block \<Rightarrow> string \<Rightarrow> string" where
  "hash_record b eventBytes =
     show_nat (unat (Index b)) @ '':'' @ format_RFC3339Nano (to_UTC (Timestamp b)) @ '':'' @ PreviousHash b
       @ '':'' @ eventBytes"

definition calculateHash :: "(string \<Rightarrow> string) \<Rightarrow> Block \<Rightarrow> string" where
  "calculateHash sha256 b =
     (case event_json (block_Event b) of
        None \<Rightarrow> ''invalid-json-hash''
      | Some eventBytes \<Rightarrow> hex_encode (sha256 (hash_record b eventBytes)))"

definition zero_hash :: string where "zero_hash = replicate 64 (CHR ''0'')"

definition genesis_event :: Event where
  "genesis_event = \<lparr>ev_ID = [], ev_Timestamp = (zero_time, 0), ev_Type = ''SYSTEM_INIT'', ev_Actor = ''kernel'',
     ev_Metadata = None\<rparr>"

definition NewChainManager :: "(string \<Rightarrow> string) \<Rightarrow> timestamp \<Rightarrow> Block list" where
  "NewChainManager sha256 now =
     (let genesis = \<lparr>Index = 0, Timestamp = now, block_Event = genesis_event, PreviousHash = zero_hash, Hash = []\<rparr>
      in [genesis\<lparr>Hash := calculateHash sha256 genesis\<rparr>])"

definition Append :: "(string \<Rightarrow> string) \<Rightarrow> timestamp \<Rightarrow> Event \<Rightarrow> Block list \<Rightarrow> Block list" where
  "Append sha256 now event blocks =
     (let prevBlock = last blocks;
          newBlock = \<lparr>Index = Index prevBlock + 1, Timestamp = now, block_Event = event,
            PreviousHash = Hash prevBlock, Hash = []\<rparr>
      in blocks @ [newBlock\<lparr>Hash := calculateHash sha256 newBlock\<rparr>])"

datatype chain_error = BrokenLink | PayloadTampering

fun verifyFrom :: "(string \<Rightarrow> string) \<Rightarrow> Block \<Rightarrow> Block list \<Rightarrow> bool \<times> chain_error option" where
  "verifyFrom sha256 prev [] = (True, None)"
| "verifyFrom sha256 prev (cur # bs) =
     (if PreviousHash cur \<noteq> Hash prev then (False, Some BrokenLink)
      else if calculateHash sha256 cur \<noteq> Hash cur then (False, Some PayloadTampering)
      else verifyFrom sha256 cur bs)"

definition VerifyChain :: "(string \<Rightarrow> string) \<Rightarrow> Block list \<Rightarrow> bool \<times> chain_error option" where
  "VerifyChain sha256 blocks = (case blocks of [] \<Rightarrow> (True, None) | g # bs \<Rightarrow> verifyFrom sha256 g bs)"

text \<open>Events logged one after the other, each with the time of the clock.\<close>

fun LogEvents :: "(string \<Rightarrow> string) \<Rightarrow> (timestamp \<times> Event) list \<Rightarrow> Block list \<Rightarrow> Block list" where
  "LogEvents sha256 [] blocks = blocks"
| "LogEvents sha256 ((now, e) # es) blocks = LogEvents sha256 es (Append sha256 now e blocks)"

lemma hash_record_Hash [simp]: "hash_record (b\<lparr>Hash := h\<rparr>) e = hash_record b e"
  by (simp add: hash_record_def)

lemma calculateHash_Hash [simp]: "calculateHash sha256 (b\<lparr>Hash := h\<rparr>) = calculateHash sha256 b"
  by (simp add: calculateHash_def split: option.split)

lemma calculateHash_fields:
  "calculateHash sha256 \<lparr>Index = i, Timestamp = t, block_Event = e, PreviousHash = p, Hash = calculateHash sha256 b\<rparr>
     = calculateHash sha256 \<lparr>Index = i, Timestamp = t, block_Event = e, PreviousHash = p, Hash = []\<rparr>"
  by (simp add: calculateHash_def[where b = "\<lparr>Index = i, Timestamp = t, block_Event = e, PreviousHash = p, Hash = _\<rparr>"]
      hash_record_def split: option.split)

lemma verifyFrom_append:
  "verifyFrom sha256 g (bs @ cs) =
     (if verifyFrom sha256 g bs = (True, None) then verifyFrom sha256 (last (g # bs)) cs else verifyFrom sha256 g bs)"
  by (induction bs arbitrary: g) auto

lemma Append_verifies:
  assumes "blocks \<noteq> []" and "VerifyChain sha256 blocks = (True, None)"
  shows "VerifyChain sha256 (Append sha256 now e blocks) = (True, None)"
proof -
  obtain g bs where b: "blocks = g # bs" using assms(1) by (cases blocks) auto
  let ?new = "\<lparr>Index = Index (last blocks) + 1, Timestamp = now, block_Event = e,
     PreviousHash = Hash (last blocks), Hash = []\<rparr>"
  have "Append sha256 now e blocks = g # bs @ [?new\<lparr>Hash := calculateHash sha256 ?new\<rparr>]"
    by (simp add: Append_def b Let_def)
  moreover have "calculateHash sha256 (?new\<lparr>Hash := calculateHash sha256 ?new\<rparr>) = calculateHash sha256 ?new"
    by (rule calculateHash_Hash)
  ultimately show ?thesis using assms(2) b
    by (simp add: VerifyChain_def verifyFrom_append)
qed

lemma Append_not_Nil [simp]: "Append sha256 now e blocks \<noteq> []"
  by (simp add: Append_def Let_def)

lemma LogEvents_verifies:
  "blocks \<noteq> [] \<Longrightarrow> VerifyChain sha256 blocks = (True, None) \<Longrightarrow>
   VerifyChain sha256 (LogEvents sha256 es blocks) = (True, None)"
  by (induction es arbitrary: blocks) (auto simp: Append_verifies)

text \<open>The chain holds the events in the order in which they were logged.\<close>

lemma Append_events: "map block_Event (Append sha256 now e blocks) = map block_Event blocks @ [e]"
  by (simp add: Append_def Let_def)

lemma LogEvents_events: "map block_Event (LogEvents sha256 es blocks) = map block_Event blocks @ map snd es"
  by (induction sha256 es blocks rule: LogEvents.induct) (simp_all add: Append_events)

lemma verifyFrom_nth:
  "verifyFrom sha256 g bs = (True, None) \<longleftrightarrow>
     (\<forall>i < length bs. PreviousHash (bs ! i) = Hash ((g # bs) ! i) \<and> calculateHash sha256 (bs ! i) = Hash (bs ! i))"
proof (induction bs arbitrary: g)
  case (Cons b bs)
  show ?case
    by (auto simp: Cons.IH All_less_Suc2)
qed simp

section \<open>The record that is hashed can be read back\<close>

lemma split_at_first:
  "c \<notin> set a \<Longrightarrow> c \<notin> set a' \<Longrightarrow> a @ c # b = a' @ c # b' \<Longrightarrow> a = a' \<and> b = b'"
proof (induction a arbitrary: a')
  case Nil
  then show ?case by (cases a') auto
next
  case (Cons x a)
  then show ?case by (cases a') auto
qed

lemma show_nat_bytes: "c \<in> set (show_nat n) \<Longrightarrow> byte c < 58"
proof -
  have "\<forall>c \<in> set ''0123456789''. byte c < 58" by (simp add: byte_def)
  then show "c \<in> set (show_nat n) \<Longrightarrow> byte c < 58" using set_show_nat[of n] by blast
qed

lemma pad_int_chars: "c \<in> set (pad_int w i) \<Longrightarrow> byte c < 58"
  using show_nat_bytes by (auto simp: pad_int_def Let_def byte_def split: if_splits)

lemma nano_fraction_chars: "c \<in> set (nano_fraction t) \<Longrightarrow> byte c < 58"
proof -
  assume "c \<in> set (nano_fraction t)"
  then have "c = CHR ''.'' \<or> c \<in> set (pad_int 9 (t mod Second))"
    by (auto simp: nano_fraction_def Let_def split: if_splits dest!: set_dropWhileD)
  then show ?thesis using pad_int_chars by (auto simp: byte_def)
qed

text \<open>A time in UTC ends with its only \<open>Z\<close>.\<close>

lemma utc_format:
  "\<exists>s. format_RFC3339Nano (to_UTC ts) = s @ ''Z'' \<and> CHR ''Z'' \<notin> set s"
proof -
  let ?z = "(\<lambda>_. 0) :: zone" and ?t = "fst ts"
  let ?s = "pad_int 4 (time_Year ?z ?t) @ ''-'' @ pad_int 2 (time_Month ?z ?t) @ ''-'' @ pad_int 2 (time_Day ?z ?t)
      @ ''T'' @ pad_int 2 (time_Hour ?z ?t) @ '':'' @ pad_int 2 (time_Minute ?z ?t)
      @ '':'' @ pad_int 2 (time_Second ?z ?t) @ nano_fraction ?t"
  have "CHR ''Z'' \<notin> set (pad_int w i)" "CHR ''Z'' \<notin> set (nano_fraction t)" for w i t
    using pad_int_chars[of "CHR ''Z''"] nano_fraction_chars[of "CHR ''Z''"] by (auto simp: byte_def)
  then have "CHR ''Z'' \<notin> set ?s" by simp
  moreover have "format_RFC3339Nano (to_UTC ts) = ?s @ ''Z''"
    by (simp add: format_RFC3339Nano_def to_UTC_def zone_suffix_def Let_def)
  ultimately show ?thesis by blast
qed

lemma show_nat_inject: "show_nat m = show_nat n \<longleftrightarrow> m = n"
  by (metis read_digits_show_nat option.inject)

lemma hash_record_inject:
  assumes "hash_record b e = hash_record b' e'" and "length (PreviousHash b) = length (PreviousHash b')"
  shows "Index b = Index b'" and "format_RFC3339Nano (to_UTC (Timestamp b)) = format_RFC3339Nano (to_UTC (Timestamp b'))"
    and "PreviousHash b = PreviousHash b'" and "e = e'"
proof -
  have colon: "CHR '':'' \<notin> set (show_nat n)" for n
    using show_nat_bytes[of "CHR '':''" n] by (auto simp: byte_def)
  obtain s s' where s: "format_RFC3339Nano (to_UTC (Timestamp b)) = s @ ''Z''" "CHR ''Z'' \<notin> set s"
    "format_RFC3339Nano (to_UTC (Timestamp b')) = s' @ ''Z''" "CHR ''Z'' \<notin> set s'"
    using utc_format by metis
  have one: "show_nat (unat (Index b)) = show_nat (unat (Index b')) \<and>
      s @ CHR ''Z'' # '':'' @ PreviousHash b @ '':'' @ e = s' @ CHR ''Z'' # '':'' @ PreviousHash b' @ '':'' @ e'"
    using assms(1) colon s unfolding hash_record_def
    by (intro split_at_first[where c = "CHR '':''"]) simp_all
  then have "s = s' \<and> '':'' @ PreviousHash b @ '':'' @ e = '':'' @ PreviousHash b' @ '':'' @ e'"
    using s by (intro split_at_first[where c = "CHR ''Z''"]) simp_all
  with one s assms(2) show "Index b = Index b'"
    "format_RFC3339Nano (to_UTC (Timestamp b)) = format_RFC3339Nano (to_UTC (Timestamp b'))"
    "PreviousHash b = PreviousHash b'" "e = e'"
    by (simp_all add: show_nat_inject word_unat_eq_iff)
qed

section \<open>Two chains with the same end\<close>

text \<open>What the hash of a block protects.\<close>

definition same_content :: "Block \<Rightarrow> Block \<Rightarrow> bool" where
  "same_content b b' \<longleftrightarrow> Index b = Index b' \<and>
     format_RFC3339Nano (to_UTC (Timestamp b)) = format_RFC3339Nano (to_UTC (Timestamp b')) \<and>
     event_json (block_Event b) = event_json (block_Event b') \<and>
     PreviousHash b = PreviousHash b' \<and> Hash b = Hash b'"

definition encodable :: "Block \<Rightarrow> bool" where
  "encodable b \<longleftrightarrow> event_json (block_Event b) \<noteq> None"

definition records :: "Block list \<Rightarrow> string set" where
  "records bs = {hash_record b e |b e. b \<in> set bs \<and> event_json (block_Event b) = Some e}"

lemma same_hash_same_content:
  assumes "inj_on sha256 (records [b, b'])" and "encodable b" and "encodable b'"
    and "calculateHash sha256 b = Hash b" and "calculateHash sha256 b' = Hash b'" and "Hash b = Hash b'"
    and "length (PreviousHash b) = length (PreviousHash b')"
  shows "same_content b b'"
proof -
  obtain e e' where e: "event_json (block_Event b) = Some e" "event_json (block_Event b') = Some e'"
    using assms(2,3) by (auto simp: encodable_def)
  with assms(4-6) have "hex_encode (sha256 (hash_record b e)) = hex_encode (sha256 (hash_record b' e'))"
    by (simp add: calculateHash_def)
  then have "hash_record b e = hash_record b' e'"
    using assms(1) e by (auto simp: hex_encode_inject records_def dest!: inj_onD)
  from hash_record_inject[OF this assms(7)] e assms(6) show ?thesis by (simp add: same_content_def)
qed

lemma hash_length:
  assumes "encodable b" and "calculateHash sha256 b = Hash b" and "\<And>x. length (sha256 x) = 32"
  shows "length (Hash b) = 64"
proof -
  from assms(1) obtain e where "event_json (block_Event b) = Some e" by (auto simp: encodable_def)
  with assms(2) have "Hash b = hex_encode (sha256 (hash_record b e))" by (simp add: calculateHash_def)
  then show ?thesis by (simp add: assms(3))
qed

lemma same_end_same_content:
  assumes "\<And>x. length (sha256 x) = 32" and "inj_on sha256 (records (bs @ bs'))"
    and "verifyFrom sha256 g bs = (True, None)" and "verifyFrom sha256 g' bs' = (True, None)"
    and "length bs = length bs'" and "\<forall>b \<in> set (bs @ bs'). encodable b"
    and "length (Hash g) = 64" and "length (Hash g') = 64"
    and "Hash (last (g # bs)) = Hash (last (g' # bs'))"
  shows "Hash g = Hash g' \<and> list_all2 same_content bs bs'"
  using assms(5,2-4,6-9)
proof (induction bs bs' arbitrary: g g' rule: list_induct2)
  case (Cons b bs b' bs')
  note prems = Cons.prems
  have v: "PreviousHash b = Hash g" "calculateHash sha256 b = Hash b" "verifyFrom sha256 b bs = (True, None)"
    "PreviousHash b' = Hash g'" "calculateHash sha256 b' = Hash b'" "verifyFrom sha256 b' bs' = (True, None)"
    using prems(2,3) by (auto split: if_splits)
  have enc: "encodable b" "encodable b'" "\<forall>b \<in> set (bs @ bs'). encodable b" using prems(4) by simp_all
  have inj: "inj_on sha256 (records (bs @ bs'))" "inj_on sha256 (records [b, b'])"
    using prems(1) by (rule inj_on_subset, force simp: records_def)+
  have "length (Hash b) = 64" "length (Hash b') = 64"
    using hash_length[OF enc(1) v(2)] hash_length[OF enc(2) v(5)] assms(1) by simp_all
  with Cons.IH[OF inj(1) v(3,6) enc(3)] prems(7) have rest: "Hash b = Hash b'" "list_all2 same_content bs bs'"
    by simp_all
  have "same_content b b'"
    using same_hash_same_content[OF inj(2) enc(1,2) v(2,5) rest(1)] v(1,4) prems(5,6) by simp
  then have "Hash g = Hash g'" using v(1,4) by (simp add: same_content_def)
  with rest \<open>same_content b b'\<close> show ?case by simp
qed simp

section \<open>Theorems\<close>

text \<open>
  A chain built by the manager verifies, whatever events are logged and whatever the clock
  shows.
\<close>

lemma logged_chain_verifies:
  "VerifyChain sha256 (LogEvents sha256 es (NewChainManager sha256 now)) = (True, None)"
  by (rule LogEvents_verifies) (simp_all add: NewChainManager_def VerifyChain_def Let_def)

text \<open>
  C5: with a collision-free hash, history cannot be rewritten under a kept end: if two chains of
  the same length verify and end in the same hash, all their blocks after the first agree in
  index, time, event, previous hash and hash. The first block is not covered: of it only the hash
  is fixed.
\<close>

theorem history_is_fixed_by_last_hash:
  assumes "\<And>x. length (sha256 x) = 32" and "inj_on sha256 (records (bs @ bs'))"
    and "VerifyChain sha256 (g # bs) = (True, None)" and "VerifyChain sha256 (g' # bs') = (True, None)"
    and "length bs = length bs'" and "\<forall>b \<in> set (bs @ bs'). encodable b"
    and "length (Hash g) = 64" and "length (Hash g') = 64"
    and "Hash (last (g # bs)) = Hash (last (g' # bs'))"
  shows "Hash g = Hash g' \<and> list_all2 same_content bs bs'"
  using same_end_same_content[OF assms(1,2) _ _ assms(5-9)] assms(3,4) by (simp add: VerifyChain_def)

definition sample_sha :: "string \<Rightarrow> string" where
  "sample_sha s = take 32 (s @ replicate 32 (CHR ''0''))"

definition login_event :: Event where
  "login_event = \<lparr>ev_ID = ''e1'', ev_Timestamp = (unix_epoch, 0), ev_Type = ''AUTH_LOGIN'', ev_Actor = ''user1'',
     ev_Metadata = Some [(''worker_count'', Some (JInt 4))]\<rparr>"

lemma history_is_fixed_by_last_hash_witness:
  "\<exists>g b. LogEvents sample_sha [((unix_epoch, 0), login_event)] (NewChainManager sample_sha (unix_epoch, 0)) = [g, b]
     \<and> Hash (last [g, b]) = Hash (last [g\<lparr>Timestamp := (unix_epoch + Second, 0)\<rparr>, b])
     \<and> list_all2 same_content [b] [b]"
proof -
  let ?chain = "LogEvents sample_sha [((unix_epoch, 0), login_event)] (NewChainManager sample_sha (unix_epoch, 0))"
  obtain g b where gb: "?chain = [g, b]" "block_Event g = genesis_event" "block_Event b = login_event"
    "Hash g = calculateHash sample_sha g"
    by (simp add: NewChainManager_def Append_def Let_def calculateHash_fields)
  have ver: "VerifyChain sample_sha [g, b] = (True, None)"
    unfolding gb(1)[symmetric] by (rule LogEvents_verifies) (simp_all add: NewChainManager_def VerifyChain_def Let_def)
  let ?g' = "g\<lparr>Timestamp := (unix_epoch + Second, 0)\<rparr>"
  have ver': "VerifyChain sample_sha [?g', b] = (True, None)" using ver by (simp add: VerifyChain_def)
  have len: "length (sample_sha x) = 32" for x by (simp add: sample_sha_def)
  have epoch: "time_Year (\<lambda>_. 0) unix_epoch = 1970" "time_Year (\<lambda>_. 0) zero_time = 1"
    by (simp_all add: time_Year_def abs_days_def abs_seconds_def unix_epoch_def zero_time_def duration_defs
        civil_def year_yday_def Let_def split: prod.splits)
  have enc: "encodable b" "encodable g"
    using gb(2,3) epoch
    by (simp_all add: encodable_def event_json_def login_event_def genesis_event_def time_json_def metadata_json_def)
  have lg: "length (Hash g) = 64" using hash_length[OF enc(2) gb(4)[symmetric]] len by simp
  have inj: "inj_on sample_sha (records ([b] @ [b]))" by (rule inj_onI) (auto simp: records_def)
  have "list_all2 same_content [b] [b]"
    using history_is_fixed_by_last_hash[OF len inj ver ver'] enc(1) lg by simp
  with gb(1) show ?thesis by (intro exI[of _ g] exI[of _ b]) simp
qed

text \<open>
  The content of the first block can be replaced: its own hash is never recomputed.
\<close>

lemma genesis_not_covered:
  "VerifyChain sha256 (g\<lparr>block_Event := e, Timestamp := ts, Index := i, PreviousHash := p\<rparr> # bs)
     = VerifyChain sha256 (g # bs)"
  by (cases bs) (simp_all add: VerifyChain_def)

text \<open>An event that cannot be encoded has a constant hash, so its block can be changed at will.\<close>

lemma unencodable_hash:
  "event_json (block_Event b) = None \<Longrightarrow> event_json e = None \<Longrightarrow>
   calculateHash sha256 (b\<lparr>block_Event := e, Timestamp := ts, Index := i\<rparr>) = calculateHash sha256 b"
  by (simp add: calculateHash_def)

end
