(* ===== verification/Agent_Engine.thy ===== *)
theory Agent_Engine
  imports Tool_Registry Prompt_Guard Audit_Chain
begin

text \<open>
  One task of the kernel, \<open>core/event_loop.go\<close>: the reason-and-act loop \<open>executeEphemeral\<close>, the
  dispatch of a tool call to the local registry or to the Rust sandbox (\<open>core/ipc_client.go\<close>),
  and the guard on every tool output; with the mock adapter (\<open>core/mock_ollama.go\<close>) and the
  native tool \<open>sys_info\<close> (\<open>core/tools/sys_info.go\<close>) the command line runs it with.

  Adapter, tools, the sandbox's RPC and the clock are outside the engine: each may change the world
  \<open>'w\<close>, and returns its value or the text of its error. Contexts only reach these components, so they are
  part of \<open>'w\<close>. The requests to the adapter and the events for the audit chain are recorded in the order they are
  made, an event with the time at which the chain appends it.
\<close>

section \<open>Messages\<close>

record ToolCall =
  call_ID :: string
  call_Name :: string
  Arguments :: string

record ToolResultMessage =
  ToolCallID :: string
  tr_Content :: string
  IsError :: bool

record Message =
  Role :: string
  msg_Content :: string
  ToolCalls :: "ToolCall list"
  ToolResults :: "ToolResultMessage list"

record TokenUsage =
  PromptTokens :: int
  CompletionTokens :: int
  TotalTokens :: int

record LLMResponse =
  llm_Content :: string
  llm_ToolCalls :: "ToolCall list"
  llm_TokenUsage :: TokenUsage

type_synonym 'w adapter = "Message list \<Rightarrow> ToolManifest list \<Rightarrow> 'w \<Rightarrow> (string + LLMResponse) \<times> 'w"

text \<open>The RPC of the sandbox: its success flag, error message and output, or a transport error.\<close>

type_synonym 'w sandbox_rpc = "string \<Rightarrow> string \<Rightarrow> 'w \<Rightarrow> (string + bool \<times> string \<times> string) \<times> 'w"

record 'w run_state =
  world :: 'w
  llm_calls :: "Message list list"
  audit_log :: "(timestamp \<times> Event) list"

record 'w Engine =
  engine_adapter :: "'w adapter"
  engine_tools :: "'w ToolRegistry"
  sandboxClient :: "'w sandbox_rpc option"
  guard :: guard_scan
  audit_on :: bool
  engine_clock :: "'w \<Rightarrow> timestamp \<times> 'w"

definition NewEngine :: "('w \<Rightarrow> timestamp \<times> 'w) \<Rightarrow> 'w adapter \<Rightarrow> string list \<Rightarrow> 'w Engine" where
  "NewEngine clk a ord =
     \<lparr>engine_adapter = a, engine_tools = NewToolRegistry None, sandboxClient = None,
      guard = kernel_guard ord, audit_on = False, engine_clock = clk\<rparr>"

definition WithSandbox :: "'w sandbox_rpc option \<Rightarrow> 'w Engine \<Rightarrow> 'w Engine" where
  "WithSandbox c e = e\<lparr>sandboxClient := c\<rparr>"

definition WithAuditLogger :: "'w Engine \<Rightarrow> 'w Engine" where
  "WithAuditLogger e = e\<lparr>audit_on := True\<rparr>"

definition RegisterTool ::
    "(ToolManifest \<Rightarrow> string + string) \<Rightarrow> 'w Tool option \<Rightarrow> 'w Engine \<Rightarrow> tool_error + 'w Engine" where
  "RegisterTool marshal t e =
     (case Register marshal t (engine_tools e) of Inl err \<Rightarrow> Inl err | Inr r \<Rightarrow> Inr (e\<lparr>engine_tools := r\<rparr>))"

definition zero_config :: GuardConfig where
  "zero_config = \<lparr>StrictnessLevel = 0, BypassTokens = [], MaxHeuristicScore = 0\<rparr>"

section \<open>Dispatching a tool call\<close>

text \<open>
  A call of the audit logger, if one is attached: the event carries the time at which it is made, the chain reads
  the clock once more when it appends the block.
\<close>

definition LogEvent ::
    "'w Engine \<Rightarrow> string \<Rightarrow> string \<Rightarrow> string \<Rightarrow> (string \<times> json) list \<Rightarrow> 'w run_state \<Rightarrow> 'w run_state" where
  "LogEvent e ident typ actor metadata st =
     (if audit_on e then
        (let (made, w1) = engine_clock e (world st);
             (appended, w2) = engine_clock e w1;
             event = \<lparr>ev_ID = ident, ev_Timestamp = made, ev_Type = typ, ev_Actor = actor,
               ev_Metadata = Some (map (\<lambda>(k, v). (k, Some v)) metadata)\<rparr>
         in st\<lparr>world := w2, audit_log := audit_log st @ [(appended, event)]\<rparr>)
      else st)"

text \<open>
  The first violation of a verdict. Indexing an empty list would panic; the guards' contract
  (\<open>prompt_guard\<close>) rules that out.
\<close>

definition first_description :: "GuardResult \<Rightarrow> string" where
  "first_description r = (case Violations r of [] \<Rightarrow> [] | v # _ \<Rightarrow> Description v)"

definition verifyToolOutput ::
    "'w Engine \<Rightarrow> string \<Rightarrow> string \<Rightarrow> 'w run_state \<Rightarrow> string option \<times> 'w run_state" where
  "verifyToolOutput e taskID output st =
     (let res = guard e output zero_config in
      if IsSafe res then (None, st)
      else
        (Some (''security_violation_tool_output: '' @ first_description res),
         LogEvent e (taskID @ ''-violation'') ''AUDIT_SECURITY_VIOLATION'' ''prompt-guard''
            [(''task_id'', JStr taskID), (''reason'', JStr (first_description res))] st))"

definition SandboxClient_ExecuteTool ::
    "'w sandbox_rpc \<Rightarrow> string \<Rightarrow> string \<Rightarrow> string \<Rightarrow> 'w \<Rightarrow> (string + string) \<times> 'w" where
  "SandboxClient_ExecuteTool rpc toolName payloadJSON signatureHex w =
     (if signatureHex = [] then (Inl ''refusing to dispatch unsigned tool via IPC'', w)
      else
        (let (r, w') = rpc toolName payloadJSON w in
         case r of
           Inl e \<Rightarrow> (Inl (''rpc failure bridging to rust sandbox: '' @ e), w')
         | Inr (success, err, out) \<Rightarrow>
             if \<not> success then (Inl (''sandbox rejected execution: '' @ err), w') else (Inr out, w')))"

definition runLocalTool ::
    "'w Engine \<Rightarrow> string \<Rightarrow> 'w Tool \<Rightarrow> ToolCall \<Rightarrow> 'w run_state \<Rightarrow> (string + string) \<times> 'w run_state" where
  "runLocalTool e taskID tool call st =
     (let st1 = LogEvent e (taskID @ ''-tool-exec'') ''AUDIT_TOOL_EXECUTE'' ''engine''
            [(''task_id'', JStr taskID), (''tool'', JStr (call_Name call))] st;
          (r, w) = tool_Execute tool (Arguments call) (world st1);
          st2 = st1\<lparr>world := w\<rparr>
      in case r of
           Inl err \<Rightarrow> (Inl err, st2)
         | Inr res \<Rightarrow>
             (case verifyToolOutput e taskID res st2 of
                (Some scanErr, st3) \<Rightarrow> (Inl scanErr, st3)
              | (None, st3) \<Rightarrow> (Inr res, st3)))"

definition runSandboxTool ::
    "'w Engine \<Rightarrow> string \<Rightarrow> 'w sandbox_rpc \<Rightarrow> ToolCall \<Rightarrow> 'w run_state \<Rightarrow> (string + string) \<times> 'w run_state" where
  "runSandboxTool e taskID rpc call st =
     (let (started, w0) = engine_clock e (world st);
          (r, w1) = SandboxClient_ExecuteTool rpc (call_Name call) (Arguments call) [] w0;
          (ended, w2) = engine_clock e w1;
          st1 = LogEvent e (taskID @ ''-tool-res'') ''AUDIT_TOOL_RESULT'' ''engine''
            [(''task_id'', JStr taskID), (''tool_name'', JStr (call_Name call)),
             (''duration_ms'', JInt (Milliseconds (Time_Sub (fst ended) (fst started))))]
            (st\<lparr>world := w2\<rparr>)
      in case r of
           Inl err \<Rightarrow> (Inl err, st1)
         | Inr res \<Rightarrow>
             (case verifyToolOutput e taskID res st1 of
                (Some scanErr, st2) \<Rightarrow> (Inl scanErr, st2)
              | (None, st2) \<Rightarrow> (Inr res, st2)))"

definition dispatchTool ::
    "'w Engine \<Rightarrow> string \<Rightarrow> ToolCall \<Rightarrow> 'w run_state \<Rightarrow> (string + string) \<times> 'w run_state" where
  "dispatchTool e taskID call st =
     (case Get_tool (call_Name call) (engine_tools e) of
        Inr tool \<Rightarrow> runLocalTool e taskID tool call st
      | Inl _ \<Rightarrow>
          (case sandboxClient e of
             Some rpc \<Rightarrow> runSandboxTool e taskID rpc call st
           | None \<Rightarrow> (Inl (''tool_not_found: '' @ call_Name call), st)))"

section \<open>The loop\<close>

definition maxAgentIterations :: nat where "maxAgentIterations = 10"

text \<open>
  The tool calls of one turn: the results to feed back, or the error that ends the task, any
  error whose text contains \<open>security_violation\<close>.
\<close>

fun runCalls ::
    "'w Engine \<Rightarrow> string \<Rightarrow> ToolCall list \<Rightarrow> ToolResultMessage list \<Rightarrow> 'w run_state
     \<Rightarrow> (string + ToolResultMessage list) \<times> 'w run_state" where
  "runCalls e taskID [] results st = (Inr results, st)"
| "runCalls e taskID (call # calls) results st =
     (let (r, st1) = dispatchTool e taskID call st in
      case r of
        Inl execErr \<Rightarrow>
          if Contains execErr ''security_violation'' then (Inl execErr, st1)
          else runCalls e taskID calls
                 (results @ [\<lparr>ToolCallID = call_ID call, tr_Content = execErr, IsError = True\<rparr>]) st1
      | Inr result \<Rightarrow>
          runCalls e taskID calls
            (results @ [\<lparr>ToolCallID = call_ID call, tr_Content = result, IsError = False\<rparr>]) st1)"

text \<open>
  The iterations: \<open>n\<close> counts those that are left, and \<open>ord i\<close> is the order in which iteration \<open>i\<close>
  ranges over the tools for their manifests.
\<close>

fun agentLoop ::
    "'w Engine \<Rightarrow> (nat \<Rightarrow> string list) \<Rightarrow> string \<Rightarrow> nat \<Rightarrow> Message list \<Rightarrow> 'w run_state
     \<Rightarrow> (string + string) \<times> 'w run_state" where
  "agentLoop e ord taskID 0 messages st = (Inl ''ErrMaxIterationsExceeded'', st)"
| "agentLoop e ord taskID (Suc n) messages st =
     (let iteration = maxAgentIterations - Suc n;
          st1 = LogEvent e (taskID @ ''-req'') ''AUDIT_LLM_REQUEST'' ''engine''
            [(''task_id'', JStr taskID), (''messages_count'', JInt (int (length messages)))] st;
          (r, w) = engine_adapter e messages (tool_Manifests (engine_tools e) (ord iteration)) (world st1);
          st2 = st1\<lparr>world := w, llm_calls := llm_calls st1 @ [messages]\<rparr>
      in case r of
           Inl err \<Rightarrow> (Inl (''llm_iter_'' @ show_nat iteration @ '': '' @ err), st2)
         | Inr res \<Rightarrow>
             if llm_ToolCalls res = [] then (Inr (llm_Content res), st2)
             else
               (let assistant = \<lparr>Role = ''assistant'', msg_Content = llm_Content res,
                      ToolCalls = llm_ToolCalls res, ToolResults = []\<rparr>;
                    (calls, st3) = runCalls e taskID (llm_ToolCalls res) [] st2
                in case calls of
                     Inl err \<Rightarrow> (Inl err, st3)
                   | Inr results \<Rightarrow>
                       agentLoop e ord taskID n
                         (messages @ [assistant, \<lparr>Role = ''tool'', msg_Content = [], ToolCalls = [],
                            ToolResults = results\<rparr>]) st3))"

definition initial_messages :: "string \<Rightarrow> Message list" where
  "initial_messages input =
     [\<lparr>Role = ''system'', msg_Content = ''You are AetherCore Kernel. Execute the objective using tools.'',
       ToolCalls = [], ToolResults = []\<rparr>,
      \<lparr>Role = ''user'', msg_Content = input, ToolCalls = [], ToolResults = []\<rparr>]"

definition executeEphemeral ::
    "'w Engine \<Rightarrow> (nat \<Rightarrow> string list) \<Rightarrow> string \<Rightarrow> string \<Rightarrow> 'w run_state \<Rightarrow> (string + string) \<times> 'w run_state" where
  "executeEphemeral e ord taskID input st =
     (let guardRes = guard e input zero_config in
      if \<not> IsSafe guardRes then (Inl (''security_violation: '' @ first_description guardRes), st)
      else agentLoop e ord taskID maxAgentIterations (initial_messages input) st)"

section \<open>The mock adapter\<close>

fun lastUserInput :: "Message list \<Rightarrow> string" where
  "lastUserInput ms = (case filter (\<lambda>m. Role m = ''user'') (rev ms) of [] \<Rightarrow> [] | m # _ \<Rightarrow> msg_Content m)"

definition MockOllama :: "(nat \<Rightarrow> nat) \<Rightarrow> 'w adapter" where
  "MockOllama ul messages manifests w =
     ((if Contains (ToLower ul (lastUserInput messages)) ''system info'' then
         Inr \<lparr>llm_Content = [], llm_ToolCalls = [\<lparr>call_ID = ''call_mock123'', call_Name = ''sys_info'',
              Arguments = ''{}''\<rparr>],
              llm_TokenUsage = \<lparr>PromptTokens = 10, CompletionTokens = 20, TotalTokens = 30\<rparr>\<rparr>
       else
         Inr \<lparr>llm_Content = ''I am a mocked intelligence. I did not detect any tool triggers.'',
              llm_ToolCalls = [],
              llm_TokenUsage = \<lparr>PromptTokens = 5, CompletionTokens = 15, TotalTokens = 20\<rparr>\<rparr>), w)"

definition MockOllama_Generate :: "string \<Rightarrow> string \<Rightarrow> string + string" where
  "MockOllama_Generate systemPrompt userInput = Inr ''Mock response completed.''"

section \<open>The native tool\<close>

text \<open>What the tool reads of the machine: the runtime's constants and counters, and the time.\<close>

record host =
  GOOS :: string
  GOARCH :: string
  NumCPU :: int
  NumGoroutine :: int
  host_now :: instant

definition SysInfo_Manifest :: ToolManifest where
  "SysInfo_Manifest =
     \<lparr>tm_Name = ''sys_info'',
      tm_Description = ''Retrieves critical operating system and hardware runtime telemetry'',
      tm_Parameters = ''{ '' @ json_string ''type'' @ '': '' @ json_string ''object'' @ '', ''
        @ json_string ''properties'' @ '': {} }'',
      tm_Capabilities = [CapState_llm], MaxRuntimeMs = 100, MemoryLimit = 2\<rparr>"

definition SysInfo_output :: "host \<Rightarrow> string" where
  "SysInfo_output h = json_write (JObj
     [(''os'', JStr (GOOS h)), (''architecture'', JStr (GOARCH h)), (''logical_cores'', JInt (NumCPU h)),
      (''active_goroutines'', JInt (NumGoroutine h)),
      (''system_time_utc'', JStr (format_RFC3339 utc (host_now h)))])"

definition SysInfoTool :: "host Tool" where
  "SysInfoTool = \<lparr>Manifest = SysInfo_Manifest, tool_Execute = (\<lambda>args h. (Inr (SysInfo_output h), h))\<rparr>"

section \<open>What reaches the adapter\<close>

definition safe_result_msg :: "'w Engine \<Rightarrow> ToolResultMessage \<Rightarrow> bool" where
  "safe_result_msg e r \<longleftrightarrow> IsError r \<or> IsSafe (guard e (tr_Content r) zero_config)"

definition safe_history :: "'w Engine \<Rightarrow> Message list \<Rightarrow> bool" where
  "safe_history e ms \<longleftrightarrow> (\<forall>m \<in> set ms. \<forall>r \<in> set (ToolResults m). safe_result_msg e r)"

lemma LogEvent_frame [simp]: "llm_calls (LogEvent e ident typ actor md st) = llm_calls st"
  by (simp add: LogEvent_def split: prod.split)

lemma verifyToolOutput_cases:
  "verifyToolOutput e taskID out st = (r, st') \<Longrightarrow>
     llm_calls st' = llm_calls st \<and> (r = None \<longleftrightarrow> IsSafe (guard e out zero_config))"
  by (auto simp: verifyToolOutput_def Let_def split: if_splits)

lemma dispatchTool_cases:
  assumes "dispatchTool e taskID call st = (r, st')"
  shows "llm_calls st' = llm_calls st" and "\<And>out. r = Inr out \<Longrightarrow> IsSafe (guard e out zero_config)"
  using assms
  by (auto simp: dispatchTool_def runLocalTool_def runSandboxTool_def Let_def
      dest!: verifyToolOutput_cases split: sum.splits option.splits prod.splits)

lemma runCalls_cases:
  assumes "runCalls e taskID calls results st = (r, st')"
  shows "llm_calls st' = llm_calls st \<and>
     (\<forall>rs. r = Inr rs \<longrightarrow> (\<forall>x \<in> set results. safe_result_msg e x) \<longrightarrow> (\<forall>x \<in> set rs. safe_result_msg e x))"
  using assms
proof (induction calls arbitrary: results st)
  case (Cons call calls)
  obtain d st1 where d: "dispatchTool e taskID call st = (d, st1)" by force
  note dc = dispatchTool_cases[OF d]
  show ?case
  proof (cases d)
    case (Inl err)
    show ?thesis
    proof (cases "Contains err ''security_violation''")
      case True
      with Cons.prems d Inl dc(1) show ?thesis by auto
    next
      case False
      let ?rs = "results @ [\<lparr>ToolCallID = call_ID call, tr_Content = err, IsError = True\<rparr>]"
      have "runCalls e taskID calls ?rs st1 = (r, st')" using Cons.prems d Inl False by simp
      from Cons.IH[OF this] dc(1) show ?thesis by (simp add: safe_result_msg_def)
    qed
  next
    case (Inr out)
    let ?rs = "results @ [\<lparr>ToolCallID = call_ID call, tr_Content = out, IsError = False\<rparr>]"
    have "runCalls e taskID calls ?rs st1 = (r, st')" using Cons.prems d Inr by simp
    from Cons.IH[OF this] dc(1) dc(2)[OF Inr] show ?thesis by (simp add: safe_result_msg_def)
  qed
qed auto

lemma agentLoop_calls:
  assumes "agentLoop e ord taskID n ms st = (r, st')" and "safe_history e ms"
  shows "\<exists>new. llm_calls st' = llm_calls st @ new \<and> length new \<le> n \<and>
     (\<forall>req \<in> set new. safe_history e req \<and> (\<exists>ext. req = ms @ ext))"
  using assms
proof (induction n arbitrary: ms st)
  case (Suc n)
  let ?it = "maxAgentIterations - Suc n"
  let ?log = "LogEvent e (taskID @ ''-req'') ''AUDIT_LLM_REQUEST'' ''engine''
            [(''task_id'', JStr taskID), (''messages_count'', JInt (int (length ms)))] st"
  obtain a w where a: "engine_adapter e ms (tool_Manifests (engine_tools e) (ord ?it)) (world ?log) = (a, w)"
    by force
  let ?st2 = "?log\<lparr>world := w, llm_calls := llm_calls ?log @ [ms]\<rparr>"
  have one: ?case if "st' = ?st2"
    using that Suc.prems(2) by (intro exI[of _ "[ms]"]) simp
  show ?case
  proof (cases a)
    case (Inl err)
    have "st' = ?st2" using Suc.prems(1) a Inl by (simp add: Let_def)
    then show ?thesis by (rule one)
  next
    case (Inr res)
    show ?thesis
    proof (cases "llm_ToolCalls res = []")
      case True
      have "st' = ?st2" using Suc.prems(1) a Inr True by (simp add: Let_def)
      then show ?thesis by (rule one)
    next
      case False
      obtain c st3 where c: "runCalls e taskID (llm_ToolCalls res) [] ?st2 = (c, st3)" by force
      note rc = runCalls_cases[OF c]
      show ?thesis
      proof (cases c)
        case l: (Inl err)
        have "st' = st3" using Suc.prems(1) a Inr False c l by (simp add: Let_def)
        with rc Suc.prems(2) show ?thesis by (intro exI[of _ "[ms]"]) simp
      next
        case rs: (Inr results)
        let ?next = "ms @ [\<lparr>Role = ''assistant'', msg_Content = llm_Content res,
            ToolCalls = llm_ToolCalls res, ToolResults = []\<rparr>,
            \<lparr>Role = ''tool'', msg_Content = [], ToolCalls = [], ToolResults = results\<rparr>]"
        have "agentLoop e ord taskID n ?next st3 = (r, st')"
          using Suc.prems(1) a Inr False c rs by (simp add: Let_def)
        moreover have "safe_history e ?next"
          using Suc.prems(2) rc rs by (auto simp: safe_history_def)
        ultimately obtain new where new: "llm_calls st' = llm_calls st3 @ new" "length new \<le> n"
          "\<forall>req \<in> set new. safe_history e req \<and> (\<exists>ext. req = ?next @ ext)"
          using Suc.IH by blast
        have "llm_calls st' = llm_calls st @ ms # new" using new(1) rc by simp
        moreover have "\<forall>req \<in> set (ms # new). safe_history e req \<and> (\<exists>ext. req = ms @ ext)"
          using new(3) Suc.prems(2) by auto
        ultimately show ?thesis using new(2) by (intro exI[of _ "ms # new"]) simp
      qed
    qed
  qed
qed simp

section \<open>The sandbox is never reached\<close>

lemma SandboxClient_unsigned:
  "SandboxClient_ExecuteTool rpc name args [] w = (Inl ''refusing to dispatch unsigned tool via IPC'', w)"
  by (simp add: SandboxClient_ExecuteTool_def)

lemma engine_sandbox_fields [simp]:
  "guard (WithSandbox c e) = guard e" "engine_tools (WithSandbox c e) = engine_tools e"
  "audit_on (WithSandbox c e) = audit_on e" "engine_clock (WithSandbox c e) = engine_clock e" "engine_adapter (WithSandbox c e) = engine_adapter e"
  "sandboxClient (WithSandbox c e) = c"
  by (simp_all add: WithSandbox_def)

lemma engine_sandbox_operations [simp]:
  "LogEvent (WithSandbox c e) = LogEvent e"
  "verifyToolOutput (WithSandbox c e) = verifyToolOutput e"
  "runLocalTool (WithSandbox c e) = runLocalTool e"
  "runSandboxTool (WithSandbox c e) = runSandboxTool e"
proof -
  show l: "LogEvent (WithSandbox c e) = LogEvent e" by (intro ext) (simp add: LogEvent_def)
  show v: "verifyToolOutput (WithSandbox c e) = verifyToolOutput e"
    by (intro ext) (simp add: verifyToolOutput_def l Let_def)
  show "runLocalTool (WithSandbox c e) = runLocalTool e"
    by (intro ext) (unfold runLocalTool_def l v, rule refl)
  show "runSandboxTool (WithSandbox c e) = runSandboxTool e"
    by (intro ext) (unfold runSandboxTool_def l v engine_sandbox_fields, rule refl)
qed

lemma runSandboxTool_any_rpc: "runSandboxTool e taskID rpc call st = runSandboxTool e taskID rpc' call st"
  by (simp add: runSandboxTool_def SandboxClient_unsigned)

lemma dispatchTool_any_rpc:
  "dispatchTool (WithSandbox (Some rpc) e) = dispatchTool (WithSandbox (Some rpc') e)"
  by (intro ext) (simp add: dispatchTool_def runSandboxTool_any_rpc[of e _ rpc _ _ rpc'] split: sum.splits)

lemma runCalls_any_rpc:
  "runCalls (WithSandbox (Some rpc) e) taskID calls rs st = runCalls (WithSandbox (Some rpc') e) taskID calls rs st"
  by (induction calls arbitrary: rs st)
     (simp_all add: dispatchTool_any_rpc[of rpc e rpc'] split: prod.splits sum.splits)

lemma agentLoop_any_rpc:
  "agentLoop (WithSandbox (Some rpc) e) ord taskID n ms st = agentLoop (WithSandbox (Some rpc') e) ord taskID n ms st"
proof (induction n arbitrary: ms st)
  case (Suc n)
  then show ?case by (simp add: Let_def runCalls_any_rpc[of rpc e _ _ _ _ rpc'] split: prod.splits sum.splits)
qed simp

section \<open>The native tool and the guard\<close>

lemma solid_digits: "solid (show_nat n)"
proof -
  have "solid ''0123456789''" by (simp add: byte_def)
  then show ?thesis using set_show_nat[of n] by (auto simp: solid_def)
qed

lemma solid_show_int: "solid (show_int i)"
  using solid_digits by (simp add: show_int_def byte_def)

lemma plain_digits: "c \<in> set (show_nat n) \<Longrightarrow> plain_char c"
proof -
  have "\<forall>c \<in> set ''0123456789''. plain_char c" by (simp add: plain_char_def byte_def)
  then show "c \<in> set (show_nat n) \<Longrightarrow> plain_char c" using set_show_nat[of n] by blast
qed

lemma plain_pad_int: "c \<in> set (pad_int w i) \<Longrightarrow> plain_char c"
  using plain_digits by (auto simp: pad_int_def Let_def plain_char_def byte_def split: if_splits)

lemma plain_RFC3339: "c \<in> set (format_RFC3339 utc t) \<Longrightarrow> plain_char c"
  using plain_pad_int
  by (auto simp: format_RFC3339_def zone_suffix_def utc_def) (auto simp: plain_char_def byte_def)

lemma solid_json_string:
  assumes "\<forall>c \<in> set s. plain_char c"
  shows "solid (json_string s)" and "length (json_string s) = length s + 2"
  using assms by (auto simp: json_string_plain solid_def plain_char_def byte_def)

text \<open>The compact JSON of \<open>sys_info\<close> has no white space at all.\<close>

lemma SysInfo_output_solid:
  assumes "\<forall>c \<in> set (GOOS h). plain_char c" and "\<forall>c \<in> set (GOARCH h). plain_char c"
  shows "solid (SysInfo_output h)" and "50 < length (SysInfo_output h)"
proof -
  have keys: "\<forall>k \<in> {''os'', ''architecture'', ''logical_cores'', ''active_goroutines'', ''system_time_utc''}.
      \<forall>c \<in> set k. plain_char c"
    by (simp add: plain_char_def byte_def)
  note js = solid_json_string[OF bspec[OF keys]] solid_json_string[OF assms(1)] solid_json_string[OF assms(2)]
    solid_json_string[of "format_RFC3339 utc (host_now h)"] 
  show "solid (SysInfo_output h)" "50 < length (SysInfo_output h)"
    using js plain_RFC3339 by (simp_all add: SysInfo_output_def solid_show_int byte_def)
qed

section \<open>Theorems\<close>

text \<open>
  C2: whatever adapter, tools and sandbox do, every request a task sends to the LLM starts with
  the guarded user input, and every tool result in it is either a tool's error text or an output
  the guard accepted; a refused input is never sent; and a task makes at most ten requests.
\<close>

theorem only_guarded_text_reaches_llm:
  assumes "executeEphemeral e ord taskID input st = (r, st')"
  shows "\<exists>new. llm_calls st' = llm_calls st @ new \<and> length new \<le> 10 \<and>
     (\<forall>req \<in> set new. IsSafe (guard e input zero_config) \<and> safe_history e req \<and>
        (\<exists>ext. req = initial_messages input @ ext))"
proof (cases "IsSafe (guard e input zero_config)")
  case True
  have "safe_history e (initial_messages input)"
    by (simp add: safe_history_def initial_messages_def)
  moreover from True assms have
    "agentLoop e ord taskID maxAgentIterations (initial_messages input) st = (r, st')"
    by (simp add: executeEphemeral_def)
  ultimately show ?thesis
    using True agentLoop_calls[of e ord taskID maxAgentIterations "initial_messages input" st r st']
    by (auto simp: maxAgentIterations_def)
next
  case False
  with assms have "st' = st" by (simp add: executeEphemeral_def Let_def)
  then show ?thesis by (intro exI[of _ "[]"]) simp
qed

definition quiet :: "'w \<Rightarrow> 'w run_state" where
  "quiet w = \<lparr>world = w, llm_calls = [], audit_log = []\<rparr>"

lemma only_guarded_text_reaches_llm_witness:
  "length (llm_calls (snd (executeEphemeral (NewEngine (Pair (0, 0)) (MockOllama id) pattern_order) (\<lambda>i. []) ''t1'' ''hello'' (quiet ())))) \<le> 10"
proof -
  obtain r st' where x: "executeEphemeral (NewEngine (Pair (0, 0)) (MockOllama id) pattern_order) (\<lambda>i. []) ''t1'' ''hello'' (quiet ()) = (r, st')"
    by force
  from only_guarded_text_reaches_llm[OF x] have "length (llm_calls st') \<le> 10" by (auto simp: quiet_def)
  then show ?thesis by (simp add: x)
qed

text \<open>
  An attached sandbox has no influence: the engine hands it every call without a signature,
  which the client refuses before any RPC, so tasks behave the same with every sandbox.
\<close>

lemma sandbox_never_reached:
  "executeEphemeral (WithSandbox (Some rpc) e) ord taskID input st
     = executeEphemeral (WithSandbox (Some rpc') e) ord taskID input st"
  by (simp add: executeEphemeral_def Let_def agentLoop_any_rpc[of rpc e _ _ _ _ _ rpc'])

text \<open>
  On the engine the command line builds, with the mock adapter and the native tool, every
  accepted goal that mentions "system info" fails: the tool's output is one unbroken run of more
  than fifty characters, which the engine's own guard takes for a token density anomaly.
\<close>

lemma system_info_task_always_fails:
  assumes "RegisterTool marshal (Some SysInfoTool) (NewEngine clk (MockOllama ul) pord) = Inr e"
    and "IsSafe (kernel_guard pord goal zero_config)"
    and "Contains (ToLower ul goal) ''system info''"
    and "\<forall>c \<in> set (GOOS (world st)). plain_char c" and "\<forall>c \<in> set (GOARCH (world st)). plain_char c"
  shows "fst (executeEphemeral e ord taskID goal st)
     = Inl ''security_violation_tool_output: Unusually long unbroken token detected''"
proof -
  have e: "e = (NewEngine clk (MockOllama ul) pord)\<lparr>engine_tools :=
      \<lparr>tools = [''sys_info'' \<mapsto> SysInfoTool], verifier = None\<rparr>\<rparr>"
    using assms(1) by (simp add: RegisterTool_def Register_def NewEngine_def NewToolRegistry_def
        SysInfoTool_def SysInfo_Manifest_def checkManifest_def Let_def)
  note out = solid_verdict[OF SysInfo_output_solid[OF assms(4,5)]]
  have tool: "dispatchTool e taskID \<lparr>call_ID = i, call_Name = ''sys_info'', Arguments = a\<rparr> st2
      = (Inl ''security_violation_tool_output: Unusually long unbroken token detected'', st2)"
    if "world st2 = world st" for i a st2
    using that out e by (simp add: dispatchTool_def Get_tool_def runLocalTool_def LogEvent_def NewEngine_def
        SysInfoTool_def verifyToolOutput_def first_description_def guard_results Let_def)
  have sv: "Contains ''security_violation_tool_output: Unusually long unbroken token detected'' ''security_violation''"
    by (simp add: HasPrefix_def)
  have user: "lastUserInput (initial_messages goal) = goal" by (simp add: initial_messages_def)
  show ?thesis
    using assms(2,3) e user tool sv
    by (simp add: executeEphemeral_def NewEngine_def maxAgentIterations_def numeral_eq_Suc LogEvent_def MockOllama_def Let_def)
qed

definition linux_host :: host where
  "linux_host = \<lparr>GOOS = ''linux'', GOARCH = ''amd64'', NumCPU = 8, NumGoroutine = 6, host_now = unix_epoch\<rparr>"

lemma hello_accepted: "IsSafe (kernel_guard pattern_order ''hello'' zero_config)"
  by code_simp

lemma system_info_accepted: "IsSafe (kernel_guard pattern_order ''system info'' zero_config)"
  by code_simp

text \<open>A goal that does not mention it is answered by the first call of the adapter.\<close>

lemma plain_task_is_answered:
  assumes "RegisterTool marshal (Some SysInfoTool) (NewEngine clk (MockOllama ul) pord) = Inr e"
    and "IsSafe (kernel_guard pord goal zero_config)" and "\<not> Contains (ToLower ul goal) ''system info''"
  shows "fst (executeEphemeral e ord taskID goal st) = Inr ''I am a mocked intelligence. I did not detect any tool triggers.''"
proof -
  have e: "e = (NewEngine clk (MockOllama ul) pord)\<lparr>engine_tools :=
      \<lparr>tools = [''sys_info'' \<mapsto> SysInfoTool], verifier = None\<rparr>\<rparr>"
    using assms(1) by (simp add: RegisterTool_def Register_def NewEngine_def NewToolRegistry_def
        SysInfoTool_def SysInfo_Manifest_def checkManifest_def Let_def)
  have user: "lastUserInput (initial_messages goal) = goal" by (simp add: initial_messages_def)
  show ?thesis
    using assms(2,3) e user
    by (simp add: executeEphemeral_def NewEngine_def maxAgentIterations_def numeral_eq_Suc LogEvent_def MockOllama_def Let_def)
qed

end
