(* ===== verification/Core_Memory.thy ===== *)
theory Core_Memory
  imports Agent_Engine
begin

text \<open>
  The memory of the kernel, \<open>core/memory\<close>: the storage interface (\<open>types.go\<close>), its in-process
  implementation (\<open>zestdb_adapter.go\<close>) and the engine that keeps a short-term window of messages
  beside it (\<open>engine.go\<close>). The metadata of an entry is an association list with distinct keys.
\<close>

section \<open>The storage interface\<close>

record MemoryEntry =
  me_ID :: string
  me_Content :: string
  me_Metadata :: "(string \<times> string) list"
  me_CreatedAt :: instant

record SearchOptions =
  Limit :: int
  Tags :: "string list"

text \<open>What the engine relies on: an entry with an id that is put into an open store can be got.\<close>

locale storage =
  fixes put :: "MemoryEntry \<Rightarrow> 's \<Rightarrow> 'e + 's" and get :: "string \<Rightarrow> 's \<Rightarrow> 'e + MemoryEntry"
    and is_open :: "'s \<Rightarrow> bool"
  assumes put_open: "is_open s \<Longrightarrow> me_ID e \<noteq> [] \<Longrightarrow> \<exists>s'. put e s = Inr s' \<and> is_open s'"
    and get_put: "is_open s \<Longrightarrow> put e s = Inr s' \<Longrightarrow> get (me_ID e) s' = Inr e"
    and get_put_other: "is_open s \<Longrightarrow> put e s = Inr s' \<Longrightarrow> k \<noteq> me_ID e \<Longrightarrow> get k s' = get k s"
begin

text \<open>A run of puts that goes on after an error.\<close>

primrec put_all :: "MemoryEntry list \<Rightarrow> 's \<Rightarrow> 's" where
  "put_all [] s = s"
| "put_all (e # es) s = (case put e s of Inl _ \<Rightarrow> put_all es s | Inr s' \<Rightarrow> put_all es s')"

lemma put_all_frame:
  "is_open s \<Longrightarrow> \<forall>e \<in> set es. me_ID e \<noteq> [] \<Longrightarrow> k \<notin> me_ID ` set es \<Longrightarrow> get k (put_all es s) = get k s"
proof (induction es arbitrary: s)
  case (Cons e es)
  obtain s' where s': "put e s = Inr s'" "is_open s'" using put_open Cons.prems by force
  with Cons.IH[OF s'(2)] Cons.prems get_put_other[OF _ s'(1)] show ?case by simp
qed simp

lemma get_put_all:
  assumes "is_open s" and "\<forall>e \<in> set es. me_ID e \<noteq> []" and "distinct (map me_ID es)" and "e \<in> set es"
  shows "get (me_ID e) (put_all es s) = Inr e"
  using assms
proof (induction es arbitrary: s)
  case (Cons x es)
  obtain s' where s': "put x s = Inr s'" "is_open s'" using put_open Cons.prems by force
  show ?case
  proof (cases "e = x")
    case True
    with Cons.prems s' put_all_frame[OF s'(2), of es "me_ID x"] get_put[OF Cons.prems(1) s'(1)]
    show ?thesis by simp
  next
    case False
    with Cons.IH[OF s'(2)] Cons.prems s'(1) show ?thesis by simp
  qed
qed simp

end

section \<open>The in-process store\<close>

datatype store_error = IDRequired | EntryNotFound | NilMapPanic

text \<open>\<open>Close\<close> sets the map to nil; reading a nil map finds nothing, writing to it panics.\<close>

record ZestDBStorage =
  zdata :: "(string \<rightharpoonup> MemoryEntry) option"

definition NewZestDBStorage :: ZestDBStorage where
  "NewZestDBStorage = \<lparr>zdata = Some Map.empty\<rparr>"

definition zlookup :: "ZestDBStorage \<Rightarrow> string \<rightharpoonup> MemoryEntry" where
  "zlookup s = (case zdata s of None \<Rightarrow> Map.empty | Some m \<Rightarrow> m)"

definition zest_Put :: "MemoryEntry \<Rightarrow> ZestDBStorage \<Rightarrow> store_error + ZestDBStorage" where
  "zest_Put entry s =
     (if me_ID entry = [] then Inl IDRequired
      else case zdata s of
        None \<Rightarrow> Inl NilMapPanic
      | Some m \<Rightarrow> Inr (s\<lparr>zdata := Some (m(me_ID entry \<mapsto> entry))\<rparr>))"

definition zest_Get :: "string \<Rightarrow> ZestDBStorage \<Rightarrow> store_error + MemoryEntry" where
  "zest_Get i s = (case zlookup s i of None \<Rightarrow> Inl EntryNotFound | Some e \<Rightarrow> Inr e)"

definition zest_Delete :: "string \<Rightarrow> ZestDBStorage \<Rightarrow> ZestDBStorage" where
  "zest_Delete i s = s\<lparr>zdata := map_option (\<lambda>m. m(i := None)) (zdata s)\<rparr>"

definition zest_Close :: "ZestDBStorage \<Rightarrow> ZestDBStorage" where
  "zest_Close s = s\<lparr>zdata := None\<rparr>"

definition containsIgnoreCase :: "(nat \<Rightarrow> nat) \<Rightarrow> string \<Rightarrow> string \<Rightarrow> bool" where
  "containsIgnoreCase ul s substr = Contains (ToLower ul s) (ToLower ul substr)"

definition entry_matches :: "(nat \<Rightarrow> nat) \<Rightarrow> string \<Rightarrow> string list \<Rightarrow> MemoryEntry \<Rightarrow> bool" where
  "entry_matches ul query tags entry \<longleftrightarrow>
     (query = [] \<or> containsIgnoreCase ul (me_Content entry) query
        \<or> list_ex (\<lambda>(k, v). containsIgnoreCase ul v query) (me_Metadata entry))
     \<and> (tags = [] \<or> list_ex (\<lambda>tag. map_of (me_Metadata entry) tag \<noteq> None) tags)"

fun searchLoop ::
    "(nat \<Rightarrow> nat) \<Rightarrow> string \<Rightarrow> SearchOptions \<Rightarrow> MemoryEntry list \<Rightarrow> MemoryEntry list \<Rightarrow> MemoryEntry list" where
  "searchLoop ul query opts [] results = results"
| "searchLoop ul query opts (entry # es) results =
     (if \<not> entry_matches ul query (Tags opts) entry then searchLoop ul query opts es results
      else
        (let results' = results @ [entry] in
         if Limit opts > 0 \<and> int (length results') \<ge> Limit opts then results'
         else searchLoop ul query opts es results'))"

definition zest_Search ::
    "(nat \<Rightarrow> nat) \<Rightarrow> string list \<Rightarrow> string \<Rightarrow> SearchOptions \<Rightarrow> ZestDBStorage \<Rightarrow> MemoryEntry list" where
  "zest_Search ul ord query opts s = searchLoop ul query opts (range_values (zlookup s) ord) []"

interpretation zest: storage zest_Put zest_Get "\<lambda>s. zdata s \<noteq> None"
  by unfold_locales (auto simp: zest_Put_def zest_Get_def zlookup_def split: option.splits if_splits)

lemma searchLoop_spec:
  "searchLoop ul query opts es results =
     (if 0 < Limit opts \<and> int (length results) < Limit opts then
        take (nat (Limit opts)) (results @ filter (entry_matches ul query (Tags opts)) es)
      else if 0 < Limit opts then
        results @ take 1 (filter (entry_matches ul query (Tags opts)) es)
      else results @ filter (entry_matches ul query (Tags opts)) es)"
proof (induction es arbitrary: results)
  case (Cons e es)
  show ?case
  proof (cases "entry_matches ul query (Tags opts) e")
    case True
    then show ?thesis using Cons.IH[of "results @ [e]"]
      by (auto simp: Let_def not_less take_Cons' nat_le_iff)
  next
    case False
    then show ?thesis using Cons.IH[of results] by simp
  qed
qed (auto simp: nat_le_iff)

text \<open>A search is the matching entries in range order, cut at the limit if there is one.\<close>

lemma zest_Search_filter:
  "zest_Search ul ord query opts s =
     (let hits = filter (entry_matches ul query (Tags opts)) (range_values (zlookup s) ord)
      in if 0 < Limit opts then take (nat (Limit opts)) hits else hits)"
  by (simp add: zest_Search_def searchLoop_spec Let_def)

section \<open>The engine\<close>

record MemoryEngine =
  mem_storage :: ZestDBStorage
  shortTermMem :: "Message list"
  maxShortTerm :: int

definition NewMemoryEngine :: "ZestDBStorage \<Rightarrow> int \<Rightarrow> MemoryEngine" where
  "NewMemoryEngine s n = \<lparr>mem_storage = s, shortTermMem = [], maxShortTerm = n\<rparr>"

text \<open>\<open>Record\<close> reads the clock twice, for the id and for the time of creation.\<close>

definition memory_entry :: "instant \<Rightarrow> instant \<Rightarrow> Message \<Rightarrow> MemoryEntry" where
  "memory_entry t1 t2 msg =
     \<lparr>me_ID = ''mem_'' @ show_int (UnixNano t1), me_Content = msg_Content msg,
      me_Metadata = [(''role'', Role msg)], me_CreatedAt = t2\<rparr>"

definition Record :: "instant \<Rightarrow> instant \<Rightarrow> Message \<Rightarrow> MemoryEngine \<Rightarrow> store_error option \<times> MemoryEngine" where
  "Record t1 t2 msg e =
     (let mem = shortTermMem e @ [msg];
          mem' = (if int (length mem) > maxShortTerm e then tl mem else mem);
          e' = e\<lparr>shortTermMem := mem'\<rparr>
      in case zest_Put (memory_entry t1 t2 msg) (mem_storage e) of
           Inl err \<Rightarrow> (Some err, e')
         | Inr s \<Rightarrow> (None, e'\<lparr>mem_storage := s\<rparr>))"

definition Recall :: "(nat \<Rightarrow> nat) \<Rightarrow> string list \<Rightarrow> string \<Rightarrow> MemoryEngine \<Rightarrow> Message list" where
  "Recall ul ord query e =
     shortTermMem e @ map (\<lambda>entry. \<lparr>Role = ''system'', msg_Content = ''[Memory Recall] '' @ me_Content entry,
        ToolCalls = [], ToolResults = []\<rparr>)
       (zest_Search ul ord query \<lparr>Limit = 3, Tags = []\<rparr> (mem_storage e))"

definition summary_message :: Message where
  "summary_message = \<lparr>Role = ''system'',
     msg_Content = ''[Context Summary] The conversation began with objective initialization and tool discovery.'',
     ToolCalls = [], ToolResults = []\<rparr>"

definition Summarize :: "MemoryEngine \<Rightarrow> MemoryEngine" where
  "Summarize e =
     (if length (shortTermMem e) \<le> 3 then e
      else e\<lparr>shortTermMem := summary_message # drop (length (shortTermMem e) div 2) (shortTermMem e)\<rparr>)"

fun RecordAll :: "(instant \<times> instant \<times> Message) list \<Rightarrow> MemoryEngine \<Rightarrow> MemoryEngine" where
  "RecordAll [] e = e"
| "RecordAll ((t1, t2, m) # ms) e = RecordAll ms (snd (Record t1 t2 m e))"

lemma Record_window:
  assumes "0 \<le> maxShortTerm e" and "shortTermMem e = drop (length h - nat (maxShortTerm e)) h"
  shows "shortTermMem (snd (Record t1 t2 m e)) = drop (length (h @ [m]) - nat (maxShortTerm e)) (h @ [m])
    \<and> maxShortTerm (snd (Record t1 t2 m e)) = maxShortTerm e"
proof -
  obtain n where n: "maxShortTerm e = int n" using assms(1) nonneg_int_cases by blast
  have len: "length (shortTermMem e) = min (length h) n" using assms(2) n by simp
  show ?thesis
  proof (cases "length h < n")
    case True
    with assms(2) n len show ?thesis by (simp add: Record_def Let_def split: sum.splits)
  next
    case False
    then have "tl (drop (length h - n) h @ [m]) = drop (Suc (length h) - n) (h @ [m])"
      by (cases "n = 0") (simp_all add: Suc_diff_le tl_append2 drop_Suc tl_drop)
    with False assms(2) n len show ?thesis by (auto simp: Record_def Let_def split: sum.splits)
  qed
qed

lemma RecordAll_window:
  assumes "0 \<le> maxShortTerm e" and "shortTermMem e = drop (length h - nat (maxShortTerm e)) h"
  shows "shortTermMem (RecordAll ms e) =
    (let all = h @ map (snd \<circ> snd) ms in drop (length all - nat (maxShortTerm e)) all)"
  using assms
proof (induction ms arbitrary: e h)
  case (Cons x ms)
  obtain t1 t2 m where x: "x = (t1, t2, m)" by (metis prod_cases3)
  from Record_window[OF Cons.prems, of t1 t2 m] Cons.prems(1) show ?case
    by (simp add: x Cons.IH[of "snd (Record t1 t2 m e)" "h @ [m]"] Let_def)
qed simp

lemma memory_entry_id: "me_ID (memory_entry t1 t2 m) \<noteq> []"
  by (simp add: memory_entry_def)

lemma RecordAll_storage:
  "mem_storage (RecordAll ms e) = zest.put_all (map (\<lambda>(t1, t2, m). memory_entry t1 t2 m) ms) (mem_storage e)"
  by (induction ms e rule: RecordAll.induct) (auto simp: Record_def Let_def split: sum.splits)

lemma show_int_inject: "in_int64 i \<Longrightarrow> in_int64 j \<Longrightarrow> show_int i = show_int j \<Longrightarrow> i = j"
  by (metis Atoi_show_int option.inject)

lemma memory_ids_distinct:
  assumes "distinct (map (UnixNano \<circ> fst) ms)"
  shows "distinct (map me_ID (map (\<lambda>(t1, t2, m). memory_entry t1 t2 m) ms))"
proof -
  have "inj_on (\<lambda>i. ''mem_'' @ show_int i) (set (map (UnixNano \<circ> fst) ms))"
    by (rule inj_onI) (auto simp: UnixNano_def dest: show_int_inject[rotated 2])
  with assms have "distinct (map (\<lambda>i. ''mem_'' @ show_int i) (map (UnixNano \<circ> fst) ms))"
    by (simp only: distinct_map)
  moreover have "map me_ID (map (\<lambda>(t1, t2, m). memory_entry t1 t2 m) ms) =
      map (\<lambda>i. ''mem_'' @ show_int i) (map (UnixNano \<circ> fst) ms)"
    by (induction ms) (auto simp: memory_entry_def)
  ultimately show ?thesis by (simp only:)
qed

section \<open>Theorems\<close>

text \<open>
  C38: after any sequence of messages the engine's window holds exactly the last ones, as many as
  it may keep, in order, and every recorded message can be fetched from the store under its id, as
  long as no two of them were recorded in the same nanosecond.
\<close>

theorem memory_keeps_history:
  assumes "0 \<le> n" and "distinct (map (UnixNano \<circ> fst) ms)" and "(t1, t2, m) \<in> set ms"
  shows "shortTermMem (RecordAll ms (NewMemoryEngine NewZestDBStorage n)) =
      drop (length ms - nat n) (map (snd \<circ> snd) ms)
    \<and> zest_Get (''mem_'' @ show_int (UnixNano t1)) (mem_storage (RecordAll ms (NewMemoryEngine NewZestDBStorage n)))
      = Inr (memory_entry t1 t2 m)"
proof -
  let ?e = "NewMemoryEngine NewZestDBStorage n"
  let ?es = "map (\<lambda>(t1, t2, m). memory_entry t1 t2 m) ms"
  have "shortTermMem (RecordAll ms ?e) = drop (length ms - nat n) (map (snd \<circ> snd) ms)"
    using RecordAll_window[of ?e "[]" ms] assms(1) by (simp add: NewMemoryEngine_def Let_def)
  moreover have "memory_entry t1 t2 m \<in> set ?es" using assms(3) by force
  then have "zest_Get (me_ID (memory_entry t1 t2 m)) (zest.put_all ?es NewZestDBStorage) = Inr (memory_entry t1 t2 m)"
    using memory_ids_distinct[OF assms(2)]
    by (intro zest.get_put_all) (auto simp: memory_entry_id NewZestDBStorage_def)
  moreover have "me_ID (memory_entry t1 t2 m) = ''mem_'' @ show_int (UnixNano t1)" by (simp add: memory_entry_def)
  moreover have "mem_storage (RecordAll ms ?e) = zest.put_all ?es NewZestDBStorage"
    by (simp add: RecordAll_storage NewMemoryEngine_def)
  ultimately show ?thesis by (simp only:)
qed

lemma memory_keeps_history_witness:
  "let m = (\<lambda>c. \<lparr>Role = ''user'', msg_Content = [c], ToolCalls = [], ToolResults = []\<rparr>);
       e = RecordAll [(unix_epoch, unix_epoch, m (CHR ''a'')), (unix_epoch + 5, unix_epoch + 6, m (CHR ''b''))]
             (NewMemoryEngine NewZestDBStorage 1)
   in shortTermMem e = [m (CHR ''b'')] \<and> zest_Get ''mem_0'' (mem_storage e) = Inr (memory_entry unix_epoch unix_epoch (m (CHR ''a'')))"
proof -
  let ?m = "\<lambda>c. \<lparr>Role = ''user'', msg_Content = [c], ToolCalls = [], ToolResults = []\<rparr>"
  let ?ms = "[(unix_epoch, unix_epoch, ?m (CHR ''a'')), (unix_epoch + 5, unix_epoch + 6, ?m (CHR ''b''))]"
  have "distinct (map (UnixNano \<circ> fst) ?ms)" by (simp add: UnixNano_def wrap64_def)
  moreover have "''mem_'' @ show_int (UnixNano unix_epoch) = ''mem_0''"
    by (simp add: UnixNano_def wrap64_def show_int_def show_nat.simps digit_def char_of_def bit_0)
  ultimately show ?thesis
    using memory_keeps_history[of 1 ?ms unix_epoch unix_epoch "?m (CHR ''a'')"] by simp
qed

end
