(* ===== verification/Llm_Routing.thy ===== *)
theory Llm_Routing
  imports Complex_Main Agent_Engine
begin

text \<open>
  Choosing and running LLM providers, \<open>core/llm\<close>: the cost, fallback and latency routers, the
  retrying provider and the orchestrator. \<open>sort.Slice\<close> is not stable, so a router works with any
  function that keeps the contract \<open>slice_sort\<close>, a permutation ordered by the key. A cost is a
  rational number; the infinities and NaN of \<open>float64\<close> are not modelled.
\<close>

section \<open>Providers\<close>

datatype Status = StatusHealthy | StatusDegraded | StatusOffline

record ModelMetadata =
  CostPer1kTokens :: rat
  LatencyMillis :: int
  CapabilityRank :: int

record 'w Provider =
  prov_Name :: string
  prov_Status :: Status
  prov_Priority :: int
  Metadata :: ModelMetadata
  prov_Execute :: "string \<Rightarrow> 'w \<Rightarrow> (string + string) \<times> 'w"

text \<open>\<open>sort.Slice\<close> with a comparison of integer or rational keys.\<close>

type_synonym ('p, 'k) slice_sorter = "('p \<Rightarrow> 'k) \<Rightarrow> 'p list \<Rightarrow> 'p list"

locale slice_sort =
  fixes srt :: "('p, 'k :: linorder) slice_sorter"
  assumes sorted_permutation: "mset (srt f xs) = mset xs"
    and sorted_by_key: "sorted (map f (srt f xs))"
begin

lemma set_srt [simp]: "set (srt f xs) = set xs"
  using sorted_permutation by (metis set_mset_mset)

lemma srt_Nil_iff [simp]: "srt f xs = [] \<longleftrightarrow> xs = []"
  using sorted_permutation by (metis mset_zero_iff)

lemma hd_srt_minimal: "x \<in> set xs \<Longrightarrow> f (srt f xs ! 0) \<le> f x"
proof -
  assume x: "x \<in> set xs"
  then obtain i where "i < length (srt f xs)" "srt f xs ! i = x" by (metis in_set_conv_nth set_srt)
  then show ?thesis using sorted_by_key[of f xs]
    by (metis bot_nat_0.extremum bot_nat_0.not_eq_extremum length_map nth_map sorted_nth_mono zero_less_iff_neq_zero less_nat_zero_code)
qed

lemma hd_srt_in: "xs \<noteq> [] \<Longrightarrow> srt f xs ! 0 \<in> set xs"
  by (metis length_greater_0_conv nth_mem set_srt srt_Nil_iff)

end

interpretation insertion: slice_sort sort_key
  by unfold_locales simp_all

section \<open>Routers\<close>

datatype route_error = NoCapableProvider | NoHealthyProvider

type_synonym 'w select = "string \<Rightarrow> route_error + 'w Provider"

record 'w CostRouter =
  cost_providers :: "'w Provider list"
  minCapability :: int

definition NewCostRouter :: "'w Provider list \<Rightarrow> int \<Rightarrow> 'w CostRouter" where
  "NewCostRouter providers minCap = \<lparr>cost_providers = providers, minCapability = minCap\<rparr>"

fun candidatesOf :: "('w Provider \<Rightarrow> bool) \<Rightarrow> 'w Provider list \<Rightarrow> 'w Provider list" where
  "candidatesOf ok [] = []"
| "candidatesOf ok (p # ps) = (if ok p then p # candidatesOf ok ps else candidatesOf ok ps)"

definition CostRouter_Select :: "('w Provider, rat) slice_sorter \<Rightarrow> 'w CostRouter \<Rightarrow> 'w select" where
  "CostRouter_Select srt r task =
     (let candidates = candidatesOf (\<lambda>p. prov_Status p = StatusHealthy \<and>
             \<not> CapabilityRank (Metadata p) < minCapability r) (cost_providers r)
      in if length candidates = 0 then Inl NoCapableProvider
         else Inr (srt (\<lambda>p. CostPer1kTokens (Metadata p)) candidates ! 0))"

text \<open>The fallback router sorts the slice of its caller in place, so the sorted list is both.\<close>

record 'w FallbackRouter =
  fallback_providers :: "'w Provider list"

definition NewFallbackRouter :: "('w Provider, int) slice_sorter \<Rightarrow> 'w Provider list \<Rightarrow> 'w FallbackRouter" where
  "NewFallbackRouter srt providers = \<lparr>fallback_providers = srt prov_Priority providers\<rparr>"

fun firstHealthy :: "'w Provider list \<Rightarrow> route_error + 'w Provider" where
  "firstHealthy [] = Inl NoHealthyProvider"
| "firstHealthy (p # ps) = (if prov_Status p = StatusHealthy then Inr p else firstHealthy ps)"

definition FallbackRouter_Select :: "'w FallbackRouter \<Rightarrow> 'w select" where
  "FallbackRouter_Select r task = firstHealthy (fallback_providers r)"

record 'w LatencyRouter =
  latency_providers :: "'w Provider list"

definition NewLatencyRouter :: "'w Provider list \<Rightarrow> 'w LatencyRouter" where
  "NewLatencyRouter providers = \<lparr>latency_providers = providers\<rparr>"

definition LatencyRouter_Select :: "('w Provider, int) slice_sorter \<Rightarrow> 'w LatencyRouter \<Rightarrow> 'w select" where
  "LatencyRouter_Select srt r task =
     (let healthy = candidatesOf (\<lambda>p. prov_Status p = StatusHealthy) (latency_providers r)
      in if length healthy = 0 then Inl NoHealthyProvider
         else Inr (srt (\<lambda>p. LatencyMillis (Metadata p)) healthy ! 0))"

lemma set_candidatesOf [simp]: "set (candidatesOf ok ps) = {p \<in> set ps. ok p}"
  by (induction ps) auto

lemma candidatesOf_Nil_iff: "candidatesOf ok ps = [] \<longleftrightarrow> (\<forall>p \<in> set ps. \<not> ok p)"
  by (induction ps) auto

text \<open>What the orchestrator expects of a router.\<close>

locale router =
  fixes select :: "'w select" and pool :: "'w Provider list"
  assumes selects_from_pool: "select task = Inr p \<Longrightarrow> p \<in> set pool"
    and selects_healthy: "select task = Inr p \<Longrightarrow> prov_Status p = StatusHealthy"
begin

lemma none_healthy: "\<forall>p \<in> set pool. prov_Status p \<noteq> StatusHealthy \<Longrightarrow> \<exists>e. select task = Inl e"
  using selects_from_pool selects_healthy by (cases "select task") blast+

end

lemma firstHealthy_dropWhile:
  "firstHealthy ps =
     (case dropWhile (\<lambda>p. prov_Status p \<noteq> StatusHealthy) ps of [] \<Rightarrow> Inl NoHealthyProvider | p # _ \<Rightarrow> Inr p)"
  by (induction ps) auto

lemma firstHealthy_Inr: "firstHealthy ps = Inr p \<Longrightarrow> p \<in> set ps \<and> prov_Status p = StatusHealthy"
  by (induction ps) (auto split: if_splits)

interpretation fallback: router "FallbackRouter_Select r" "fallback_providers r" for r
  by unfold_locales (auto simp: FallbackRouter_Select_def dest: firstHealthy_Inr)

text \<open>Of a sorted list the first healthy provider is one of the highest rank.\<close>

lemma firstHealthy_least:
  "sorted (map prov_Priority ps) \<Longrightarrow> firstHealthy ps = Inr p \<Longrightarrow> q \<in> set ps \<Longrightarrow> prov_Status q = StatusHealthy \<Longrightarrow>
   prov_Priority p \<le> prov_Priority q"
  by (induction ps) (auto split: if_splits)

lemma fallback_best:
  assumes "slice_sort srt" and "FallbackRouter_Select (NewFallbackRouter srt ps) task = Inr p"
    and "q \<in> set ps" and "prov_Status q = StatusHealthy"
  shows "prov_Priority p \<le> prov_Priority q"
  using firstHealthy_least[OF slice_sort.sorted_by_key[OF assms(1), of prov_Priority ps], of p q] assms slice_sort.set_srt[OF assms(1)]
  by (simp add: FallbackRouter_Select_def NewFallbackRouter_def)

lemma CostRouter_Inr:
  assumes "slice_sort srt" and "CostRouter_Select srt r task = Inr p"
  shows "p \<in> set (cost_providers r) \<and> prov_Status p = StatusHealthy \<and> minCapability r \<le> CapabilityRank (Metadata p) \<and>
    (\<forall>q \<in> set (cost_providers r). prov_Status q = StatusHealthy \<longrightarrow> minCapability r \<le> CapabilityRank (Metadata q)
       \<longrightarrow> CostPer1kTokens (Metadata p) \<le> CostPer1kTokens (Metadata q))"
proof -
  let ?c = "candidatesOf (\<lambda>p. prov_Status p = StatusHealthy \<and> \<not> CapabilityRank (Metadata p) < minCapability r)
    (cost_providers r)"
  have p: "?c \<noteq> []" "p = srt (\<lambda>p. CostPer1kTokens (Metadata p)) ?c ! 0"
    using assms(2) by (auto simp: CostRouter_Select_def Let_def split: if_splits)
  have "p \<in> set ?c" using slice_sort.hd_srt_in[OF assms(1) p(1)] p(2) by simp
  moreover have "CostPer1kTokens (Metadata p) \<le> CostPer1kTokens (Metadata q)" if "q \<in> set ?c" for q
    using slice_sort.hd_srt_minimal[OF assms(1) that, of "\<lambda>p. CostPer1kTokens (Metadata p)"] p(2) by simp
  ultimately show ?thesis by (auto simp: not_less)
qed

lemma LatencyRouter_Inr:
  assumes "slice_sort srt" and "LatencyRouter_Select srt r task = Inr p"
  shows "p \<in> set (latency_providers r) \<and> prov_Status p = StatusHealthy \<and>
    (\<forall>q \<in> set (latency_providers r). prov_Status q = StatusHealthy \<longrightarrow> LatencyMillis (Metadata p) \<le> LatencyMillis (Metadata q))"
proof -
  let ?c = "candidatesOf (\<lambda>p. prov_Status p = StatusHealthy) (latency_providers r)"
  have p: "?c \<noteq> []" "p = srt (\<lambda>p. LatencyMillis (Metadata p)) ?c ! 0"
    using assms(2) by (auto simp: LatencyRouter_Select_def Let_def split: if_splits)
  have "p \<in> set ?c" using slice_sort.hd_srt_in[OF assms(1) p(1)] p(2) by simp
  moreover have "LatencyMillis (Metadata p) \<le> LatencyMillis (Metadata q)" if "q \<in> set ?c" for q
    using slice_sort.hd_srt_minimal[OF assms(1) that, of "\<lambda>p. LatencyMillis (Metadata p)"] p(2) by simp
  ultimately show ?thesis by auto
qed

interpretation cost: router "CostRouter_Select sort_key r" "cost_providers r" for r
  using CostRouter_Inr[OF insertion.slice_sort_axioms] by unfold_locales blast+

interpretation latency: router "LatencyRouter_Select sort_key r" "latency_providers r" for r
  using LatencyRouter_Inr[OF insertion.slice_sort_axioms] by unfold_locales blast+

section \<open>Retrying\<close>

text \<open>
  The wait after attempt \<open>i\<close>: \<open>2 ^ i * 100\<close> milliseconds, on 64 bits. The conversion of the power
  from \<open>float64\<close> is exact below \<open>2 ^ 63\<close>.
\<close>

definition backoff :: "nat \<Rightarrow> duration" where
  "backoff i = wrap64 (wrap64 (2 ^ i * 100) * Millisecond)"

text \<open>
  The attempts from number \<open>i\<close> on, \<open>n\<close> of them left. \<open>cancelled i\<close> gives the error of the context
  if it is done before the wait of attempt \<open>i\<close> ends. The waits that were begun are recorded.
\<close>

fun retryLoop ::
    "'w Provider \<Rightarrow> (nat \<Rightarrow> string option) \<Rightarrow> string \<Rightarrow> nat \<Rightarrow> nat \<Rightarrow> string option \<Rightarrow> 'w
     \<Rightarrow> (string \<times> string option) \<times> duration list \<times> 'w" where
  "retryLoop base cancelled task i 0 lastErr w = (([], lastErr), [], w)"
| "retryLoop base cancelled task i (Suc n) lastErr w =
     (let (res, w') = prov_Execute base task w in
      case res of
        Inr out \<Rightarrow> ((out, None), [], w')
      | Inl err \<Rightarrow>
          if n = 0 then (([], Some err), [], w')
          else (case cancelled i of
                  Some ctxErr \<Rightarrow> (([], Some ctxErr), [backoff i], w')
                | None \<Rightarrow>
                    (let (r, ws, w'') = retryLoop base cancelled task (Suc i) n (Some err) w'
                     in (r, backoff i # ws, w''))))"

record 'w RetryingProvider =
  retry_base :: "'w Provider"
  maxRetries :: int

definition NewRetryingProvider :: "'w Provider \<Rightarrow> int \<Rightarrow> 'w RetryingProvider" where
  "NewRetryingProvider base retries = \<lparr>retry_base = base, maxRetries = retries\<rparr>"

definition RetryingProvider_Execute ::
    "'w RetryingProvider \<Rightarrow> (nat \<Rightarrow> string option) \<Rightarrow> string \<Rightarrow> 'w
     \<Rightarrow> (string \<times> string option) \<times> duration list \<times> 'w" where
  "RetryingProvider_Execute p cancelled task w =
     retryLoop (retry_base p) cancelled task 0 (nat (maxRetries p)) None w"

text \<open>A retrying provider is a provider again, with name, status, priority and metadata of the one it wraps.\<close>

definition retrying :: "(nat \<Rightarrow> string option) \<Rightarrow> 'w RetryingProvider \<Rightarrow> 'w Provider" where
  "retrying cancelled p = (retry_base p)\<lparr>prov_Execute := \<lambda>task w.
     (let ((out, err), waits, w') = RetryingProvider_Execute p cancelled task w
      in (case err of None \<Rightarrow> Inr out | Some e \<Rightarrow> Inl e, w'))\<rparr>"

lemma retrying_forwards [simp]:
  "prov_Name (retrying c p) = prov_Name (retry_base p)" "prov_Status (retrying c p) = prov_Status (retry_base p)"
  "prov_Priority (retrying c p) = prov_Priority (retry_base p)" "Metadata (retrying c p) = Metadata (retry_base p)"
  by (simp_all add: retrying_def)

text \<open>The world before attempt \<open>i\<close> and the outcome of the attempt, were all attempts made.\<close>

primrec world_at :: "'w Provider \<Rightarrow> string \<Rightarrow> 'w \<Rightarrow> nat \<Rightarrow> 'w" where
  "world_at p task w 0 = w"
| "world_at p task w (Suc i) = snd (prov_Execute p task (world_at p task w i))"

definition attempt :: "'w Provider \<Rightarrow> string \<Rightarrow> 'w \<Rightarrow> nat \<Rightarrow> string + string" where
  "attempt p task w i = fst (prov_Execute p task (world_at p task w i))"

lemma world_at_shift: "world_at p task (snd (prov_Execute p task w)) i = world_at p task w (Suc i)"
  by (induction i) auto

lemma attempt_shift: "attempt p task (snd (prov_Execute p task w)) i = attempt p task w (Suc i)"
  using world_at_shift[of p task w i] by (simp add: attempt_def)

lemma retryLoop_steps:
  "prov_Execute p task w = (Inr out, w') \<Longrightarrow>
     retryLoop p c task i (Suc n) e w = ((out, None), [], w')"
  "prov_Execute p task w = (Inl err, w') \<Longrightarrow>
     retryLoop p c task i (Suc 0) e w = (([], Some err), [], w')"
  "prov_Execute p task w = (Inl err, w') \<Longrightarrow> c i = None \<Longrightarrow>
     retryLoop p c task (Suc i) (Suc n) (Some err) w' = (r, ws, w'') \<Longrightarrow>
     retryLoop p c task i (Suc (Suc n)) e w = (r, backoff i # ws, w'')"
  by (simp_all only: retryLoop.simps) (simp_all add: Let_def)

declare retryLoop.simps(2) [simp del]

lemma first_attempt:
  assumes "isl (attempt p task w 0)"
  obtains err w' where "prov_Execute p task w = (Inl err, w')"
  using assms by (cases "prov_Execute p task w") (auto simp: attempt_def isl_def)

text \<open>
  Attempt \<open>k\<close> ends a loop of \<open>Suc n\<close> attempts if it is the last one, if it succeeds, or if the context is done
  before the wait after it is over. What the loop returns then, and how many waits it began.
\<close>

definition ends_retrying :: "(string + string) \<Rightarrow> string option \<Rightarrow> bool \<Rightarrow> bool" where
  "ends_retrying res ctx final \<longleftrightarrow> final \<or> \<not> isl res \<or> ctx \<noteq> None"

definition retry_answer :: "(string + string) \<Rightarrow> string option \<Rightarrow> bool \<Rightarrow> string \<times> string option" where
  "retry_answer res ctx final =
     (case res of Inr out \<Rightarrow> (out, None) | Inl err \<Rightarrow> ([], if final then Some err else ctx))"

definition retry_waits :: "(string + string) \<Rightarrow> bool \<Rightarrow> nat \<Rightarrow> nat" where
  "retry_waits res final k = (if isl res \<and> \<not> final then Suc k else k)"

lemma retryLoop_end:
  assumes "k \<le> n" and "\<forall>j<k. isl (attempt p task w j) \<and> c (i + j) = None"
    and "ends_retrying (attempt p task w k) (c (i + k)) (k = n)"
  shows "retryLoop p c task i (Suc n) e w =
    (retry_answer (attempt p task w k) (c (i + k)) (k = n),
     map backoff [i..<i + retry_waits (attempt p task w k) (k = n) k], world_at p task w (Suc k))"
  using assms
proof (induction k arbitrary: n i e w)
  case 0
  then show ?case
    by (cases "prov_Execute p task w")
      (auto simp: retryLoop.simps attempt_def ends_retrying_def retry_answer_def retry_waits_def isl_def split: sum.splits)
next
  case (Suc k)
  then obtain n' where n: "n = Suc n'" "k \<le> n'" by (cases n) auto
  have 0: "isl (attempt p task w 0)" "c i = None" using Suc.prems(2) by auto
  from 0(1) obtain err w' where r: "prov_Execute p task w = (Inl err, w')" by (rule first_attempt)
  have shift: "attempt p task w' j = attempt p task w (Suc j)" "world_at p task w' j = world_at p task w (Suc j)" for j
    using attempt_shift[of p task w j] world_at_shift[of p task w j] r by simp_all
  let ?a = "attempt p task w (Suc k)"
  have "retryLoop p c task (Suc i) (Suc n') (Some err) w' =
      (retry_answer (attempt p task w' k) (c (Suc i + k)) (k = n'),
       map backoff [Suc i..<Suc i + retry_waits (attempt p task w' k) (k = n') k], world_at p task w' (Suc k))"
    using Suc.prems n(1) by (intro Suc.IH[OF n(2)]) (auto simp: shift)
  from retryLoop_steps(3)[OF r 0(2) this[unfolded shift]]
  have "retryLoop p c task i (Suc n) e w =
      (retry_answer ?a (c (i + Suc k)) (Suc k = n),
       backoff i # map backoff [Suc i..<Suc i + retry_waits ?a (k = n') k], world_at p task w (Suc (Suc k)))"
    using n(1) by simp
  moreover have "[i..<i + retry_waits ?a (Suc k = n) (Suc k)] = i # [Suc i..<Suc i + retry_waits ?a (k = n') k]"
    using n(1) by (simp add: retry_waits_def upt_conv_Cons)
  ultimately show ?case by simp
qed

section \<open>The orchestrator\<close>

record 'w Orchestrator =
  orch_router :: "'w select"

definition NewOrchestrator :: "'w select \<Rightarrow> 'w Orchestrator" where
  "NewOrchestrator r = \<lparr>orch_router = r\<rparr>"

definition Orchestrator_Execute ::
    "'w Orchestrator \<Rightarrow> string \<Rightarrow> 'w \<Rightarrow> (route_error + (string + string)) \<times> 'w" where
  "Orchestrator_Execute orc task w =
     (case orch_router orc task of
        Inl e \<Rightarrow> (Inl e, w)
      | Inr provider \<Rightarrow> (let (r, w') = prov_Execute provider task w in (Inr r, w')))"

definition Orchestrator_GenerateWithTools ::
    "'w Orchestrator \<Rightarrow> Message list \<Rightarrow> ToolManifest list \<Rightarrow> route_error + LLMResponse" where
  "Orchestrator_GenerateWithTools orc messages manifests =
     (case orch_router orc ''tool_use_request'' of
        Inl e \<Rightarrow> Inl e
      | Inr _ \<Rightarrow> Inr \<lparr>llm_Content = ''Orchestrator tool-use initialization placeholder'',
          llm_ToolCalls = [], llm_TokenUsage = \<lparr>PromptTokens = 0, CompletionTokens = 0, TotalTokens = 0\<rparr>\<rparr>)"

text \<open>With every provider offline an orchestrator touches none of them.\<close>

lemma orchestrator_without_providers:
  assumes "\<forall>p \<in> set ps. prov_Status p \<noteq> StatusHealthy"
  shows "Orchestrator_Execute (NewOrchestrator (LatencyRouter_Select sort_key (NewLatencyRouter ps))) task w = (Inl NoHealthyProvider, w)"
    and "Orchestrator_Execute (NewOrchestrator (FallbackRouter_Select \<lparr>fallback_providers = ps\<rparr>)) task w = (Inl NoHealthyProvider, w)"
    and "Orchestrator_Execute (NewOrchestrator (CostRouter_Select sort_key (NewCostRouter ps c))) task w = (Inl NoCapableProvider, w)"
proof -
  have "firstHealthy ps = Inl NoHealthyProvider" using assms by (induction ps) auto
  moreover have "candidatesOf (\<lambda>p. prov_Status p = StatusHealthy) ps = []"
    "candidatesOf (\<lambda>p. prov_Status p = StatusHealthy \<and> \<not> CapabilityRank (Metadata p) < c) ps = []"
    using assms by (auto simp: candidatesOf_Nil_iff)
  ultimately show "Orchestrator_Execute (NewOrchestrator (LatencyRouter_Select sort_key (NewLatencyRouter ps))) task w = (Inl NoHealthyProvider, w)"
    "Orchestrator_Execute (NewOrchestrator (FallbackRouter_Select \<lparr>fallback_providers = ps\<rparr>)) task w = (Inl NoHealthyProvider, w)"
    "Orchestrator_Execute (NewOrchestrator (CostRouter_Select sort_key (NewCostRouter ps c))) task w = (Inl NoCapableProvider, w)"
    by (simp_all add: Orchestrator_Execute_def NewOrchestrator_def NewLatencyRouter_def NewCostRouter_def LatencyRouter_Select_def
        FallbackRouter_Select_def CostRouter_Select_def)
qed

section \<open>Theorems\<close>

lemma backoff_exact: "i \<le> 36 \<Longrightarrow> backoff i = 2 ^ i * 100 * Millisecond"
proof -
  assume "i \<le> 36"
  then have "(2 :: int) ^ i \<le> 2 ^ 36" by (intro power_increasing) simp_all
  then obtain x :: int where x: "2 ^ i = x" "0 < x" "x \<le> 68719476736" by simp
  then have "in_int64 (x * 100)" "in_int64 (x * 100 * Millisecond)"
    by (simp_all add: in_int64_def int64_min_def int64_max_def duration_defs)
  then show ?thesis by (simp add: backoff_def x(1))
qed

text \<open>From the 38th wait on, the product overflows: a negative wait is over at once.\<close>

lemma backoff_overflows: "backoff 37 < 0"
  by (simp add: backoff_def duration_defs wrap64_def)

text \<open>
  C39: How a retrying provider ends, for every behaviour of the provider it wraps, a context that may be done during
  any wait, and at most 37 attempts (with more, the wait leaves 64 bits). The attempt that ends it is the first that succeeds,
  is the last one allowed, or is followed by a wait in which the context is done: it returns the answer of that attempt, its error,
  or the error of the context. No attempt is made after it, and the waits begun before are of 100 ms, 200 ms, 400 ms and so on.
  With no attempt allowed the provider is not called and the empty answer is returned as a success.
\<close>

theorem retry_outcome:
  assumes "retries \<le> 37"
  shows "RetryingProvider_Execute (NewRetryingProvider p retries) ctx task w =
     (if retries \<le> 0 then (([], None), [], w)
      else
        (let k = (LEAST k. k = nat retries - 1 \<or> \<not> isl (attempt p task w k) \<or> ctx k \<noteq> None);
             wait = (\<lambda>i. 2 ^ i * 100 * Millisecond) in
         case attempt p task w k of
           Inr out \<Rightarrow> ((out, None), map wait [0..<k], world_at p task w (Suc k))
         | Inl err \<Rightarrow>
             if k = nat retries - 1 then (([], Some err), map wait [0..<k], world_at p task w (Suc k))
             else (([], ctx k), map wait [0..<Suc k], world_at p task w (Suc k))))"
proof (cases "retries \<le> 0")
  case True
  then show ?thesis by (simp add: RetryingProvider_Execute_def NewRetryingProvider_def)
next
  case False
  then obtain n where n: "nat retries = Suc n" "n \<le> 36" using assms by (cases "nat retries") auto
  define P where "P k \<longleftrightarrow> ends_retrying (attempt p task w k) (ctx k) (k = n)" for k
  define k where "k = (LEAST k. P k)"
  have "P n" by (simp add: P_def ends_retrying_def)
  then have k: "P k" "k \<le> n" unfolding k_def by (rule LeastI, rule Least_le)
  have "\<not> P j" if "j < k" for j using that not_less_Least unfolding k_def by blast
  then have "\<forall>j<k. isl (attempt p task w j) \<and> ctx (0 + j) = None" by (simp add: P_def ends_retrying_def)
  note run = retryLoop_end[OF k(2) this, unfolded add_0, OF k(1)[unfolded P_def], of None]
  have waits: "map backoff [0..<m] = map (\<lambda>i. 2 ^ i * 100 * Millisecond) [0..<m]" if "m \<le> Suc n" for m
    using that n(2) by (intro map_cong refl backoff_exact) auto
  have "retry_waits (attempt p task w k) (k = n) k \<le> Suc n" using k(2) by (simp add: retry_waits_def)
  note run = run[unfolded waits[OF this]]
  have least: "(LEAST k. k = nat retries - 1 \<or> \<not> isl (attempt p task w k) \<or> ctx k \<noteq> None) = k"
    unfolding k_def P_def ends_retrying_def n(1) by simp
  show ?thesis
    unfolding RetryingProvider_Execute_def NewRetryingProvider_def RetryingProvider.select_convs n(1) run least[unfolded n(1)] Let_def
    using False by (auto simp: retry_answer_def retry_waits_def split: sum.split)
qed

definition flaky :: "nat \<Rightarrow> nat Provider" where
  "flaky good = \<lparr>prov_Name = ''flaky'', prov_Status = StatusHealthy, prov_Priority = 1,
     Metadata = \<lparr>CostPer1kTokens = 1, LatencyMillis = 10, CapabilityRank = 5\<rparr>,
     prov_Execute = (\<lambda>task n. (if n < good then Inl ''busy'' else Inr ''done'', Suc n))\<rparr>"

lemma flaky_attempt: "attempt (flaky good) task w i = (if w + i < good then Inl ''busy'' else Inr ''done'')"
proof -
  have "world_at (flaky good) task w i = w + i" by (induction i) (auto simp: flaky_def)
  then show ?thesis by (simp add: attempt_def flaky_def)
qed

lemma retry_outcome_witness:
  "RetryingProvider_Execute (NewRetryingProvider (flaky 2) 3) (\<lambda>_. None) ''t'' 0
     = ((''done'', None), [100 * Millisecond, 200 * Millisecond], 3) \<and>
   RetryingProvider_Execute (NewRetryingProvider (flaky 2) 3) (\<lambda>i. if i = 1 then Some ''canceled'' else None) ''t'' 0
     = (([], Some ''canceled''), [100 * Millisecond, 200 * Millisecond], 2)"
proof -
  have least: "(LEAST k. k = nat 3 - 1 \<or> \<not> isl (attempt (flaky 2) ''t'' 0 k) \<or> (\<lambda>_. None :: string option) k \<noteq> None) = 2"
    "(LEAST k. k = nat 3 - 1 \<or> \<not> isl (attempt (flaky 2) ''t'' 0 k) \<or>
       (if k = 1 then Some ''canceled'' else None) \<noteq> None) = 1"
    by (rule Least_equality; auto simp: flaky_attempt split: if_splits)+
  have bound: "(3 :: int) \<le> 37" by simp
  have "world_at (flaky 2) ''t'' 0 (Suc 2) = 3" "world_at (flaky 2) ''t'' 0 (Suc 1) = 2"
    by (simp_all add: numeral_eq_Suc flaky_def)
  then show ?thesis
    unfolding retry_outcome[OF bound] Let_def least
    by (simp add: flaky_attempt upt_rec)
qed

text \<open>
  The cost router chooses, for any sort that keeps the contract of \<open>sort.Slice\<close>, a healthy
  provider of the pool that meets the capability threshold and is no dearer than any other such
  provider; it fails exactly if there is none.
\<close>

lemma cost_router_cheapest:
  assumes "slice_sort srt"
  shows "case CostRouter_Select srt r task of
      Inr p \<Rightarrow> p \<in> set (cost_providers r) \<and> prov_Status p = StatusHealthy \<and> minCapability r \<le> CapabilityRank (Metadata p) \<and>
        (\<forall>q \<in> set (cost_providers r). prov_Status q = StatusHealthy \<longrightarrow> minCapability r \<le> CapabilityRank (Metadata q)
           \<longrightarrow> CostPer1kTokens (Metadata p) \<le> CostPer1kTokens (Metadata q))
    | Inl e \<Rightarrow> (\<forall>q \<in> set (cost_providers r). prov_Status q = StatusHealthy \<longrightarrow> CapabilityRank (Metadata q) < minCapability r)"
proof (cases "CostRouter_Select srt r task")
  case (Inl e)
  then show ?thesis
    by (auto simp: CostRouter_Select_def Let_def candidatesOf_Nil_iff split: if_splits)
next
  case (Inr p)
  with CostRouter_Inr[OF assms Inr] show ?thesis by simp
qed

lemma cost_router_cheapest_witness:
  "CostRouter_Select sort_key \<lparr>cost_providers = [(flaky 1)\<lparr>prov_Status := StatusOffline\<rparr>, flaky 2], minCapability = 5\<rparr> ''t''
     = Inr (flaky 2)"
proof -
  let ?r = "\<lparr>cost_providers = [(flaky 1)\<lparr>prov_Status := StatusOffline\<rparr>, flaky 2], minCapability = 5\<rparr>"
  show ?thesis
    using cost_router_cheapest[OF insertion.slice_sort_axioms, of ?r "''t''"]
    by (cases "CostRouter_Select sort_key ?r ''t''") (auto simp: flaky_def)
qed

end
