(* ===== verification/Go_Float.thy ===== *)
theory Go_Float
  imports Complex_Main "HOL-Library.Word"
begin

text \<open>
  The floating-point numbers of Go, IEEE 754 with rounding to the nearest, ties to even: the arithmetic the vector
  store uses in \<open>float64\<close>, the conversion to \<open>float32\<close>, and the number of a \<open>float32\<close> bit pattern
  (\<open>math.Float32frombits\<close>). A number is a real, an infinity or NaN; the two zeros are one value, and so are all
  NaNs, since no comparison tells them apart. A quotient by zero takes the zero as positive.

  The lemmas give the bounds that survive rounding: a small multiple of a power of two above, and a power of two below.
\<close>

section \<open>Numbers and rounding\<close>

text \<open>The flag of an infinity is its sign, true for the negative one.\<close>

datatype gofloat = Fin real | Infinite bool | NaN

record float_format =
  precision :: nat
  min_exp :: int
  max_exp :: int

definition float64 :: float_format where
  "float64 = \<lparr>precision = 53, min_exp = -1074, max_exp = 1024\<rparr>"

definition float32 :: float_format where
  "float32 = \<lparr>precision = 24, min_exp = -149, max_exp = 128\<rparr>"

definition round_half_even :: "real \<Rightarrow> int" where
  "round_half_even x =
     (let n = \<lfloor>x\<rfloor>; r = x - of_int n in if r < 1 / 2 \<or> r = 1 / 2 \<and> even n then n else n + 1)"

text \<open>The exponent of the last place of a nonzero number in a format.\<close>

definition last_place :: "float_format \<Rightarrow> real \<Rightarrow> int" where
  "last_place F x = max (min_exp F) (\<lfloor>log 2 \<bar>x\<bar>\<rfloor> + 1 - int (precision F))"

definition float_round :: "float_format \<Rightarrow> real \<Rightarrow> gofloat" where
  "float_round F x =
     (if x = 0 then Fin 0
      else let u = 2 powi last_place F x; y = of_int (round_half_even (x / u)) * u
           in if 2 powi max_exp F \<le> \<bar>y\<bar> then Infinite (x < 0) else Fin y)"

section \<open>Arithmetic and comparison\<close>

fun fadd :: "float_format \<Rightarrow> gofloat \<Rightarrow> gofloat \<Rightarrow> gofloat" where
  "fadd F (Fin a) (Fin b) = float_round F (a + b)"
| "fadd F (Infinite s) (Infinite t) = (if s = t then Infinite s else NaN)"
| "fadd F (Infinite s) (Fin b) = Infinite s"
| "fadd F (Fin a) (Infinite t) = Infinite t"
| "fadd F _ _ = NaN"

fun fmul :: "float_format \<Rightarrow> gofloat \<Rightarrow> gofloat \<Rightarrow> gofloat" where
  "fmul F (Fin a) (Fin b) = float_round F (a * b)"
| "fmul F (Infinite s) (Infinite t) = Infinite (s \<noteq> t)"
| "fmul F (Infinite s) (Fin b) = (if b = 0 then NaN else Infinite (s \<noteq> (b < 0)))"
| "fmul F (Fin a) (Infinite t) = (if a = 0 then NaN else Infinite (t \<noteq> (a < 0)))"
| "fmul F _ _ = NaN"

fun fdiv :: "float_format \<Rightarrow> gofloat \<Rightarrow> gofloat \<Rightarrow> gofloat" where
  "fdiv F (Fin a) (Fin b) =
     (if b = 0 then if a = 0 then NaN else Infinite (a < 0) else float_round F (a / b))"
| "fdiv F (Infinite s) (Fin b) = Infinite (s \<noteq> (b < 0))"
| "fdiv F (Fin a) (Infinite t) = Fin 0"
| "fdiv F _ _ = NaN"

fun fsqrt :: "float_format \<Rightarrow> gofloat \<Rightarrow> gofloat" where
  "fsqrt F (Fin a) = (if a < 0 then NaN else float_round F (sqrt a))"
| "fsqrt F (Infinite s) = (if s then NaN else Infinite False)"
| "fsqrt F NaN = NaN"

text \<open>The conversion to another format.\<close>

fun fconv :: "float_format \<Rightarrow> gofloat \<Rightarrow> gofloat" where
  "fconv F (Fin a) = float_round F a"
| "fconv F x = x"

fun fless :: "gofloat \<Rightarrow> gofloat \<Rightarrow> bool" where
  "fless (Fin a) (Fin b) = (a < b)"
| "fless (Infinite s) (Infinite t) = (s \<and> \<not> t)"
| "fless (Infinite s) (Fin b) = s"
| "fless (Fin a) (Infinite t) = (\<not> t)"
| "fless _ _ = False"

text \<open>Without NaN the comparison is a strict weak order.\<close>

lemma fless_irrefl: "\<not> fless x x"
  by (cases x) auto

lemma fless_trans: "fless x y \<Longrightarrow> fless y z \<Longrightarrow> fless x z"
  by (cases x; cases y; cases z) auto

lemma fless_split: "fless x z \<Longrightarrow> y \<noteq> NaN \<Longrightarrow> fless x y \<or> fless y z"
  by (cases x; cases y; cases z) auto

section \<open>Bit patterns\<close>

type_synonym f32_bits = "32 word"

definition f32_exponent :: "f32_bits \<Rightarrow> nat" where
  "f32_exponent w = unat w div 2 ^ 23 mod 256"

definition f32_of_bits :: "f32_bits \<Rightarrow> gofloat" where
  "f32_of_bits w =
     (let s = 2 ^ 31 \<le> unat w; e = f32_exponent w; m = unat w mod 2 ^ 23; sgn = (if s then - 1 else 1)
      in if e = 255 then if m = 0 then Infinite s else NaN
         else if e = 0 then Fin (sgn * real m * 2 powi - 149)
         else Fin (sgn * real (2 ^ 23 + m) * 2 powi (int e - 150)))"

definition finite_f32 :: "f32_bits \<Rightarrow> bool" where
  "finite_f32 w \<longleftrightarrow> f32_exponent w \<noteq> 255"

section \<open>Bounds that survive rounding\<close>

lemma round_half_even_le: "z \<le> of_int N \<Longrightarrow> round_half_even z \<le> N"
proof -
  assume z: "z \<le> of_int N"
  show ?thesis
  proof (cases "\<lfloor>z\<rfloor> = N")
    case True
    with z have "z = of_int N" by linarith
    then show ?thesis by (simp add: round_half_even_def)
  next
    case False
    with z have "\<lfloor>z\<rfloor> + 1 \<le> N" by linarith
    then show ?thesis by (simp add: round_half_even_def Let_def)
  qed
qed

lemma round_half_even_ge: "of_int N \<le> z \<Longrightarrow> N \<le> round_half_even z"
  by (simp add: round_half_even_def Let_def le_floor_iff) linarith

lemma powi_le: "i \<le> j \<Longrightarrow> (2 :: real) powi i \<le> 2 powi j"
  by (rule power_int_increasing) simp_all

lemma powi_pos [simp]: "0 < (2 :: real) powi i"
  by simp

lemma powi_split: "i \<le> j \<Longrightarrow> (2 :: real) powi j = of_int (2 ^ nat (j - i)) * 2 powi i"
proof -
  assume "i \<le> j"
  then have "(2 :: real) powi j = 2 powi (int (nat (j - i)) + i)" by simp
  also have "\<dots> = 2 ^ nat (j - i) * 2 powi i" by (subst power_int_add) (simp_all only: power_int_of_nat, simp)
  finally show ?thesis by simp
qed

lemma last_place_cases:
  assumes "x \<noteq> 0"
  shows "last_place F x = min_exp F \<or> 2 powi (last_place F x + int (precision F) - 1) \<le> \<bar>x\<bar>"
proof -
  have "2 powr real_of_int \<lfloor>log 2 \<bar>x\<bar>\<rfloor> \<le> 2 powr log 2 \<bar>x\<bar>" by (intro powr_mono of_int_floor_le) simp
  also have "\<dots> = \<bar>x\<bar>" using assms by (intro powr_log_cancel) simp_all
  finally have "2 powi \<lfloor>log 2 \<bar>x\<bar>\<rfloor> \<le> \<bar>x\<bar>" by (simp add: powr_real_of_int')
  then show ?thesis by (auto simp: last_place_def max_def)
qed

lemma float_round_upper:
  assumes "\<bar>x\<bar> \<le> real K * 2 powi M" and "K < 2 ^ precision F" and "min_exp F \<le> M"
    and "real K * 2 powi M < 2 powi max_exp F" and "0 < precision F"
  shows "\<exists>y. float_round F x = Fin y \<and> \<bar>y\<bar> \<le> real K * 2 powi M"
proof (cases "x = 0")
  case False
  let ?j = "last_place F x" and ?n = "round_half_even (x / 2 powi last_place F x)"
  have j: "?j \<le> M"
  proof (rule ccontr)
    assume gt: "\<not> ?j \<le> M"
    then have "2 powi (?j + int (precision F) - 1) \<le> \<bar>x\<bar>"
      using last_place_cases[OF False, of F] assms(3) by auto
    moreover have "(2 :: real) powi (M + int (precision F)) \<le> 2 powi (?j + int (precision F) - 1)"
      using gt by (intro powi_le) simp
    moreover have "real K * 2 powi M < 2 ^ precision F * 2 powi M"
      using assms(2) by (intro mult_strict_right_mono) (simp_all flip: of_nat_power)
    moreover have "(2 :: real) ^ precision F * 2 powi M = 2 powi (M + int (precision F))"
      by (subst power_int_add) simp_all
    ultimately show False using assms(1) by linarith
  qed
  let ?N = "int K * 2 ^ nat (M - ?j)"
  have bound: "real K * 2 powi M = of_int ?N * 2 powi ?j" using powi_split[OF j] by simp
  have "\<bar>x / 2 powi ?j\<bar> \<le> of_int ?N" using assms(1) unfolding bound by (simp add: abs_divide divide_le_eq)
  then have "x / 2 powi ?j \<le> of_int ?N" "of_int (- ?N) \<le> x / 2 powi ?j" by linarith+
  then have "?n \<le> ?N" "- ?N \<le> ?n" using round_half_even_le round_half_even_ge by blast+
  then have "\<bar>?n\<bar> \<le> ?N" by (simp add: abs_le_iff)
  then have "\<bar>of_int ?n\<bar> \<le> (of_int ?N :: real)" by (simp only: of_int_le_iff flip: of_int_abs)
  then have "\<bar>of_int ?n * 2 powi ?j\<bar> \<le> (of_int ?N * 2 powi ?j :: real)"
    unfolding abs_mult by (intro mult_mono) simp_all
  then show ?thesis using False assms(4) unfolding bound by (simp add: float_round_def Let_def)
qed (use assms in \<open>simp add: float_round_def\<close>)

lemma float_round_lower:
  assumes "2 powi M \<le> x" and "min_exp F \<le> M" and "0 < precision F" and "float_round F x = Fin y"
  shows "2 powi M \<le> y"
proof -
  let ?j = "last_place F x" and ?n = "round_half_even (x / 2 powi last_place F x)"
  have x: "0 < x" using assms(1) by (smt (verit) powi_pos)
  then have y: "y = of_int ?n * 2 powi ?j" using assms(4) by (auto simp: float_round_def Let_def split: if_splits)
  show ?thesis
  proof (cases "?j \<le> M")
    case True
    then have "of_int (2 ^ nat (M - ?j)) \<le> x / 2 powi ?j"
      using assms(1) powi_split[OF True] by (simp add: le_divide_eq)
    then have "2 ^ nat (M - ?j) \<le> ?n" by (rule round_half_even_ge)
    then have "of_int (2 ^ nat (M - ?j)) * 2 powi ?j \<le> (of_int ?n * 2 powi ?j :: real)"
      by (intro mult_right_mono) (simp_all only: of_int_le_iff, simp)
    then show ?thesis using powi_split[OF True] y by simp
  next
    case False
    then have "2 powi (?j + int (precision F) - 1) \<le> x" using last_place_cases[of x F] x assms(2) by auto
    moreover have "(2 :: real) powi ?j \<le> 2 powi (?j + int (precision F) - 1)" using assms(3) by (intro powi_le) simp
    ultimately have "of_int 1 \<le> x / 2 powi ?j" by (simp add: le_divide_eq)
    then have "1 \<le> ?n" by (rule round_half_even_ge)
    then have "1 * 2 powi ?j \<le> (of_int ?n * 2 powi ?j :: real)" by (intro mult_right_mono) simp_all
    moreover have "(2 :: real) powi M \<le> 2 powi ?j" using False by (intro powi_le) simp
    ultimately show ?thesis using y by linarith
  qed
qed

lemma float_round_zero [simp]: "float_round F 0 = Fin 0"
  by (simp add: float_round_def)

lemma float_round_not_NaN [simp]: "float_round F x \<noteq> NaN"
  by (simp add: float_round_def Let_def)

text \<open>A finite \<open>float32\<close> is zero or of an absolute value between \<open>2 powi - 149\<close> and \<open>2 powi 128\<close>.\<close>

lemma f32_range:
  assumes "finite_f32 w"
  shows "\<exists>x. f32_of_bits w = Fin x \<and> \<bar>x\<bar> \<le> 2 powi 128 \<and> (x = 0 \<or> 2 powi - 149 \<le> \<bar>x\<bar>)"
proof -
  let ?e = "f32_exponent w" and ?m = "unat w mod 2 ^ 23"
  have m: "real ?m < 2 ^ 23" by (metis mod_less_divisor of_nat_less_iff of_nat_numeral of_nat_power zero_less_numeral zero_less_power)
  show ?thesis
  proof (cases "?e = 0")
    case True
    have "real ?m * 2 powi - 149 \<le> 2 ^ 23 * 2 powi - 149" using m by (intro mult_right_mono) simp_all
    also have "\<dots> \<le> 2 powi 128" by (simp add: power_int_minus field_simps)
    finally have "real ?m * 2 powi - 149 \<le> 2 powi 128" .
    moreover have "?m = 0 \<or> 1 * 2 powi - 149 \<le> real ?m * 2 powi - 149"
      by (cases "?m = 0") (auto intro!: mult_right_mono simp del: mult_1)
    moreover have "\<exists>c. \<bar>c\<bar> = 1 \<and> f32_of_bits w = Fin (c * (real ?m * 2 powi - 149))"
      using True by (intro exI[of _ "if 2 ^ 31 \<le> unat w then - 1 else 1"]) (simp add: f32_of_bits_def Let_def)
    ultimately show ?thesis by (auto simp: abs_mult)
  next
    case False
    have "?e < 256" by (simp add: f32_exponent_def)
    with assms False have e: "0 < ?e" "?e \<le> 254" by (auto simp: finite_f32_def)
    let ?f = "real (2 ^ 23 + ?m)" and ?p = "2 powi (int ?e - 150) :: real"
    have "?f * ?p \<le> 2 ^ 24 * 2 powi 104" using m e by (intro mult_mono powi_le) simp_all
    moreover have "1 * 2 powi - 149 \<le> ?f * ?p" using e by (intro mult_mono powi_le) simp_all
    ultimately show ?thesis using False assms by (auto simp: f32_of_bits_def finite_f32_def Let_def abs_mult)
  qed
qed

end
