(* ===== verification/Vector_Store.thy ===== *)
theory Vector_Store
  imports Llm_Routing Go_Float
begin

text \<open>
  The vector store, \<open>memory/vector_store.go\<close>: entries under their ids and nearest-neighbour queries
  by cosine similarity.

  An embedding is the list of the bit patterns of its \<open>float32\<close> values, so it may hold infinities and NaN. A
  score is computed as the code does, every operation rounded to \<open>float64\<close> and the result to \<open>float32\<close>
  (\<open>Go_Float\<close>); a product of two \<open>float32\<close> values is exact in \<open>float64\<close>, so it makes no difference whether a compiler
  fuses it with the sum. \<open>sort.Slice\<close> is any function with the contract \<open>less_sort\<close>: a permutation, in order if
  the comparison is a strict weak order on the elements, which it is not when a score is NaN.
\<close>

section \<open>The store\<close>

record VectorEntry =
  ve_ID :: string
  Embedding :: "f32_bits list"
  ve_Payload :: string
  StoredAt :: instant

record MemoryResult =
  mr_ID :: string
  mr_Payload :: string
  Score :: gofloat

record VectorStore =
  entries :: "string \<rightharpoonup> VectorEntry"

definition NewVectorStore :: VectorStore where
  "NewVectorStore = \<lparr>entries = Map.empty\<rparr>"

definition vs_Store :: "instant \<Rightarrow> string \<Rightarrow> f32_bits list \<Rightarrow> string \<Rightarrow> VectorStore \<Rightarrow> VectorStore" where
  "vs_Store now i embedding payload vs =
     vs\<lparr>entries := (entries vs)(i \<mapsto> \<lparr>ve_ID = i, Embedding = embedding, ve_Payload = payload, StoredAt = now\<rparr>)\<rparr>"

definition vs_Delete :: "string \<Rightarrow> VectorStore \<Rightarrow> bool \<times> VectorStore" where
  "vs_Delete i vs =
     (if entries vs i \<noteq> None then (True, vs\<lparr>entries := (entries vs)(i := None)\<rparr>) else (False, vs))"

definition vs_Get :: "string \<Rightarrow> VectorStore \<Rightarrow> VectorEntry option" where
  "vs_Get i vs = entries vs i"

definition vs_Len :: "VectorStore \<Rightarrow> nat" where
  "vs_Len vs = map_len (entries vs)"

definition store_wf :: "VectorStore \<Rightarrow> bool" where
  "store_wf vs \<longleftrightarrow> (\<forall>i e. entries vs i = Some e \<longrightarrow> ve_ID e = i)"

lemma store_wf_ops:
  "store_wf NewVectorStore"
  "store_wf vs \<Longrightarrow> store_wf (vs_Store now i emb p vs)"
  "store_wf vs \<Longrightarrow> vs_Delete i vs = (b, vs') \<Longrightarrow> store_wf vs'"
  by (auto simp: store_wf_def NewVectorStore_def vs_Store_def vs_Delete_def split: if_splits)

lemma vs_Get_ops:
  "vs_Get j (vs_Store now i emb p vs) =
     (if j = i then Some \<lparr>ve_ID = i, Embedding = emb, ve_Payload = p, StoredAt = now\<rparr> else vs_Get j vs)"
  "vs_Delete i vs = (b, vs') \<Longrightarrow> vs_Get j vs' = (if j = i then None else vs_Get j vs) \<and> b = (vs_Get i vs \<noteq> None)"
  by (auto simp: vs_Get_def vs_Store_def vs_Delete_def split: if_splits)

section \<open>Sorting by a comparison\<close>

type_synonym 'a less_sorter = "('a \<Rightarrow> 'a \<Rightarrow> bool) \<Rightarrow> 'a list \<Rightarrow> 'a list"

definition weak_order :: "('a \<Rightarrow> 'a \<Rightarrow> bool) \<Rightarrow> 'a set \<Rightarrow> bool" where
  "weak_order lt A \<longleftrightarrow> (\<forall>x \<in> A. \<not> lt x x) \<and> (\<forall>x \<in> A. \<forall>y \<in> A. \<forall>z \<in> A. lt x y \<longrightarrow> lt y z \<longrightarrow> lt x z)
     \<and> (\<forall>x \<in> A. \<forall>y \<in> A. \<forall>z \<in> A. lt x z \<longrightarrow> lt x y \<or> lt y z)"

lemma weak_order_subset: "weak_order lt B \<Longrightarrow> A \<subseteq> B \<Longrightarrow> weak_order lt A"
  unfolding weak_order_def by blast

lemma weak_order_asym: "weak_order lt A \<Longrightarrow> x \<in> A \<Longrightarrow> y \<in> A \<Longrightarrow> lt x y \<Longrightarrow> \<not> lt y x"
  unfolding weak_order_def by blast

lemma weak_order_split: "weak_order lt A \<Longrightarrow> x \<in> A \<Longrightarrow> y \<in> A \<Longrightarrow> z \<in> A \<Longrightarrow> lt x z \<Longrightarrow> lt x y \<or> lt y z"
  unfolding weak_order_def by blast

locale less_sort =
  fixes srt :: "'a less_sorter"
  assumes permutation: "mset (srt lt xs) = mset xs"
    and ordered: "weak_order lt (set xs) \<Longrightarrow> sorted_wrt (\<lambda>x y. \<not> lt y x) (srt lt xs)"
begin

text \<open>The first elements of a sorted list are a best choice of their number.\<close>

lemma best_choice:
  "\<exists>rest. mset xs = mset (take k (srt lt xs)) + mset rest \<and> length (take k (srt lt xs)) = min k (length xs)
     \<and> (weak_order lt (set xs) \<longrightarrow> sorted_wrt (\<lambda>x y. \<not> lt y x) (take k (srt lt xs))
         \<and> (\<forall>x \<in> set (take k (srt lt xs)). \<forall>y \<in> set rest. \<not> lt y x))"
proof -
  let ?s = "srt lt xs"
  have split: "?s = take k ?s @ drop k ?s" by simp
  have "mset xs = mset (take k ?s) + mset (drop k ?s)" using permutation[of lt xs] by (metis split mset_append)
  moreover have "length ?s = length xs" using permutation[of lt xs] by (metis size_mset)
  moreover have "sorted_wrt (\<lambda>x y. \<not> lt y x) (take k ?s @ drop k ?s)" if "weak_order lt (set xs)"
    using ordered[OF that] by simp
  ultimately show ?thesis
    by (intro exI[of _ "drop k ?s"]) (auto simp only: sorted_wrt_append length_take)
qed

end

fun insert_less :: "('a \<Rightarrow> 'a \<Rightarrow> bool) \<Rightarrow> 'a \<Rightarrow> 'a list \<Rightarrow> 'a list" where
  "insert_less lt x [] = [x]"
| "insert_less lt x (y # ys) = (if lt y x then y # insert_less lt x ys else x # y # ys)"

fun sort_less :: "'a less_sorter" where
  "sort_less lt [] = []"
| "sort_less lt (x # xs) = insert_less lt x (sort_less lt xs)"

lemma mset_insert_less [simp]: "mset (insert_less lt x ys) = add_mset x (mset ys)"
  by (induction ys) auto

lemma set_insert_less [simp]: "set (insert_less lt x ys) = insert x (set ys)"
  by (metis mset_insert_less set_mset_add_mset_insert set_mset_mset)

lemma mset_sort_less [simp]: "mset (sort_less lt xs) = mset xs"
  by (induction xs) auto

lemma insert_less_sorted:
  assumes "weak_order lt (insert x (set ys))" and "sorted_wrt (\<lambda>x y. \<not> lt y x) ys"
  shows "sorted_wrt (\<lambda>x y. \<not> lt y x) (insert_less lt x ys)"
  using assms
proof (induction ys)
  case (Cons y ys)
  have w: "weak_order lt (insert x (set ys))" by (rule weak_order_subset[OF Cons.prems(1)]) auto
  show ?case
  proof (cases "lt y x")
    case True
    then have "\<not> lt x y" by (intro weak_order_asym[OF Cons.prems(1)]) simp_all
    with Cons.IH[OF w] Cons.prems(2) True show ?thesis by simp
  next
    case False
    then have "\<not> lt z x" if z: "z \<in> set ys" for z
      using weak_order_split[OF Cons.prems(1), of z y x] Cons.prems(2) z False by auto
    with Cons.prems(2) False show ?thesis by simp
  qed
qed simp

lemma set_sort_less: "set (sort_less lt xs) = set xs"
  by (metis mset_sort_less set_mset_mset)

lemma sort_less_sorted: "weak_order lt (set xs) \<Longrightarrow> sorted_wrt (\<lambda>x y. \<not> lt y x) (sort_less lt xs)"
proof (induction xs)
  case (Cons x xs)
  have "weak_order lt (set xs)" by (rule weak_order_subset[OF Cons.prems]) auto
  then show ?case using Cons by (simp add: insert_less_sorted set_sort_less)
qed simp

interpretation insertion_less: less_sort sort_less
  by unfold_locales (simp_all add: sort_less_sorted)

section \<open>Queries\<close>

type_synonym similarity = "f32_bits list \<Rightarrow> f32_bits list \<Rightarrow> gofloat"

fun candidates :: "similarity \<Rightarrow> f32_bits list \<Rightarrow> VectorEntry list \<Rightarrow> MemoryResult list" where
  "candidates sim embedding [] = []"
| "candidates sim embedding (e # es) =
     (if length (Embedding e) \<noteq> length embedding then candidates sim embedding es
      else \<lparr>mr_ID = ve_ID e, mr_Payload = ve_Payload e, Score = sim embedding (Embedding e)\<rparr>
           # candidates sim embedding es)"

text \<open>The comparison of the sort: the greater score first.\<close>

definition scoreBefore :: "MemoryResult \<Rightarrow> MemoryResult \<Rightarrow> bool" where
  "scoreBefore r q = fless (Score q) (Score r)"

definition Query ::
    "MemoryResult less_sorter \<Rightarrow> similarity \<Rightarrow> string list \<Rightarrow> f32_bits list \<Rightarrow> int \<Rightarrow> VectorStore \<Rightarrow> MemoryResult list" where
  "Query srt sim ord embedding topK vs =
     (if topK \<le> 0 \<or> length embedding = 0 then []
      else
        (let cands = srt scoreBefore (candidates sim embedding (range_values (entries vs) ord));
             k = (if topK > int (length cands) then int (length cands) else topK)
         in take (nat k) cands))"

fun cosineLoop :: "f32_bits list \<Rightarrow> f32_bits list \<Rightarrow> gofloat \<Rightarrow> gofloat \<Rightarrow> gofloat \<Rightarrow> gofloat \<times> gofloat \<times> gofloat" where
  "cosineLoop (a # as) (b # bs) dot normA normB =
     (let ai = f32_of_bits a; bi = f32_of_bits b
      in cosineLoop as bs (fadd float64 dot (fmul float64 ai bi)) (fadd float64 normA (fmul float64 ai ai))
           (fadd float64 normB (fmul float64 bi bi)))"
| "cosineLoop _ _ dot normA normB = (dot, normA, normB)"

definition cosineSimilarity :: similarity where
  "cosineSimilarity a b =
     (let (dot, normA, normB) = cosineLoop a b (Fin 0) (Fin 0) (Fin 0)
      in if normA = Fin 0 \<or> normB = Fin 0 then Fin 0
         else fconv float32 (fdiv float64 dot (fmul float64 (fsqrt float64 normA) (fsqrt float64 normB))))"

lemma candidates_filter:
  "candidates sim emb es =
     map (\<lambda>e. \<lparr>mr_ID = ve_ID e, mr_Payload = ve_Payload e, Score = sim emb (Embedding e)\<rparr>)
       (filter (\<lambda>e. length (Embedding e) = length emb) es)"
  by (induction es) auto

lemma range_values_in_ran: "e \<in> set (range_values m ks) \<Longrightarrow> e \<in> ran m"
  by (induction ks) (auto split: option.splits intro: ranI)

lemma mset_candidates_any_order:
  assumes "range_order (entries vs) ord" and "range_order (entries vs) ord'"
  shows "mset (candidates sim emb (range_values (entries vs) ord)) =
    mset (candidates sim emb (range_values (entries vs) ord'))"
  using mset_range_values_any[OF assms] by (simp add: candidates_filter mset_filter)

section \<open>Finite embeddings have numbers as scores\<close>

text \<open>
  The sums over \<open>k\<close> finite elements: numbers below \<open>k\<close> times \<open>2 powi 256\<close>, and a norm that is not zero
  is at least the square of the least \<open>float32\<close>. A dimension of \<open>2 ^ 53\<close> would take more than the
  memory of any machine.
\<close>

definition small :: "nat \<Rightarrow> gofloat \<Rightarrow> bool" where
  "small k x \<longleftrightarrow> (\<exists>y. x = Fin y \<and> \<bar>y\<bar> \<le> real k * 2 powi 256)"

definition norm_ok :: "nat \<Rightarrow> gofloat \<Rightarrow> bool" where
  "norm_ok k x \<longleftrightarrow> small k x \<and> (x = Fin 0 \<or> (\<exists>y. x = Fin y \<and> 2 powi - 298 \<le> y))"

lemma float64_upper:
  assumes "\<bar>x\<bar> \<le> real K * 2 powi M" and "K < 2 ^ 53" and "- 1074 \<le> M" and "M \<le> 970"
  shows "\<exists>y. float_round float64 x = Fin y \<and> \<bar>y\<bar> \<le> real K * 2 powi M"
proof (rule float_round_upper[OF assms(1)])
  have "real K * 2 powi M < 2 ^ 53 * 2 powi M" using assms(2) by (intro mult_strict_right_mono) (simp_all flip: of_nat_less_iff)
  also have "\<dots> \<le> 2 ^ 53 * 2 powi 970" using assms(4) by (intro mult_left_mono powi_le) simp_all
  also have "\<dots> < 2 powi 1024" by simp
  finally show "real K * 2 powi M < 2 powi max_exp float64" by (simp add: float64_def)
qed (use assms in \<open>simp_all add: float64_def\<close>)

lemma float64_lower:
  "2 powi M \<le> x \<Longrightarrow> - 1074 \<le> M \<Longrightarrow> float_round float64 x = Fin y \<Longrightarrow> 2 powi M \<le> y"
  by (rule float_round_lower[of M x float64]) (simp_all add: float64_def)

lemma small_add:
  assumes "small k x" and "small 1 p" and "Suc k < 2 ^ 53"
  shows "small (Suc k) (fadd float64 x p)"
proof -
  obtain a b where ab: "x = Fin a" "p = Fin b" "\<bar>a\<bar> \<le> real k * 2 powi 256" "\<bar>b\<bar> \<le> 2 powi 256"
    using assms(1,2) by (auto simp: small_def)
  then have "\<bar>a + b\<bar> \<le> real (Suc k) * 2 powi 256" by (simp add: algebra_simps del: power_int_numeral)
  from float64_upper[OF this assms(3)] show ?thesis by (simp add: ab small_def)
qed

lemma small_product:
  assumes "finite_f32 v" and "finite_f32 w"
  shows "small 1 (fmul float64 (f32_of_bits v) (f32_of_bits w))"
proof -
  obtain a b where ab: "f32_of_bits v = Fin a" "f32_of_bits w = Fin b" "\<bar>a\<bar> \<le> 2 powi 128" "\<bar>b\<bar> \<le> 2 powi 128"
    using f32_range assms by blast
  have "\<bar>a * b\<bar> \<le> 2 powi 128 * 2 powi 128" unfolding abs_mult using ab(3,4) by (intro mult_mono) simp_all
  also have "\<dots> = real 1 * 2 powi 256" by simp
  finally show ?thesis using float64_upper[of "a * b" 1 256] by (simp add: ab small_def del: power_int_numeral)
qed

lemma norm_square:
  assumes "finite_f32 w"
  shows "norm_ok 1 (fmul float64 (f32_of_bits w) (f32_of_bits w))"
proof -
  obtain a where a: "f32_of_bits w = Fin a" "a = 0 \<or> 2 powi - 149 \<le> \<bar>a\<bar>" using f32_range[OF assms] by blast
  note s = small_product[OF assms assms]
  show ?thesis
  proof (cases "a = 0")
    case False
    then have "2 powi - 149 * 2 powi - 149 \<le> \<bar>a\<bar> * \<bar>a\<bar>" using a(2) by (intro mult_mono) simp_all
    moreover have "(2 :: real) powi - 149 * 2 powi - 149 = 2 powi - 298" by (subst power_int_add[symmetric]) simp_all
    ultimately have "2 powi - 298 \<le> a * a" by simp
    with s float64_lower[of "- 298" "a * a"] show ?thesis unfolding norm_ok_def small_def a(1) by auto
  qed (use s in \<open>simp add: norm_ok_def a(1)\<close>)
qed

lemma norm_add:
  assumes "norm_ok k x" and "norm_ok 1 p" and "Suc k < 2 ^ 53"
  shows "norm_ok (Suc k) (fadd float64 x p)"
proof -
  have s: "small (Suc k) (fadd float64 x p)" using assms small_add by (simp add: norm_ok_def)
  obtain a b where ab: "x = Fin a" "p = Fin b" "a = 0 \<or> 2 powi - 298 \<le> a" "b = 0 \<or> 2 powi - 298 \<le> b"
    using assms(1,2) by (auto simp: norm_ok_def small_def)
  have "0 < (2 :: real) powi - 298" by simp
  with ab consider "a + b = 0" | "2 powi - 298 \<le> a + b" by linarith
  then show ?thesis
  proof cases
    case 2
    with s float64_lower[of "- 298" "a + b"] show ?thesis unfolding norm_ok_def small_def ab(1,2) by auto
  qed (use s in \<open>simp add: norm_ok_def ab(1,2)\<close>)
qed

lemma cosineLoop_ok:
  assumes "\<forall>w \<in> set as \<union> set bs. finite_f32 w" and "small k dot" and "norm_ok k x" and "norm_ok k y"
    and "k + length as < 2 ^ 53" and "cosineLoop as bs dot x y = (d, na, nb)"
  shows "\<exists>n < 2 ^ 53. small n d \<and> norm_ok n na \<and> norm_ok n nb"
  using assms
proof (induction as bs dot x y arbitrary: k rule: cosineLoop.induct)
  case (1 a as b bs dot x y)
  have k: "Suc k < 2 ^ 53" "Suc k + length as < 2 ^ 53" and f: "finite_f32 a" "finite_f32 b"
    "\<forall>w \<in> set as \<union> set bs. finite_f32 w" using "1.prems" by simp_all
  show ?case
    by (rule "1.IH"[OF refl refl f(3) small_add[OF "1.prems"(2) small_product[OF f(1,2)] k(1)]
          norm_add[OF "1.prems"(3) norm_square[OF f(1)] k(1)] norm_add[OF "1.prems"(4) norm_square[OF f(2)] k(1)] k(2)])
      (use "1.prems"(6) in \<open>simp add: Let_def\<close>)
qed (clarsimp, blast dest: add_lessD1)+

lemma norm_root:
  assumes "norm_ok n x" and "x \<noteq> Fin 0" and "n < 2 ^ 53"
  shows "\<exists>z. fsqrt float64 x = Fin z \<and> 2 powi - 149 \<le> z \<and> z \<le> 2 powi 155"
proof -
  obtain y where y: "x = Fin y" "2 powi - 298 \<le> y" "\<bar>y\<bar> \<le> real n * 2 powi 256"
    using assms(1,2) by (auto simp: norm_ok_def small_def)
  have "real n * 2 powi 256 \<le> 2 ^ 53 * 2 powi 256" using assms(3) by (intro mult_right_mono) (simp_all flip: of_nat_le_iff)
  also have "\<dots> \<le> (2 powi 155)\<^sup>2" by simp
  finally have "sqrt y \<le> 2 powi 155" using y(3) by (intro real_le_lsqrt) auto
  moreover have low: "2 powi - 149 \<le> sqrt y"
    using y(2) by (intro real_le_rsqrt) (simp add: power_int_minus power_divide flip: power_mult)
  moreover have "0 \<le> y" using y(2) by (smt (verit) powi_pos)
  moreover from calculation have "0 \<le> sqrt y" by simp
  ultimately obtain z where "float_round float64 (sqrt y) = Fin z" "\<bar>z\<bar> \<le> 2 powi 155"
    using float64_upper[of "sqrt y" 1 155] by auto
  with float64_lower[OF low] \<open>0 \<le> y\<close> show ?thesis by (simp add: y(1))
qed

lemma cosineSimilarity_number:
  assumes "\<forall>w \<in> set as \<union> set bs. finite_f32 w" and "length as < 2 ^ 53"
  shows "cosineSimilarity as bs \<noteq> NaN"
proof -
  obtain d na nb where loop: "cosineLoop as bs (Fin 0) (Fin 0) (Fin 0) = (d, na, nb)" by (metis prod_cases3)
  have "small 0 (Fin 0)" "norm_ok 0 (Fin 0)" by (simp_all add: small_def norm_ok_def)
  from cosineLoop_ok[OF assms(1) this(1,2,2) _ loop] assms(2)
  obtain n where n: "n < 2 ^ 53" "small n d" "norm_ok n na" "norm_ok n nb" by auto
  show ?thesis
  proof (cases "na = Fin 0 \<or> nb = Fin 0")
    case False
    then obtain z z' where z: "fsqrt float64 na = Fin z" "2 powi - 149 \<le> z" "z \<le> 2 powi 155"
      "fsqrt float64 nb = Fin z'" "2 powi - 149 \<le> z'" "z' \<le> 2 powi 155"
      using norm_root n by meson
    have pos: "0 \<le> z" "0 \<le> z'" using z(2,5) by (smt (verit) powi_pos)+
    have "z * z' \<le> 2 powi 155 * 2 powi 155" using z pos by (intro mult_mono) simp_all
    also have "\<dots> = real 1 * 2 powi 310" by simp
    finally have "\<bar>z * z'\<bar> \<le> real 1 * 2 powi 310" using pos by simp
    then obtain y where y: "float_round float64 (z * z') = Fin y" using float64_upper[of "z * z'" 1 310] by auto
    have "2 powi - 149 * 2 powi - 149 \<le> z * z'" using z pos by (intro mult_mono) simp_all
    moreover have "(2 :: real) powi - 149 * 2 powi - 149 = 2 powi - 298" by (subst power_int_add[symmetric]) simp_all
    ultimately have "2 powi - 298 \<le> y" using float64_lower[OF _ _ y, of "- 298"] by simp
    then have "y \<noteq> 0" by (smt (verit) powi_pos)
    moreover obtain a where "d = Fin a" using n(2) by (auto simp: small_def)
    moreover have "fconv F (float_round G x) \<noteq> NaN" for F G x by (cases "float_round G x") (auto dest: float_round_not_NaN[THEN notE])
    ultimately show ?thesis using False by (simp add: cosineSimilarity_def loop z y)
  qed (auto simp: cosineSimilarity_def loop)
qed

lemma scores_weak_order: "\<forall>r \<in> A. Score r \<noteq> NaN \<Longrightarrow> weak_order scoreBefore A"
  using fless_irrefl fless_trans fless_split unfolding weak_order_def scoreBefore_def by blast

section \<open>Theorems\<close>

text \<open>
  C36: a query with positive \<open>topK\<close> returns \<open>topK\<close> of the entries of the query's dimension, all of
  them if there are fewer, each once. If the query and these entries hold no infinity and no NaN (and have fewer than
  \<open>2 ^ 53\<close> elements), then every computed score is a number that is not NaN, the results come best first, and no
  entry that is left out scores higher than one that is returned.
\<close>

theorem query_returns_nearest:
  assumes "less_sort srt" and "0 < topK" and "emb \<noteq> []"
  shows "\<exists>rest. mset (candidates cosineSimilarity emb (range_values (entries vs) ord))
        = mset (Query srt cosineSimilarity ord emb topK vs) + mset rest
     \<and> length (Query srt cosineSimilarity ord emb topK vs)
        = min (nat topK) (length (candidates cosineSimilarity emb (range_values (entries vs) ord)))
     \<and> (length emb < 2 ^ 53 \<and> (\<forall>w \<in> set emb. finite_f32 w) \<and>
          (\<forall>e \<in> ran (entries vs). length (Embedding e) = length emb \<longrightarrow> (\<forall>w \<in> set (Embedding e). finite_f32 w)) \<longrightarrow>
        sorted_wrt (\<lambda>r q. \<not> fless (Score r) (Score q)) (Query srt cosineSimilarity ord emb topK vs)
        \<and> (\<forall>r \<in> set (Query srt cosineSimilarity ord emb topK vs). Score r \<noteq> NaN \<and> (\<forall>q \<in> set rest. \<not> fless (Score r) (Score q))))"
proof -
  let ?c = "candidates cosineSimilarity emb (range_values (entries vs) ord)"
  let ?q = "Query srt cosineSimilarity ord emb topK vs"
  have q: "?q = take (nat topK) (srt scoreBefore ?c)"
    using assms(2,3) by (auto simp: Query_def Let_def)
  obtain rest where r: "mset ?c = mset ?q + mset rest" "length ?q = min (nat topK) (length ?c)"
    "weak_order scoreBefore (set ?c) \<longrightarrow> sorted_wrt (\<lambda>x y. \<not> scoreBefore y x) ?q
       \<and> (\<forall>x \<in> set ?q. \<forall>y \<in> set rest. \<not> scoreBefore y x)"
    using less_sort.best_choice[OF assms(1), of ?c "nat topK" scoreBefore] unfolding q by blast
  have sub: "set ?q \<subseteq> set ?c" using r(1) by (metis mset_subset_eq_add_left set_mset_mono set_mset_mset)
  have "\<forall>x \<in> set ?c. Score x \<noteq> NaN" if "length emb < 2 ^ 53" "\<forall>w \<in> set emb. finite_f32 w"
    "\<forall>e \<in> ran (entries vs). length (Embedding e) = length emb \<longrightarrow> (\<forall>w \<in> set (Embedding e). finite_f32 w)"
    using that cosineSimilarity_number[of emb] by (fastforce simp: candidates_filter dest: range_values_in_ran)
  with r sub scores_weak_order show ?thesis
    by (intro exI[of _ rest]) (auto simp: scoreBefore_def)
qed

text \<open>The bit patterns of 1 and 0.\<close>

lemma query_returns_nearest_witness:
  "let one = 0x3F800000; vs = vs_Store 1 ''b'' [0, one] ''pb'' (vs_Store 0 ''a'' [one, 0] ''pa'' NewVectorStore);
       rs = Query sort_less cosineSimilarity [''b'', ''a''] [one, 0] 5 vs
   in f32_of_bits one = Fin 1 \<and> length rs = 2 \<and> sorted_wrt (\<lambda>r q. \<not> fless (Score r) (Score q)) rs"
proof -
  have "finite_f32 0x3F800000" "finite_f32 0" "f32_of_bits 0x3F800000 = Fin 1"
    by (simp_all add: finite_f32_def f32_exponent_def f32_of_bits_def Let_def)
  then show ?thesis
    using query_returns_nearest[OF insertion_less.less_sort_axioms, of 5 "[0x3F800000, 0]"
      "vs_Store 1 ''b'' [0, 0x3F800000] ''pb'' (vs_Store 0 ''a'' [0x3F800000, 0] ''pa'' NewVectorStore)" "[''b'', ''a'']"]
    by (auto simp: Let_def vs_Store_def NewVectorStore_def ran_def split: if_splits)
qed

text \<open>
  With infinities in the embeddings the score is NaN, so such entries may come anywhere in the answer.
\<close>

lemma infinite_embedding_scores_NaN:
  "cosineSimilarity [0x7F800000] [0x7F800000] = NaN"
  by (simp add: cosineSimilarity_def f32_of_bits_def f32_exponent_def Let_def)

end
