(* ===== verification/Signed_Memory.thy ===== *)
theory Signed_Memory
  imports Vector_Store Go_Encoding
begin

text \<open>
  Queries signed by a mesh node, \<open>memory/signed_store.go\<close>: the token and its digest, signing, the
  authorised query and the request handler of the memory server.

  SHA-256, ECDSA, X.509 and the JSON decoder are parameters. An embedding travels as the 32-bit
  patterns of its \<open>float32\<close> values. The token of a request is a pointer, which is nil if the request
  has no token; the panic of dereferencing it is an error of its own, \<open>NilTokenPanic\<close>.
\<close>

section \<open>Tokens\<close>

record QueryToken =
  NodeID :: string
  IssuedAt :: int
  TopK :: int
  tok_Embedding :: "f32_bits list"
  Signature :: string

record SignedQueryRequest =
  Token :: "QueryToken option"
  CertDER :: string

record SignedQueryResponse =
  Results :: "MemoryResult list"
  resp_Error :: string

definition tokenTTL :: duration where "tokenTTL = 30 * Second"

text \<open>\<open>binary.BigEndian.PutUint64\<close> of an \<open>int64\<close> converted to \<open>uint64\<close>.\<close>

definition be64_int :: "int \<Rightarrow> string" where
  "be64_int i = be_bytes 8 (nat (i mod 18446744073709551616))"

definition digest_input :: "QueryToken \<Rightarrow> string" where
  "digest_input t =
     be64_int (int (length (NodeID t))) @ NodeID t @ be64_int (IssuedAt t) @ be64_int (TopK t)
     @ concat (map (\<lambda>v. be_bytes 4 (unat v)) (tok_Embedding t))"

definition tokenDigest :: "(string \<Rightarrow> string) \<Rightarrow> QueryToken \<Rightarrow> string" where
  "tokenDigest sha256 t = sha256 (digest_input t)"

section \<open>Certificates and keys\<close>

datatype 'k cert_key = ECDSA_key 'k | Other_cert_key

record 'k cert =
  PublicKey :: "'k cert_key"
  cert_der :: string

datatype sig_error =
    ErrTokenExpired | ParseCertError string | ErrUnknownNode string | ErrBadKey | ErrTokenInvalid
  | NoCertificate | SignError string | NilTokenPanic

record ('k, 'pool) SignedMemoryStore =
  sm_store :: VectorStore
  caPool :: 'pool

text \<open>The primitives: certificate parsing, verification for client authentication, signatures.\<close>

record ('k, 'pool, 'sk) crypto =
  parse_cert :: "string \<Rightarrow> string + 'k cert"
  verify_cert :: "'pool \<Rightarrow> 'k cert \<Rightarrow> string option"
  ecdsa_verify :: "'k \<Rightarrow> string \<Rightarrow> string \<Rightarrow> bool"
  ecdsa_sign :: "'sk \<Rightarrow> string \<Rightarrow> string + string"
  sha :: "string \<Rightarrow> string"

definition NewSignedMemoryStore :: "VectorStore \<Rightarrow> 'pool \<Rightarrow> ('k, 'pool) SignedMemoryStore" where
  "NewSignedMemoryStore store pool = \<lparr>sm_store = store, caPool = pool\<rparr>"

definition AuthorisedQuery ::
    "('k, 'pool, 'sk) crypto \<Rightarrow> MemoryResult less_sorter \<Rightarrow> similarity
     \<Rightarrow> string list \<Rightarrow> instant \<Rightarrow> SignedQueryRequest \<Rightarrow> ('k, 'pool) SignedMemoryStore
     \<Rightarrow> sig_error + MemoryResult list" where
  "AuthorisedQuery C srt sim ord now req s =
     (case Token req of
        None \<Rightarrow> Inl NilTokenPanic
      | Some token \<Rightarrow>
          if Time_Sub now (of_unix_nano (IssuedAt token)) > tokenTTL then Inl ErrTokenExpired
          else case parse_cert C (CertDER req) of
            Inl e \<Rightarrow> Inl (ParseCertError e)
          | Inr c \<Rightarrow>
              (case verify_cert C (caPool s) c of
                 Some e \<Rightarrow> Inl (ErrUnknownNode e)
               | None \<Rightarrow>
                   (case PublicKey c of
                      Other_cert_key \<Rightarrow> Inl ErrBadKey
                    | ECDSA_key ecPub \<Rightarrow>
                        if \<not> ecdsa_verify C ecPub (tokenDigest (sha C) token) (Signature token) then Inl ErrTokenInvalid
                        else Inr (Query srt sim ord (tok_Embedding token) (TopK token) (sm_store s)))))"

text \<open>The certificate of a TLS configuration: its DER chain and its private key, if it is ECDSA.\<close>

record 'sk tls_cert =
  Certificate :: "string list"
  PrivateKey :: "'sk option"

definition SignQuery ::
    "('k, 'pool, 'sk) crypto \<Rightarrow> 'sk tls_cert list \<Rightarrow> f32_bits list \<Rightarrow> int \<Rightarrow> string \<Rightarrow> instant
     \<Rightarrow> sig_error + QueryToken \<times> string" where
  "SignQuery C certs embedding topK nodeID now =
     (case certs of
        [] \<Rightarrow> Inl NoCertificate
      | c # _ \<Rightarrow>
          (case PrivateKey c of
             None \<Rightarrow> Inl ErrBadKey
           | Some ecKey \<Rightarrow>
               (let token = \<lparr>NodeID = nodeID, IssuedAt = UnixNano now, TopK = topK, tok_Embedding = embedding,
                      Signature = []\<rparr>
                in case ecdsa_sign C ecKey (tokenDigest (sha C) token) of
                     Inl e \<Rightarrow> Inl (SignError e)
                   | Inr sig \<Rightarrow> Inr (token\<lparr>Signature := sig\<rparr>, hd (Certificate c)))))"

definition sig_error_text :: "sig_error \<Rightarrow> string" where
  "sig_error_text e =
     (case e of
        ErrTokenExpired \<Rightarrow> ''signed memory: query token has expired''
      | ParseCertError t \<Rightarrow> ''signed memory: parse peer cert: '' @ t
      | ErrUnknownNode t \<Rightarrow> ''signed memory: signer node not in trusted CA pool: '' @ t
      | ErrBadKey \<Rightarrow> ''signed memory: certificate key is not ECDSA''
      | ErrTokenInvalid \<Rightarrow> ''signed memory: query token signature invalid''
      | NoCertificate \<Rightarrow> ''signed memory: no certificate in TLS config''
      | SignError t \<Rightarrow> ''signed memory: sign token: '' @ t
      | NilTokenPanic \<Rightarrow> ''runtime error: invalid memory address or nil pointer dereference'')"

text \<open>
  The answer of the server to the bytes of one connection. The encoder refuses a score that is infinite or NaN
  before it writes anything, and the error is dropped. A panic of the handler is not recovered: it ends the process.
\<close>

datatype reply = Reply SignedQueryResponse | NoReply | HandlerPanic

fun is_number :: "gofloat \<Rightarrow> bool" where
  "is_number (Fin x) = True"
| "is_number _ = False"

definition encode_reply :: "SignedQueryResponse \<Rightarrow> reply" where
  "encode_reply resp = (if list_all (\<lambda>r. is_number (Score r)) (Results resp) then Reply resp else NoReply)"

definition MemoryServer_handle ::
    "('k, 'pool, 'sk) crypto \<Rightarrow> (string \<Rightarrow> string + SignedQueryRequest) \<Rightarrow> MemoryResult less_sorter
     \<Rightarrow> similarity \<Rightarrow> string list \<Rightarrow> instant \<Rightarrow> string \<Rightarrow> ('k, 'pool) SignedMemoryStore \<Rightarrow> reply" where
  "MemoryServer_handle C decode srt sim ord now input s =
     (case decode input of
        Inl e \<Rightarrow> encode_reply \<lparr>Results = [], resp_Error = ''decode: '' @ e\<rparr>
      | Inr req \<Rightarrow>
          (case AuthorisedQuery C srt sim ord now req s of
             Inl NilTokenPanic \<Rightarrow> HandlerPanic
           | Inl e \<Rightarrow> encode_reply \<lparr>Results = [], resp_Error = sig_error_text e\<rparr>
           | Inr rs \<Rightarrow> encode_reply \<lparr>Results = rs, resp_Error = []\<rparr>))"

section \<open>The digest covers the token\<close>

definition token_range :: "QueryToken \<Rightarrow> bool" where
  "token_range t \<longleftrightarrow> in_int64 (IssuedAt t) \<and> in_int64 (TopK t) \<and> in_int64 (int (length (NodeID t)))"

lemma length_be64_int [simp]: "length (be64_int i) = 8"
  by (simp add: be64_int_def)

lemma be64_int_inject:
  assumes "in_int64 i" and "in_int64 j" and "be64_int i = be64_int j"
  shows "i = j"
proof -
  have "nat (i mod 18446744073709551616) = nat (j mod 18446744073709551616)"
    using assms(3) unfolding be64_int_def by (rule be_bytes_inject[rotated 2]) simp_all
  then have "i mod 18446744073709551616 = j mod 18446744073709551616" by (simp add: eq_nat_nat_iff)
  then have "18446744073709551616 dvd i - j" by (simp add: mod_eq_dvd_iff)
  then have "i - j = 0 \<or> 18446744073709551616 \<le> \<bar>i - j\<bar>" using dvd_imp_le_int[of "i - j"] by force
  with assms(1,2) show ?thesis
    by (auto simp: in_int64_def int64_min_def int64_max_def)
qed

lemma be4_not_Nil [simp]: "be_bytes 4 n \<noteq> []"
  by (metis length_be_bytes list.size(3) zero_neq_numeral)

lemma embedding_bytes_inject:
  "concat (map (\<lambda>v :: f32_bits. be_bytes 4 (unat v)) vs) = concat (map (\<lambda>v. be_bytes 4 (unat v)) ws) \<Longrightarrow> vs = ws"
proof (induction vs arbitrary: ws)
  case Nil
  then show ?case by (cases ws) auto
next
  case (Cons v vs)
  have len: "length (be_bytes 4 (unat x)) = 4" for x :: f32_bits by simp
  from Cons.prems obtain w ws' where ws: "ws = w # ws'"
    by (cases ws) auto
  with Cons.prems len[of v] len[of w] have "be_bytes 4 (unat v) = be_bytes 4 (unat w)"
    "concat (map (\<lambda>v. be_bytes 4 (unat v)) vs) = concat (map (\<lambda>v. be_bytes 4 (unat v)) ws')"
    by (simp_all add: append_eq_append_conv)
  moreover have "unat x < 256 ^ 4" for x :: f32_bits using unsigned_less[of x] by simp
  ultimately have "unat v = unat w" "vs = ws'" using be_bytes_inject Cons.IH by blast+
  with ws show ?case by (simp add: word_unat_eq_iff)
qed

lemma split_same_length: "a @ x = b @ y \<Longrightarrow> length a = length b \<Longrightarrow> a = b \<and> x = y"
  by simp

definition embedding_bytes :: "f32_bits list \<Rightarrow> string" where
  "embedding_bytes vs = concat (map (\<lambda>v. be_bytes 4 (unat v)) vs)"

lemma digest_input_inject:
  assumes "token_range t" and "token_range u" and "digest_input t = digest_input u"
  shows "NodeID t = NodeID u \<and> IssuedAt t = IssuedAt u \<and> TopK t = TopK u \<and> tok_Embedding t = tok_Embedding u"
proof -
  let ?rest = "\<lambda>t. be64_int (IssuedAt t) @ be64_int (TopK t) @ embedding_bytes (tok_Embedding t)"
  have "be64_int (int (length (NodeID t))) @ NodeID t @ ?rest t =
      be64_int (int (length (NodeID u))) @ NodeID u @ ?rest u"
    using assms(3) by (simp only: digest_input_def embedding_bytes_def)
  from split_same_length[OF this] have l: "be64_int (int (length (NodeID t))) = be64_int (int (length (NodeID u)))"
    and n: "NodeID t @ ?rest t = NodeID u @ ?rest u" by (simp_all only: length_be64_int)
  from l have "int (length (NodeID t)) = int (length (NodeID u))"
    using assms(1,2) by (intro be64_int_inject) (simp_all add: token_range_def)
  with split_same_length[OF n] have id: "NodeID t = NodeID u" and i: "?rest t = ?rest u" by simp_all
  from split_same_length[OF i] have issued: "be64_int (IssuedAt t) = be64_int (IssuedAt u)"
    and k: "be64_int (TopK t) @ embedding_bytes (tok_Embedding t) = be64_int (TopK u) @ embedding_bytes (tok_Embedding u)"
    by (simp_all only: length_be64_int)
  from split_same_length[OF k] have top: "be64_int (TopK t) = be64_int (TopK u)"
    and e: "embedding_bytes (tok_Embedding t) = embedding_bytes (tok_Embedding u)"
    by (simp_all only: length_be64_int)
  have "IssuedAt t = IssuedAt u" "TopK t = TopK u"
    using issued top assms(1,2) by (auto intro: be64_int_inject simp: token_range_def)
  moreover have "tok_Embedding t = tok_Embedding u"
    using e unfolding embedding_bytes_def by (rule embedding_bytes_inject)
  ultimately show ?thesis using id by simp
qed

lemma AuthorisedQuery_Inr:
  "AuthorisedQuery C srt sim ord now req s = Inr rs \<longleftrightarrow>
     (\<exists>token. Token req = Some token \<and> Time_Sub now (of_unix_nano (IssuedAt token)) \<le> tokenTTL \<and>
     (\<exists>c pub. parse_cert C (CertDER req) = Inr c \<and> verify_cert C (caPool s) c = None \<and> PublicKey c = ECDSA_key pub
        \<and> ecdsa_verify C pub (tokenDigest (sha C) token) (Signature token))
     \<and> rs = Query srt sim ord (tok_Embedding token) (TopK token) (sm_store s))"
  by (auto simp: AuthorisedQuery_def not_less split: sum.splits option.splits cert_key.splits if_splits)

lemma tokenDigest_Signature [simp]: "tokenDigest sha256 (t\<lparr>Signature := x\<rparr>) = tokenDigest sha256 t"
  by (simp add: tokenDigest_def digest_input_def)

section \<open>Theorems\<close>

text \<open>
  C13: an answered query was authorised. If the signatures a certified key verifies are only those
  of the tokens its holder signed, and SHA-256 has no collision among the tokens in play, then a
  query is answered only for a token that the holder of a key certified by the pool signed, with
  the same node, time, limit and embedding, at most thirty seconds ago.
\<close>

theorem answered_query_was_signed:
  assumes "AuthorisedQuery C srt sim ord now req s = Inr rs"
    and "\<And>c pub d sig. verify_cert C (caPool s) c = None \<Longrightarrow> PublicKey c = ECDSA_key pub \<Longrightarrow>
       ecdsa_verify C pub d sig \<Longrightarrow> d \<in> tokenDigest (sha C) ` signed_by pub"
    and "\<And>pub t token. t \<in> signed_by pub \<Longrightarrow> Token req = Some token \<Longrightarrow> token_range t \<and>
       (sha C (digest_input t) = sha C (digest_input token) \<longrightarrow> digest_input t = digest_input token)"
    and "\<And>token. Token req = Some token \<Longrightarrow> token_range token"
  shows "\<exists>token c pub. Token req = Some token \<and> parse_cert C (CertDER req) = Inr c \<and> PublicKey c = ECDSA_key pub \<and>
    (\<exists>t \<in> signed_by pub. NodeID t = NodeID token \<and> IssuedAt t = IssuedAt token \<and>
       TopK t = TopK token \<and> tok_Embedding t = tok_Embedding token) \<and>
    Time_Sub now (of_unix_nano (IssuedAt token)) \<le> tokenTTL"
proof -
  obtain token c pub where token: "Token req = Some token"
    and c: "parse_cert C (CertDER req) = Inr c" "verify_cert C (caPool s) c = None"
    "PublicKey c = ECDSA_key pub" "ecdsa_verify C pub (tokenDigest (sha C) token) (Signature token)"
    and ttl: "Time_Sub now (of_unix_nano (IssuedAt token)) \<le> tokenTTL"
    using assms(1) unfolding AuthorisedQuery_Inr by blast
  obtain t where t: "t \<in> signed_by pub" "tokenDigest (sha C) token = tokenDigest (sha C) t"
    using assms(2)[OF c(2-4)] by blast
  then have "digest_input t = digest_input token" "token_range t"
    using assms(3)[OF t(1) token] by (simp_all add: tokenDigest_def)
  from digest_input_inject[OF this(2) assms(4)[OF token] this(1)] t(1) c(1,3) ttl token show ?thesis by blast
qed

definition demo_token :: QueryToken where
  "demo_token = \<lparr>NodeID = ''node-a'', IssuedAt = 0, TopK = 3, tok_Embedding = [1], Signature = ''s''\<rparr>"

definition demo_cert :: "unit cert" where
  "demo_cert = \<lparr>PublicKey = ECDSA_key (), cert_der = ''der''\<rparr>"

text \<open>Primitives under which one token is signed, with the identity for SHA-256.\<close>

definition demo_crypto :: "(unit, unit, unit) crypto" where
  "demo_crypto = \<lparr>parse_cert = (\<lambda>_. Inr demo_cert), verify_cert = (\<lambda>_ _. None),
     ecdsa_verify = (\<lambda>_ d s. d = digest_input demo_token), ecdsa_sign = (\<lambda>_ d. Inr d),
     sha = (\<lambda>x. x)\<rparr>"

lemma demo_token_range: "token_range demo_token"
  by (simp add: token_range_def demo_token_def in_int64_def int64_min_def int64_max_def)

lemma answered_query_was_signed_witness:
  "\<exists>rs. AuthorisedQuery demo_crypto sort_less cosineSimilarity [] unix_epoch \<lparr>Token = Some demo_token, CertDER = ''der''\<rparr>
      \<lparr>sm_store = NewVectorStore, caPool = ()\<rparr> = Inr rs \<and>
     Time_Sub unix_epoch (of_unix_nano (IssuedAt demo_token)) \<le> tokenTTL"
proof -
  let ?req = "\<lparr>Token = Some demo_token, CertDER = ''der''\<rparr>" and ?s = "\<lparr>sm_store = NewVectorStore, caPool = ()\<rparr>"
  have "Time_Sub unix_epoch (of_unix_nano (IssuedAt demo_token)) \<le> tokenTTL"
    by (simp add: Time_Sub_def of_unix_nano_def demo_token_def tokenTTL_def duration_defs int64_min_def int64_max_def)
  then obtain rs where rs: "AuthorisedQuery demo_crypto sort_less cosineSimilarity [] unix_epoch ?req ?s = Inr rs"
    unfolding AuthorisedQuery_Inr by (auto simp: demo_crypto_def demo_cert_def tokenDigest_def)
  from answered_query_was_signed[OF rs, of "\<lambda>_. {demo_token}"] demo_token_range rs
  show ?thesis by (auto simp: demo_crypto_def tokenDigest_def)
qed

text \<open>
  C37: what a node signs, a store that trusts its certificate answers, within thirty seconds, with
  the nearest entries to the embedding.
\<close>

theorem signed_query_is_answered:
  assumes "SignQuery C certs embedding topK nodeID issued = Inr (token, der)"
    and "parse_cert C der = Inr c" and "verify_cert C (caPool s) c = None" and "PublicKey c = ECDSA_key pub"
    and "\<And>key d sig. certs \<noteq> [] \<Longrightarrow> PrivateKey (hd certs) = Some key \<Longrightarrow> ecdsa_sign C key d = Inr sig \<Longrightarrow> ecdsa_verify C pub d sig"
    and "in_int64 (issued - unix_epoch)" and "issued \<le> now" and "now \<le> issued + tokenTTL"
  shows "AuthorisedQuery C srt sim ord now \<lparr>Token = Some token, CertDER = der\<rparr> s
     = Inr (Query srt sim ord embedding topK (sm_store s))"
proof -
  obtain k cs key sig where k: "certs = k # cs" "PrivateKey k = Some key"
    and token: "token = \<lparr>NodeID = nodeID, IssuedAt = UnixNano issued, TopK = topK, tok_Embedding = embedding, Signature = sig\<rparr>"
    and sig: "ecdsa_sign C key (tokenDigest (sha C) \<lparr>NodeID = nodeID, IssuedAt = UnixNano issued, TopK = topK,
        tok_Embedding = embedding, Signature = []\<rparr>) = Inr sig"
    using assms(1) by (auto simp: SignQuery_def Let_def split: list.splits option.splits sum.splits)
  have "tokenDigest (sha C) token = tokenDigest (sha C) \<lparr>NodeID = nodeID, IssuedAt = UnixNano issued, TopK = topK,
        tok_Embedding = embedding, Signature = []\<rparr>"
    by (simp add: token tokenDigest_def digest_input_def)
  with sig assms(5)[of key] k have "ecdsa_verify C pub (tokenDigest (sha C) token) (Signature token)"
    by (simp add: token)
  moreover have "of_unix_nano (IssuedAt token) = issued"
    using assms(6) by (simp add: token of_unix_nano_def UnixNano_def)
  then have "Time_Sub now (of_unix_nano (IssuedAt token)) \<le> tokenTTL"
    using assms(7,8) by (simp add: Time_Sub_def tokenTTL_def duration_defs int64_min_def)
  ultimately show ?thesis
    using assms(2-4) unfolding AuthorisedQuery_Inr by (simp add: token)
qed

definition signing_crypto :: "(unit, unit, unit) crypto" where
  "signing_crypto = demo_crypto\<lparr>ecdsa_verify := (\<lambda>_ d s. s = d)\<rparr>"

lemma signed_query_is_answered_witness:
  "\<exists>token der. SignQuery signing_crypto [\<lparr>Certificate = [''der''], PrivateKey = Some ()\<rparr>] [1] 3 ''node-a'' unix_epoch
      = Inr (token, der) \<and>
     AuthorisedQuery signing_crypto sort_less cosineSimilarity [] (unix_epoch + 5 * Second) \<lparr>Token = Some token, CertDER = der\<rparr>
       \<lparr>sm_store = NewVectorStore, caPool = ()\<rparr>
     = Inr (Query sort_less cosineSimilarity [] [1] 3 NewVectorStore)"
proof -
  obtain token der where t: "SignQuery signing_crypto [\<lparr>Certificate = [''der''], PrivateKey = Some ()\<rparr>] [1] 3 ''node-a'' unix_epoch
      = Inr (token, der)"
    by (simp add: SignQuery_def signing_crypto_def demo_crypto_def Let_def)
  have "AuthorisedQuery signing_crypto sort_less cosineSimilarity [] (unix_epoch + 5 * Second) \<lparr>Token = Some token, CertDER = der\<rparr>
       \<lparr>sm_store = NewVectorStore, caPool = ()\<rparr>
     = Inr (Query sort_less cosineSimilarity [] [1] 3 (sm_store \<lparr>sm_store = NewVectorStore, caPool = ()\<rparr>))"
    by (rule signed_query_is_answered[OF t, where c = demo_cert and pub = "()"])
      (simp_all add: signing_crypto_def demo_crypto_def demo_cert_def in_int64_def int64_min_def int64_max_def
        tokenTTL_def duration_defs)
  with t show ?thesis by simp
qed

text \<open>A request without a token ends the process of the server, for everyone.\<close>

lemma tokenless_request_panics:
  "decode input = Inr req \<Longrightarrow> Token req = None \<Longrightarrow> MemoryServer_handle C decode srt sim ord now input s = HandlerPanic"
  by (simp add: MemoryServer_handle_def AuthorisedQuery_def)

text \<open>A token from the future never expires: the age of such a token is negative.\<close>

lemma future_token_is_fresh: "now < of_unix_nano (IssuedAt t) \<Longrightarrow> \<not> tokenTTL < Time_Sub now (of_unix_nano (IssuedAt t))"
  by (simp add: Time_Sub_def tokenTTL_def duration_defs int64_min_def int64_max_def)

end
