(* ===== verification/Mesh.thy ===== *)
theory Mesh
  imports Go_Time Go_Json
begin

text \<open>
  The mesh between nodes: UDP peer discovery (\<open>core/mesh_discovery.go\<close>), the passing of tasks to a
  peer (\<open>core/mesh_propagation.go\<close>), and the event log and deadlines of distributed tasks
  (\<open>core/mesh_timeout.go\<close>). Sockets and TLS are parameters, and so are the JSON decoders, which
  \<open>Mesh_Wire\<close> gives.
\<close>

section \<open>Peer discovery\<close>

definition meshDiscoveryPort :: nat where "meshDiscoveryPort = 7946"
definition meshBroadcastInterval :: duration where "meshBroadcastInterval = 5 * Second"
definition meshPeerTimeout :: duration where "meshPeerTimeout = 15 * Second"
definition maxBeaconSize :: nat where "maxBeaconSize = 512"

record PeerBeacon =
  beacon_NodeID :: string
  beacon_GRPCAddr :: string
  beacon_Version :: string
  beacon_Timestamp :: int

record Peer =
  peer_NodeID :: string
  GRPCAddr :: string
  peer_Version :: string
  LastSeen :: instant

record MeshDiscovery =
  beacon :: PeerBeacon
  peers :: "string \<rightharpoonup> Peer"
  mesh_quit :: bool
  mesh_stopped :: bool
  mesh_running :: bool

definition NewMeshDiscovery :: "string \<Rightarrow> string \<Rightarrow> string \<Rightarrow> MeshDiscovery" where
  "NewMeshDiscovery nodeID grpcAddr version =
     \<lparr>beacon = \<lparr>beacon_NodeID = nodeID, beacon_GRPCAddr = grpcAddr, beacon_Version = version, beacon_Timestamp = 0\<rparr>,
      peers = Map.empty, mesh_quit = False, mesh_stopped = False, mesh_running = False\<rparr>"

datatype mesh_error = ErrMeshAlreadyRunning | BindFailed string

text \<open>\<open>bind\<close> is the result of opening the listener; on success the two loops are spawned.\<close>

definition mesh_Start :: "string option \<Rightarrow> MeshDiscovery \<Rightarrow> mesh_error option \<times> MeshDiscovery" where
  "mesh_Start bind m =
     (if mesh_running m then (Some ErrMeshAlreadyRunning, m)
      else
        (let m' = m\<lparr>mesh_running := True\<rparr>
         in case bind of Some e \<Rightarrow> (Some (BindFailed e), m') | None \<Rightarrow> (None, m')))"

definition mesh_Stop :: "MeshDiscovery \<Rightarrow> MeshDiscovery" where
  "mesh_Stop m =
     (if mesh_stopped m then m else m\<lparr>mesh_stopped := True, mesh_quit := True, mesh_running := False\<rparr>)"

definition mesh_Peers :: "MeshDiscovery \<Rightarrow> string list \<Rightarrow> Peer list" where
  "mesh_Peers m ord = range_values (peers m) ord"

definition upsertPeer :: "instant \<Rightarrow> PeerBeacon \<Rightarrow> MeshDiscovery \<Rightarrow> MeshDiscovery" where
  "upsertPeer now b m =
     (if beacon_NodeID b = beacon_NodeID (beacon m) then m
      else
        (let fresh = \<lparr>peer_NodeID = beacon_NodeID b, GRPCAddr = beacon_GRPCAddr b,
               peer_Version = beacon_Version b, LastSeen = now\<rparr>
         in case peers m (beacon_NodeID b) of
              None \<Rightarrow> m\<lparr>peers := (peers m)(beacon_NodeID b \<mapsto> fresh)\<rparr>
            | Some existing \<Rightarrow>
                if GRPCAddr existing \<noteq> beacon_GRPCAddr b then m\<lparr>peers := (peers m)(beacon_NodeID b \<mapsto> fresh)\<rparr>
                else m\<lparr>peers := (peers m)(beacon_NodeID b \<mapsto> existing\<lparr>LastSeen := now\<rparr>)\<rparr>))"

text \<open>One datagram: the buffer takes its first 512 bytes, and what does not decode is dropped.\<close>

definition receiveBeacon :: "(string \<Rightarrow> PeerBeacon option) \<Rightarrow> instant \<Rightarrow> string \<Rightarrow> MeshDiscovery \<Rightarrow> MeshDiscovery" where
  "receiveBeacon unmarshal now datagram m =
     (case unmarshal (take maxBeaconSize datagram) of None \<Rightarrow> m | Some b \<Rightarrow> upsertPeer now b m)"

text \<open>Whether the listen loop ends on a read error.\<close>

definition handleReadError :: "bool \<Rightarrow> MeshDiscovery \<Rightarrow> bool" where
  "handleReadError is_timeout m = (if is_timeout then False else mesh_quit m)"

fun evictPeers :: "instant \<Rightarrow> string list \<Rightarrow> (string \<rightharpoonup> Peer) \<Rightarrow> (string \<rightharpoonup> Peer)" where
  "evictPeers cutoff [] ps = ps"
| "evictPeers cutoff (i # is) ps =
     (case ps i of
        None \<Rightarrow> evictPeers cutoff is ps
      | Some p \<Rightarrow> if LastSeen p < cutoff then evictPeers cutoff is (ps(i := None)) else evictPeers cutoff is ps)"

definition evictStalePeers :: "instant \<Rightarrow> string list \<Rightarrow> MeshDiscovery \<Rightarrow> MeshDiscovery" where
  "evictStalePeers now ord m = m\<lparr>peers := evictPeers (now - meshPeerTimeout) ord (peers m)\<rparr>"

text \<open>The beacon a node sends, stamped with the seconds of the clock.\<close>

definition stampBeacon :: "instant \<Rightarrow> MeshDiscovery \<Rightarrow> MeshDiscovery" where
  "stampBeacon now m = m\<lparr>beacon := (beacon m)\<lparr>beacon_Timestamp := Unix_seconds now\<rparr>\<rparr>"

definition beacon_json :: "PeerBeacon \<Rightarrow> string" where
  "beacon_json b = json_write (JObj [(''node_id'', JStr (beacon_NodeID b)), (''grpc_addr'', JStr (beacon_GRPCAddr b)),
     (''version'', JStr (beacon_Version b)), (''ts'', JInt (beacon_Timestamp b))])"

text \<open>One tick of the announce loop: broadcast, then evict. The datagram is returned.\<close>

definition announceTick :: "instant \<Rightarrow> string list \<Rightarrow> MeshDiscovery \<Rightarrow> string \<times> MeshDiscovery" where
  "announceTick now ord m =
     (let m' = stampBeacon now m in (beacon_json (beacon m'), evictStalePeers now ord m'))"

text \<open>A history of beacons and ticks, each with its time; a tick ranges over the peers it finds.\<close>

datatype mesh_event = Heard PeerBeacon | Ticked

fun mesh_run :: "(instant \<times> mesh_event) list \<Rightarrow> (MeshDiscovery \<Rightarrow> string list) \<Rightarrow> MeshDiscovery \<Rightarrow> MeshDiscovery" where
  "mesh_run [] ord m = m"
| "mesh_run ((now, Heard b) # es) ord m = mesh_run es ord (upsertPeer now b m)"
| "mesh_run ((now, Ticked) # es) ord m = mesh_run es ord (snd (announceTick now (ord m) m))"

lemma evictPeers_map:
  "distinct is \<Longrightarrow> evictPeers cutoff is ps =
     (\<lambda>i. case ps i of None \<Rightarrow> None | Some p \<Rightarrow> if i \<in> set is \<and> LastSeen p < cutoff then None else Some p)"
proof (induction "is" arbitrary: ps)
  case (Cons i "is")
  then show ?case by (cases "ps i") (auto simp: fun_eq_iff split: option.splits)
qed (auto simp: fun_eq_iff split: option.splits)

lemma evictStalePeers_peers:
  assumes "range_order (peers m) ord"
  shows "peers (evictStalePeers now ord m) i =
     (case peers m i of None \<Rightarrow> None | Some p \<Rightarrow> if LastSeen p < now - meshPeerTimeout then None else Some p)"
  using assms by (auto simp: evictStalePeers_def evictPeers_map range_order_def domIff split: option.splits)

text \<open>The last time a node was heard in a history.\<close>

fun last_heard :: "string \<Rightarrow> (instant \<times> mesh_event) list \<Rightarrow> instant option" where
  "last_heard i [] = None"
| "last_heard i ((t, Heard b) # es) =
     (case last_heard i es of Some u \<Rightarrow> Some u | None \<Rightarrow> if beacon_NodeID b = i then Some t else None)"
| "last_heard i ((t, Ticked) # es) = last_heard i es"

text \<open>What is known of a peer: it is itself, not this node, and was last heard when it says.\<close>

definition mesh_inv :: "(instant \<times> mesh_event) list \<Rightarrow> instant \<Rightarrow> MeshDiscovery \<Rightarrow> bool" where
  "mesh_inv h now m \<longleftrightarrow>
     (\<forall>i p. peers m i = Some p \<longrightarrow> peer_NodeID p = i \<and> i \<noteq> beacon_NodeID (beacon m) \<and> last_heard i h = Some (LastSeen p)) \<and>
     (\<forall>i t. i \<noteq> beacon_NodeID (beacon m) \<longrightarrow> last_heard i h = Some t \<longrightarrow> peers m i = None \<longrightarrow> t < now - meshPeerTimeout)"

lemma last_heard_snoc:
  "last_heard i (h @ [(t, Heard b)]) = (if beacon_NodeID b = i then Some t else last_heard i h)"
  "last_heard i (h @ [(t, Ticked)]) = last_heard i h"
  by (induction i h rule: last_heard.induct) (auto split: option.splits)

lemma mesh_inv_mono: "mesh_inv h now m \<Longrightarrow> now \<le> now' \<Longrightarrow> mesh_inv h now' m"
  unfolding mesh_inv_def by force

lemma upsertPeer_frame [frame_simps]: "beacon (upsertPeer now b m) = beacon m"
  by (simp add: upsertPeer_def Let_def split: option.splits)

lemma upsertPeer_peers:
  "peers (upsertPeer now b m) i =
     (if i = beacon_NodeID b \<and> i \<noteq> beacon_NodeID (beacon m) then
        Some (case peers m i of
                Some p \<Rightarrow> if GRPCAddr p = beacon_GRPCAddr b then p\<lparr>LastSeen := now\<rparr>
                  else \<lparr>peer_NodeID = i, GRPCAddr = beacon_GRPCAddr b, peer_Version = beacon_Version b, LastSeen = now\<rparr>
              | None \<Rightarrow> \<lparr>peer_NodeID = i, GRPCAddr = beacon_GRPCAddr b, peer_Version = beacon_Version b, LastSeen = now\<rparr>)
      else peers m i)"
  by (auto simp: upsertPeer_def Let_def split: option.splits)

lemma mesh_inv_upsert:
  assumes "mesh_inv h now m"
  shows "mesh_inv (h @ [(now, Heard b)]) now (upsertPeer now b m)"
proof -
  have known: "peers m i = Some p \<Longrightarrow> peer_NodeID p = i \<and> i \<noteq> beacon_NodeID (beacon m) \<and> last_heard i h = Some (LastSeen p)"
    and gone: "i \<noteq> beacon_NodeID (beacon m) \<Longrightarrow> last_heard i h = Some t \<Longrightarrow> peers m i = None \<Longrightarrow> t < now - meshPeerTimeout" for i p t
    using assms unfolding mesh_inv_def by blast+
  show ?thesis
    unfolding mesh_inv_def upsertPeer_peers last_heard_snoc frame_simps
    by (auto split: option.splits if_splits dest: known gone)
qed

lemma mesh_inv_tick:
  assumes "mesh_inv h now m" and "range_order (peers m) ord"
  shows "mesh_inv (h @ [(now, Ticked)]) now (snd (announceTick now ord m))"
    and "peers (snd (announceTick now ord m)) i \<noteq> None \<longleftrightarrow>
      i \<noteq> beacon_NodeID (beacon m) \<and> (\<exists>t. last_heard i h = Some t \<and> now - meshPeerTimeout \<le> t)"
proof -
  have known: "peers m i = Some p \<Longrightarrow> peer_NodeID p = i \<and> i \<noteq> beacon_NodeID (beacon m) \<and> last_heard i h = Some (LastSeen p)"
    and gone: "i \<noteq> beacon_NodeID (beacon m) \<Longrightarrow> last_heard i h = Some t \<Longrightarrow> peers m i = None \<Longrightarrow> t < now - meshPeerTimeout" for i p t
    using assms(1) unfolding mesh_inv_def by blast+
  have ps: "peers (snd (announceTick now ord m)) i =
     (case peers m i of None \<Rightarrow> None | Some p \<Rightarrow> if LastSeen p < now - meshPeerTimeout then None else Some p)" for i
    using evictStalePeers_peers[of "stampBeacon now m" ord now i] assms(2)
    by (simp add: announceTick_def Let_def stampBeacon_def)
  have b: "beacon_NodeID (beacon (snd (announceTick now ord m))) = beacon_NodeID (beacon m)"
    by (simp add: announceTick_def Let_def stampBeacon_def evictStalePeers_def)
  show "mesh_inv (h @ [(now, Ticked)]) now (snd (announceTick now ord m))"
    unfolding mesh_inv_def ps b last_heard_snoc
    by (auto split: option.splits if_splits dest: known gone)
  show "peers (snd (announceTick now ord m)) i \<noteq> None \<longleftrightarrow>
      i \<noteq> beacon_NodeID (beacon m) \<and> (\<exists>t. last_heard i h = Some t \<and> now - meshPeerTimeout \<le> t)"
    unfolding ps using known[of i] gone[of i] by (cases "peers m i") (force simp: not_less)+
qed

definition well_ordered :: "(MeshDiscovery \<Rightarrow> string list) \<Rightarrow> bool" where
  "well_ordered ord \<longleftrightarrow> (\<forall>m. finite (dom (peers m)) \<longrightarrow> range_order (peers m) (ord m))"

lemma mesh_run_inv:
  assumes "sorted (map fst es)" and "\<forall>e \<in> set es. now \<le> fst e" and "mesh_inv h now m"
    and "finite (dom (peers m))" and "well_ordered ord"
  shows "\<exists>now'. (es = [] \<longrightarrow> now' = now) \<and> (es \<noteq> [] \<longrightarrow> now' = fst (last es)) \<and>
    mesh_inv (h @ es) now' (mesh_run es ord m) \<and> finite (dom (peers (mesh_run es ord m)))
    \<and> beacon_NodeID (beacon (mesh_run es ord m)) = beacon_NodeID (beacon m)"
  using assms(1-4)
proof (induction es arbitrary: h now m)
  case (Cons e es)
  obtain t ev where e: "e = (t, ev)" by force
  have inv: "mesh_inv h t m" using Cons.prems e by (auto intro: mesh_inv_mono)
  define m' where "m' = mesh_run [e] ord m"
  have run: "mesh_run (e # es) ord m = mesh_run es ord m'" using e by (cases ev) (simp_all add: m'_def)
  have "mesh_inv (h @ [e]) t m' \<and> finite (dom (peers m')) \<and> beacon_NodeID (beacon m') = beacon_NodeID (beacon m)"
  proof (cases ev)
    case (Heard b)
    have "dom (peers (upsertPeer t b m)) \<subseteq> insert (beacon_NodeID b) (dom (peers m))"
      by (auto simp: upsertPeer_peers split: if_splits)
    then have "finite (dom (peers (upsertPeer t b m)))" using Cons.prems(4) finite_subset by blast
    with mesh_inv_upsert[OF inv] e Heard show ?thesis by (simp add: m'_def frame_simps)
  next
    case Ticked
    have ro: "range_order (peers m) (ord m)" using assms(5) Cons.prems(4) by (simp add: well_ordered_def)
    have "dom (peers (snd (announceTick t (ord m) m))) \<subseteq> dom (peers m)"
      using mesh_inv_tick(2)[OF inv ro] evictStalePeers_peers[of "stampBeacon t m" "ord m" t] ro
      by (auto simp: announceTick_def Let_def stampBeacon_def split: option.splits if_splits)
    then have "finite (dom (peers (snd (announceTick t (ord m) m))))" using Cons.prems(4) finite_subset by blast
    with mesh_inv_tick(1)[OF inv ro] e Ticked show ?thesis
      by (simp add: m'_def) (simp add: announceTick_def Let_def stampBeacon_def evictStalePeers_def)
  qed
  with Cons.IH[of t "h @ [e]" m'] Cons.prems e run show ?case by (cases "es = []") auto
qed simp

definition live_at :: "instant \<Rightarrow> string \<Rightarrow> (instant \<times> mesh_event) list \<Rightarrow> bool" where
  "live_at now i h \<longleftrightarrow> (\<exists>t. last_heard i h = Some t \<and> now - meshPeerTimeout \<le> t)"

lemma mesh_run_snoc: "mesh_run (es @ [e]) ord m = mesh_run [e] ord (mesh_run es ord m)"
  by (induction es ord m rule: mesh_run.induct) (auto)

text \<open>
  C17: What discovery promises, over any history of beacons and ticks in the order of their times:
  after a tick, the peer list holds exactly the other nodes whose last beacon is at most 15 seconds
  old (a beacon that is exactly 15 seconds old still counts), each once, under its own identity and
  with the time it was last heard; the node never lists itself.
\<close>

theorem peers_are_the_nodes_heard:
  assumes "sorted (map fst (es @ [(now, Ticked)]))" and "well_ordered ord"
    and "m = mesh_run (es @ [(now, Ticked)]) ord (NewMeshDiscovery self addr version)"
    and "range_order (peers m) listed"
  shows "set (map peer_NodeID (mesh_Peers m listed)) = {i. i \<noteq> self \<and> live_at now i es}
     \<and> distinct (map peer_NodeID (mesh_Peers m listed))
     \<and> (\<forall>p \<in> set (mesh_Peers m listed). last_heard (peer_NodeID p) es = Some (LastSeen p))"
proof -
  define m0 where "m0 = NewMeshDiscovery self addr version"
  define m1 where "m1 = mesh_run es ord m0"
  define t where "t = (if es = [] then now else fst (hd es))"
  have s: "sorted (map fst es)" and le: "\<forall>e \<in> set es. fst e \<le> now"
    using assms(1) by (auto simp: sorted_append)
  have tle: "\<forall>e \<in> set es. t \<le> fst e" using s by (cases es) (auto simp: t_def)
  have init: "mesh_inv [] t m0" "finite (dom (peers m0))" "beacon_NodeID (beacon m0) = self"
    by (simp_all add: m0_def NewMeshDiscovery_def mesh_inv_def)
  obtain now' where r: "es = [] \<longrightarrow> now' = t" "es \<noteq> [] \<longrightarrow> now' = fst (last es)" "mesh_inv ([] @ es) now' m1"
      "finite (dom (peers m1))" "beacon_NodeID (beacon m1) = self"
    using mesh_run_inv[OF s tle init(1,2) assms(2)] init(3) unfolding m1_def by blast
  have "now' \<le> now" using r(1,2) le by (cases "es = []") (auto simp: t_def)
  then have inv: "mesh_inv es now m1" using r(3) mesh_inv_mono by simp
  have ro: "range_order (peers m1) (ord m1)" using assms(2) r(4) by (simp add: well_ordered_def)
  have m: "m = snd (announceTick now (ord m1) m1)"
    using assms(3) by (simp add: mesh_run_snoc m1_def m0_def)
  have b: "beacon_NodeID (beacon m) = self"
    using r(5) by (simp add: m announceTick_def Let_def stampBeacon_def evictStalePeers_def)
  have inv': "mesh_inv (es @ [(now, Ticked)]) now m" unfolding m by (rule mesh_inv_tick(1)[OF inv ro])
  have known: "peers m i = Some p \<Longrightarrow> peer_NodeID p = i \<and> last_heard i es = Some (LastSeen p)" for i p
    using inv' unfolding mesh_inv_def last_heard_snoc by blast
  have live: "peers m i \<noteq> None \<longleftrightarrow> i \<noteq> self \<and> live_at now i es" for i
    unfolding m live_at_def r(5)[symmetric] by (rule mesh_inv_tick(2)[OF inv ro])
  have ids: "map peer_NodeID (mesh_Peers m listed) = listed"
  proof -
    have "\<forall>i \<in> set listed. peers m i \<noteq> None" using assms(4) by (auto simp: range_order_def)
    then show ?thesis unfolding mesh_Peers_def by (induction listed) (auto simp: known)
  qed
  have "set listed = {i. i \<noteq> self \<and> live_at now i es}"
    using assms(4) live by (auto simp: range_order_def)
  moreover have "\<forall>p \<in> set (mesh_Peers m listed). last_heard (peer_NodeID p) es = Some (LastSeen p)"
    using assms(4) known by (auto simp: mesh_Peers_def range_order_def set_range_values ran_def)
  ultimately show ?thesis using assms(4) ids by (simp add: range_order_def)
qed

lemma well_ordered_ex: "\<exists>ord. well_ordered ord"
proof -
  have "\<forall>m. \<exists>l. finite (dom (peers (m :: MeshDiscovery))) \<longrightarrow> range_order (peers m) l"
    using finite_distinct_list unfolding range_order_def by metis
  then show ?thesis unfolding well_ordered_def by (rule choice)
qed

lemma peers_are_the_nodes_heard_witness:
  "\<exists>ord. peer_NodeID ` set (mesh_Peers
       (mesh_run [(0, Heard \<lparr>beacon_NodeID = ''b'', beacon_GRPCAddr = ''h:1'', beacon_Version = ''1'', beacon_Timestamp = 0\<rparr>),
          (20 * Second, Heard \<lparr>beacon_NodeID = ''c'', beacon_GRPCAddr = ''h:2'', beacon_Version = ''1'', beacon_Timestamp = 0\<rparr>),
          (25 * Second, Ticked)] ord (NewMeshDiscovery ''a'' ''h:0'' ''1'')) [''c'']) = {''c''}"
proof -
  obtain ord where ord: "well_ordered ord" using well_ordered_ex by blast
  let ?es = "[(0, Heard \<lparr>beacon_NodeID = ''b'', beacon_GRPCAddr = ''h:1'', beacon_Version = ''1'', beacon_Timestamp = 0\<rparr>),
    (20 * Second, Heard \<lparr>beacon_NodeID = ''c'', beacon_GRPCAddr = ''h:2'', beacon_Version = ''1'', beacon_Timestamp = 0\<rparr>)]"
  let ?m1 = "mesh_run ?es ord (NewMeshDiscovery ''a'' ''h:0'' ''1'')"
  let ?m = "mesh_run (?es @ [(25 * Second, Ticked)]) ord (NewMeshDiscovery ''a'' ''h:0'' ''1'')"
  have s: "sorted (map fst (?es @ [(25 * Second, Ticked)]))" by (simp add: Second_def)
  have d1: "dom (peers ?m1) = {''b'', ''c''}"
    by (auto simp: NewMeshDiscovery_def upsertPeer_def Let_def split: if_splits)
  have "finite (dom (peers ?m1))" by (simp only: d1) simp
  with ord have ro: "range_order (peers ?m1) (ord ?m1)" unfolding well_ordered_def by blast
  have "dom (peers ?m) = {''c''}"
    using evictStalePeers_peers[of "stampBeacon (25 * Second) ?m1" "ord ?m1" "25 * Second"] ro
    by (auto simp: announceTick_def stampBeacon_def Let_def NewMeshDiscovery_def upsertPeer_def meshPeerTimeout_def Second_def
        split: if_splits option.splits)
  then have l: "range_order (peers ?m) [''c'']" by (simp add: range_order_def)
  have "set (map peer_NodeID (mesh_Peers ?m [''c''])) = {i. i \<noteq> ''a'' \<and> live_at (25 * Second) i ?es}"
    using peers_are_the_nodes_heard[OF s ord refl l] by blast
  moreover have "{i. i \<noteq> ''a'' \<and> live_at (25 * Second) i ?es} = {''c''}"
    by (auto simp: live_at_def meshPeerTimeout_def Second_def split: if_splits)
  ultimately show ?thesis by (intro exI[of _ ord]) simp
qed

text \<open>A peer that stays at its address keeps the version of its first beacon.\<close>

lemma version_not_refreshed:
  assumes "peers m i = Some p" and "GRPCAddr p = beacon_GRPCAddr b" and "beacon_NodeID b = i" and "i \<noteq> beacon_NodeID (beacon m)"
  shows "\<exists>q. peers (upsertPeer now b m) i = Some q \<and> peer_Version q = peer_Version p \<and> LastSeen q = now"
  using assms by (simp add: upsertPeer_peers)

text \<open>A failed bind leaves the node marked as running, so discovery cannot be started again.\<close>

lemma failed_bind_blocks_restart:
  "\<not> mesh_running m \<Longrightarrow> fst (mesh_Start None (snd (mesh_Start (Some e) m))) = Some ErrMeshAlreadyRunning"
  by (simp add: mesh_Start_def Let_def)

section \<open>Passing a task to a peer\<close>

record PropagatedTask =
  ptask_TaskID :: string
  ptask_SourceID :: string
  ptask_Prompt :: string
  ptask_Tools :: "string list option"
  ptask_Model :: string
  ptask_Timestamp :: int
  DeadlineUnixNs :: int

record PropagatedResult =
  pres_TaskID :: string
  pres_NodeID :: string
  pres_Output :: string
  pres_Error :: string
  DurationMS :: int

text \<open>The handler of a node, and the result it may leave nil.\<close>

type_synonym TaskHandler = "PropagatedTask \<Rightarrow> PropagatedResult option"

record MeshPropagator =
  prop_handler :: "TaskHandler option"
  prop_quit :: bool

definition NewMeshPropagator :: MeshPropagator where
  "NewMeshPropagator = \<lparr>prop_handler = None, prop_quit = False\<rparr>"

definition SetHandler :: "TaskHandler \<Rightarrow> MeshPropagator \<Rightarrow> MeshPropagator" where
  "SetHandler fn p = p\<lparr>prop_handler := Some fn\<rparr>"

text \<open>Closing a closed channel panics: the second \<open>Stop\<close> has no result.\<close>

definition prop_Stop :: "MeshPropagator \<Rightarrow> MeshPropagator option" where
  "prop_Stop p = (if prop_quit p then None else Some (p\<lparr>prop_quit := True\<rparr>))"

text \<open>After a failed \<open>Accept\<close> the accept loop returns only if it was told to stop.\<close>

definition accept_error_ends :: "bool \<Rightarrow> MeshPropagator \<Rightarrow> bool" where
  "accept_error_ends ctx_done p \<longleftrightarrow> prop_quit p \<or> ctx_done"

text \<open>What the encoders put on the connection; \<open>omitempty\<close> fields are left out when zero.\<close>

definition task_json :: "PropagatedTask \<Rightarrow> string" where
  "task_json t = json_write (JObj
     ([(''task_id'', JStr (ptask_TaskID t)), (''source_id'', JStr (ptask_SourceID t)),
       (''prompt'', JStr (ptask_Prompt t)),
       (''tools'', case ptask_Tools t of None \<Rightarrow> JNull | Some ts \<Rightarrow> JArr (map JStr ts)),
       (''model'', JStr (ptask_Model t)), (''timestamp'', JInt (ptask_Timestamp t))]
      @ (if DeadlineUnixNs t = 0 then [] else [(''deadline_unix_ns'', JInt (DeadlineUnixNs t))]))) @ [CHR 0x0A]"

definition result_json :: "PropagatedResult \<Rightarrow> string" where
  "result_json r = json_write (JObj
     ([(''task_id'', JStr (pres_TaskID r)), (''node_id'', JStr (pres_NodeID r)), (''output'', JStr (pres_Output r))]
      @ (if pres_Error r = [] then [] else [(''error'', JStr (pres_Error r))])
      @ [(''duration_ms'', JInt (DurationMS r))])) @ [CHR 0x0A]"

text \<open>
  The bytes a connection is answered with: none when the task does not decode. \<open>start\<close> and
  \<open>end\<close> are the clock before and after the handler.
\<close>

definition handleConn :: "(string \<Rightarrow> PropagatedTask option) \<Rightarrow> instant \<Rightarrow> instant \<Rightarrow> MeshPropagator \<Rightarrow> string \<Rightarrow> string" where
  "handleConn decode start stop p request =
     (case decode request of
        None \<Rightarrow> []
      | Some task \<Rightarrow>
          result_json
            (case prop_handler p of
               None \<Rightarrow> \<lparr>pres_TaskID = ptask_TaskID task, pres_NodeID = [], pres_Output = [],
                 pres_Error = ''no handler registered'', DurationMS = 0\<rparr>
             | Some h \<Rightarrow>
                 (let result = (case h task of Some r \<Rightarrow> r
                      | None \<Rightarrow> \<lparr>pres_TaskID = ptask_TaskID task, pres_NodeID = [], pres_Output = [], pres_Error = [], DurationMS = 0\<rparr>)
                  in result\<lparr>DurationMS := Milliseconds (Time_Sub stop start)\<rparr>)))"

text \<open>\<open>net.SplitHostPort\<close> fails or gives the host; then the host names the server, else the address.\<close>

definition hostFromAddr :: "(string \<Rightarrow> string option) \<Rightarrow> string \<Rightarrow> string" where
  "hostFromAddr splitHost addr = (case splitHost addr of None \<Rightarrow> addr | Some host \<Rightarrow> host)"

datatype propagate_error = DialFailed string | SendFailed string | ReadFailed

text \<open>
  The network is \<open>dial\<close> (an error for the address, or a connection to the named server) and the
  connection itself: it refuses the bytes, or answers them.
\<close>

definition PropagateTask ::
    "(string \<Rightarrow> string + 'c) \<Rightarrow> ('c \<Rightarrow> string \<Rightarrow> string \<Rightarrow> string + string) \<Rightarrow> (string \<Rightarrow> string option)
     \<Rightarrow> (string \<Rightarrow> PropagatedResult option) \<Rightarrow> Peer \<Rightarrow> PropagatedTask \<Rightarrow> propagate_error + PropagatedResult" where
  "PropagateTask dial exchange splitHost decode peer task =
     (case dial (GRPCAddr peer) of
        Inl e \<Rightarrow> Inl (DialFailed e)
      | Inr c \<Rightarrow>
          (case exchange c (hostFromAddr splitHost (GRPCAddr peer)) (task_json task) of
             Inl e \<Rightarrow> Inl (SendFailed e)
           | Inr reply \<Rightarrow> (case decode reply of None \<Rightarrow> Inl ReadFailed | Some result \<Rightarrow> Inr result)))"

text \<open>What the far node makes of a task: the reply of its handler, or an error, never nothing.\<close>

definition remote_answer :: "instant \<Rightarrow> instant \<Rightarrow> TaskHandler option \<Rightarrow> PropagatedTask \<Rightarrow> PropagatedResult" where
  "remote_answer start stop h task =
     (let empty_result = \<lparr>pres_TaskID = ptask_TaskID task, pres_NodeID = [], pres_Output = [], pres_Error = [], DurationMS = 0\<rparr>
      in case h of
           None \<Rightarrow> empty_result\<lparr>pres_Error := ''no handler registered''\<rparr>
         | Some f \<Rightarrow> (case f task of Some r \<Rightarrow> r | None \<Rightarrow> empty_result)\<lparr>DurationMS := Milliseconds (Time_Sub stop start)\<rparr>)"

lemma handleConn_answer:
  assumes "decode request = Some task"
  shows "handleConn decode start stop p request = result_json (remote_answer start stop (prop_handler p) task)"
  using assms by (simp add: handleConn_def remote_answer_def Let_def split: option.splits)

text \<open>
  A task passed to a peer comes back as that peer's handler answers it. Where the decoders read
  back what the encoders wrote, the caller receives the handler's result with its duration in
  milliseconds; a peer without a handler answers with an error, and a nil result of the handler
  comes back as an empty success. The caller never compares the task id of the result.
\<close>

lemma propagated_task_is_answered:
  assumes "dial (GRPCAddr peer) = Inr c"
    and "\<And>server bytes. exchange c server bytes = Inr (handleConn decode_task start stop remote bytes)"
    and "decode_task (task_json task) = Some task"
    and "answer = remote_answer start stop (prop_handler remote) task"
    and "decode_result (result_json answer) = Some answer"
  shows "PropagateTask dial exchange splitHost decode_result peer task =
    Inr answer"
  using assms by (simp add: PropagateTask_def handleConn_answer)

lemma propagated_task_is_answered_witness:
  "let task = \<lparr>ptask_TaskID = ''t1'', ptask_SourceID = ''a'', ptask_Prompt = ''hi'', ptask_Tools = None, ptask_Model = ''m'',
       ptask_Timestamp = 7, DeadlineUnixNs = 0\<rparr>;
     answer = \<lparr>pres_TaskID = ''t1'', pres_NodeID = [], pres_Output = [], pres_Error = ''no handler registered'', DurationMS = 0\<rparr>
   in PropagateTask (\<lambda>a. Inr ()) (\<lambda>c server b. Inr (handleConn (\<lambda>s. if s = task_json task then Some task else None) 0 0 NewMeshPropagator b))
        (\<lambda>a. None) (\<lambda>s. if s = result_json answer then Some answer else None)
        \<lparr>peer_NodeID = ''b'', GRPCAddr = ''h:1'', peer_Version = ''1'', LastSeen = 0\<rparr> task = Inr answer"
  unfolding Let_def
  by (rule propagated_task_is_answered[where c = "()" and start = 0 and stop = 0 and remote = NewMeshPropagator, OF _ refl])
    (simp_all add: NewMeshPropagator_def remote_answer_def Let_def)

section \<open>Events and deadlines of distributed tasks\<close>

datatype EphemeralStage = StageCreated | StagePropagated | StageCompleted | StageTimeout | StageFailed

record EphemeralEvent =
  event_TaskID :: string
  event_NodeID :: string
  Stage :: EphemeralStage
  event_Timestamp :: instant
  event_Detail :: string

type_synonym EphemeralLog = "string \<rightharpoonup> EphemeralEvent list"

definition NewEphemeralLog :: EphemeralLog where
  "NewEphemeralLog = Map.empty"

definition log_slice :: "EphemeralLog \<Rightarrow> string \<Rightarrow> EphemeralEvent list" where
  "log_slice l i = (case l i of None \<Rightarrow> [] | Some evs \<Rightarrow> evs)"

definition ephemeral_Record :: "instant \<Rightarrow> EphemeralEvent \<Rightarrow> EphemeralLog \<Rightarrow> EphemeralLog" where
  "ephemeral_Record now ev l =
     (let ev' = (if IsZero (event_Timestamp ev) then ev\<lparr>event_Timestamp := now\<rparr> else ev)
      in l(event_TaskID ev' \<mapsto> log_slice l (event_TaskID ev') @ [ev']))"

definition ephemeral_Events :: "EphemeralLog \<Rightarrow> string \<Rightarrow> EphemeralEvent list option" where
  "ephemeral_Events l i = (let src = log_slice l i in if length src = 0 then None else Some src)"

definition ephemeral_Purge :: "string \<Rightarrow> EphemeralLog \<Rightarrow> EphemeralLog" where
  "ephemeral_Purge i l = l(i := None)"

fun purge_loop :: "instant \<Rightarrow> string list \<Rightarrow> EphemeralLog \<Rightarrow> nat \<Rightarrow> EphemeralLog \<times> nat" where
  "purge_loop cutoff [] l removed = (l, removed)"
| "purge_loop cutoff (i # is) l removed =
     (case l i of
        None \<Rightarrow> purge_loop cutoff is l removed
      | Some evs \<Rightarrow>
          if length evs = 0 then purge_loop cutoff is (l(i := None)) (removed + 1)
          else if event_Timestamp (evs ! (length evs - 1)) < cutoff then purge_loop cutoff is (l(i := None)) (removed + 1)
          else purge_loop cutoff is l removed)"

definition PurgeExpired :: "instant \<Rightarrow> duration \<Rightarrow> string list \<Rightarrow> EphemeralLog \<Rightarrow> EphemeralLog \<times> nat" where
  "PurgeExpired now maxAge ord l = purge_loop (now - maxAge) ord l 0"

definition TaskCount :: "EphemeralLog \<Rightarrow> nat" where
  "TaskCount l = map_len l"

lemma card_diff_add: "A \<subseteq> B \<Longrightarrow> finite B \<Longrightarrow> card (B - A) + card A = card B"
  by (metis card_Diff_subset card_mono finite_subset le_add_diff_inverse2)

definition expired :: "instant \<Rightarrow> EphemeralEvent list \<Rightarrow> bool" where
  "expired cutoff evs \<longleftrightarrow> (case rev evs of [] \<Rightarrow> True | ev # _ \<Rightarrow> event_Timestamp ev < cutoff)"

lemma expired_code: "expired cutoff evs \<longleftrightarrow> length evs = 0 \<or> event_Timestamp (evs ! (length evs - 1)) < cutoff"
  by (cases evs rule: rev_cases) (simp_all add: expired_def)

lemma purge_loop_spec:
  assumes "distinct is"
  shows "purge_loop cutoff is l removed =
    (\<lambda>i. if i \<in> set is \<and> (\<exists>evs. l i = Some evs \<and> expired cutoff evs) then None else l i,
     removed + card {i \<in> set is. \<exists>evs. l i = Some evs \<and> expired cutoff evs})"
  using assms
proof (induction "is" arbitrary: l removed)
  case (Cons i "is")
  let ?E = "\<lambda>l. {j \<in> set is. \<exists>evs. l j = Some evs \<and> expired cutoff evs}"
  show ?case
  proof (cases "\<exists>evs. l i = Some evs \<and> expired cutoff evs")
    case True
    then obtain evs where evs: "l i = Some evs" "expired cutoff evs" by blast
    have step: "purge_loop cutoff (i # is) l removed = purge_loop cutoff is (l(i := None)) (removed + 1)"
      using evs by (auto simp: expired_code)
    have e: "?E (l(i := None)) = ?E l" using Cons.prems by auto
    have "{j \<in> set (i # is). \<exists>evs. l j = Some evs \<and> expired cutoff evs} = insert i (?E l)" using evs by auto
    moreover have "i \<notin> ?E l" using Cons.prems by simp
    ultimately have "card {j \<in> set (i # is). \<exists>evs. l j = Some evs \<and> expired cutoff evs} = Suc (card (?E l))" by simp
    moreover have "distinct is" using Cons.prems by simp
    ultimately show ?thesis
      unfolding step Cons.IH[OF \<open>distinct is\<close>, of "l(i := None)" "removed + 1"] e
      using evs by (auto simp: fun_eq_iff)
  next
    case False
    have step: "purge_loop cutoff (i # is) l removed = purge_loop cutoff is l removed"
      using False by (auto simp: expired_code split: option.splits)
    have "{j \<in> set (i # is). \<exists>evs. l j = Some evs \<and> expired cutoff evs} = ?E l" using False by auto
    with step Cons.IH[of l removed] Cons.prems False show ?thesis by (auto simp: fun_eq_iff)
  qed
qed simp



text \<open>A recorded event is the last one of its task; other tasks keep their events.\<close>

lemma recorded_event_is_last:
  "\<exists>evs ev'. ephemeral_Events (ephemeral_Record now ev l) (event_TaskID ev) = Some (evs @ [ev'])
     \<and> evs = log_slice l (event_TaskID ev) \<and> Stage ev' = Stage ev"
  "i \<noteq> event_TaskID ev \<Longrightarrow> ephemeral_Events (ephemeral_Record now ev l) i = ephemeral_Events l i"
proof -
  have "Stage (if IsZero (event_Timestamp ev) then ev\<lparr>event_Timestamp := now\<rparr> else ev) = Stage ev" by simp
  then show "\<exists>evs ev'. ephemeral_Events (ephemeral_Record now ev l) (event_TaskID ev) = Some (evs @ [ev'])
     \<and> evs = log_slice l (event_TaskID ev) \<and> Stage ev' = Stage ev"
    by (intro exI[of _ "log_slice l (event_TaskID ev)"]
        exI[of _ "if IsZero (event_Timestamp ev) then ev\<lparr>event_Timestamp := now\<rparr> else ev"])
      (simp add: ephemeral_Record_def ephemeral_Events_def log_slice_def Let_def)
qed (simp add: ephemeral_Record_def ephemeral_Events_def log_slice_def Let_def)

text \<open>
  The deadline of the context a task runs under, if any; a child context never outlives its
  parent's deadline.
\<close>

definition WithTaskDeadline :: "instant option \<Rightarrow> PropagatedTask \<Rightarrow> instant option" where
  "WithTaskDeadline parent task =
     (if DeadlineUnixNs task \<le> 0 then parent
      else
        (let d = of_unix_nano (DeadlineUnixNs task)
         in case parent of None \<Rightarrow> Some d | Some p \<Rightarrow> Some (min p d)))"

definition SetTaskDeadline :: "instant \<Rightarrow> duration \<Rightarrow> PropagatedTask \<Rightarrow> PropagatedTask" where
  "SetTaskDeadline now d task =
     (if d \<le> 0 then task\<lparr>DeadlineUnixNs := 0\<rparr> else task\<lparr>DeadlineUnixNs := UnixNano (now + d)\<rparr>)"

definition TaskDeadlineRemaining :: "instant \<Rightarrow> PropagatedTask \<Rightarrow> duration \<times> bool" where
  "TaskDeadlineRemaining now task =
     (if DeadlineUnixNs task \<le> 0 then (0, False)
      else
        (let remaining = Time_Sub (of_unix_nano (DeadlineUnixNs task)) now
         in if remaining \<le> 0 then (0, False) else (remaining, True)))"

text \<open>
  A deadline set on a task is the deadline every node works with: as long as it lies in the range
  of \<open>UnixNano\<close> (to the year 2262), the remaining time counts down from the given duration to zero
  and is then reported as over, and the context of the task ends at that moment, or at the
  parent's deadline if that is earlier. A duration that is not positive clears the deadline.
\<close>

lemma deadline_is_kept:
  assumes "unix_epoch \<le> now" and "now \<le> later" and "now + d - unix_epoch \<le> int64_max"
  shows "TaskDeadlineRemaining later (SetTaskDeadline now d task) =
      (if later < now + d then (now + d - later, True) else (0, False))
    \<and> WithTaskDeadline parent (SetTaskDeadline now d task) =
      (if d \<le> 0 then parent else case parent of None \<Rightarrow> Some (now + d) | Some p \<Rightarrow> Some (min p (now + d)))"
proof (cases "d \<le> 0")
  case True
  with assms(2) show ?thesis by (simp add: SetTaskDeadline_def TaskDeadlineRemaining_def WithTaskDeadline_def)
next
  case False
  then have "in_int64 (now + d - unix_epoch)"
    using assms by (simp add: in_int64_def int64_min_def)
  then have "UnixNano (now + d) = now + d - unix_epoch" by (simp add: UnixNano_def)
  then show ?thesis
    using assms False
    by (auto simp: SetTaskDeadline_def TaskDeadlineRemaining_def WithTaskDeadline_def Let_def of_unix_nano_def
        Time_Sub_def int64_min_def int64_max_def split: option.splits)
qed

lemma deadline_is_kept_witness:
  "TaskDeadlineRemaining (unix_epoch + 7) (SetTaskDeadline (unix_epoch + 5) 10
      \<lparr>ptask_TaskID = ''t'', ptask_SourceID = ''a'', ptask_Prompt = [], ptask_Tools = None, ptask_Model = [],
       ptask_Timestamp = 0, DeadlineUnixNs = 0\<rparr>) = (8, True)"
  using deadline_is_kept[of "unix_epoch + 5" "unix_epoch + 7" 10
      "\<lparr>ptask_TaskID = ''t'', ptask_SourceID = ''a'', ptask_Prompt = [], ptask_Tools = None, ptask_Model = [],
       ptask_Timestamp = 0, DeadlineUnixNs = 0\<rparr>"]
  by (simp add: int64_max_def)

text \<open>Past the year 2262 the nanoseconds wrap: the deadline is then no deadline at all.\<close>

lemma far_deadline_is_lost:
  assumes "unix_epoch \<le> now" and "int64_max < now + d - unix_epoch" and "now + d - unix_epoch \<le> 2 * int64_max"
    and "0 < d"
  shows "WithTaskDeadline parent (SetTaskDeadline now d task) = parent"
  using assms wrap64_over[of "now + d - unix_epoch"]
  by (simp add: SetTaskDeadline_def WithTaskDeadline_def UnixNano_def int64_max_def)

end
