(* ===== verification/Net_Servers.thy ===== *)
theory Net_Servers
  imports Signed_Memory Mesh
begin

text \<open>
  The servers of a node: the memory server (\<open>MemoryServer.Serve\<close> and \<open>Stop\<close>,
  \<open>memory/signed_store.go\<close>) and the task server (\<open>MeshPropagator.Listen\<close> and \<open>Stop\<close>,
  \<open>core/mesh_propagation.go\<close>), as labelled steps of the goroutines that share the server.

  An accepted connection is answered by a goroutine of its own, at any later moment, also after \<open>Stop\<close>. It answers with
  the handler's function of the bytes received and of the times at which it begins and ends, before the deadline
  that it sets on the connection, or it drops the connection. The instant that an accepted connection carries is the one
  at which its goroutine starts and sets the deadline, which may lie later than the \<open>Accept\<close>. \<open>Accept\<close> may fail at any time, and does when the listener
  is closed. A panic, in a handler or in a second \<open>Stop\<close>, ends the server.
\<close>

section \<open>State and runs\<close>

datatype serve_loop = NotServing | BindFailed | Bound | Serving | Ended

record 'r server =
  sv_loop :: serve_loop
  sv_open :: bool
  sv_published :: bool
  sv_quit :: bool
  sv_ctx_done :: bool
  sv_closer :: bool
  sv_panicked :: bool
  sv_accepted :: "string list"
  sv_conns :: "(instant \<times> string) list"
  sv_answers :: "(string \<times> 'r) list"

definition new_server :: "'r server" where
  "new_server = \<lparr>sv_loop = NotServing, sv_open = False, sv_published = False, sv_quit = False, sv_ctx_done = False,
     sv_closer = False, sv_panicked = False, sv_accepted = [], sv_conns = [], sv_answers = []\<rparr>"

datatype srv_label = LBind | LBindFail | LPublish | LAccept instant string | LAcceptError
  | LAnswer nat instant instant | LDrop nat | LStop | LCancel | LClose

type_synonym 'r srv_step = "srv_label \<Rightarrow> 'r server \<Rightarrow> 'r server option"

text \<open>The handler of a connection, with the times at which it begins and ends; no answer is a panic.\<close>

type_synonym 'r handler = "instant \<Rightarrow> instant \<Rightarrow> string \<Rightarrow> 'r option"

fun srv_run :: "'r srv_step \<Rightarrow> srv_label list \<Rightarrow> 'r server \<Rightarrow> 'r server option" where
  "srv_run step [] s = Some s"
| "srv_run step (l # ls) s = (case step l s of None \<Rightarrow> None | Some s' \<Rightarrow> srv_run step ls s')"

lemma srv_run_append:
  "srv_run step (ls @ ls') s = (case srv_run step ls s of None \<Rightarrow> None | Some t \<Rightarrow> srv_run step ls' t)"
  by (induction ls arbitrary: s) (simp_all split: option.splits)

section \<open>Connections\<close>

definition drop_conn :: "nat \<Rightarrow> 'r server \<Rightarrow> 'r server" where
  "drop_conn i s = s\<lparr>sv_conns := take i (sv_conns s) @ drop (Suc i) (sv_conns s)\<rparr>"

definition accept_conn :: "instant \<Rightarrow> string \<Rightarrow> 'r server \<Rightarrow> 'r server" where
  "accept_conn now req s = s\<lparr>sv_accepted := sv_accepted s @ [req], sv_conns := sv_conns s @ [(now, req)]\<rparr>"

definition answer_conn :: "duration \<Rightarrow> 'r handler \<Rightarrow> nat \<Rightarrow> instant \<Rightarrow> instant \<Rightarrow> 'r server \<Rightarrow> 'r server option" where
  "answer_conn limit answer i start stop s =
     (if i < length (sv_conns s) \<and> start \<le> stop \<and> stop \<le> fst (sv_conns s ! i) + limit then
        (case answer start stop (snd (sv_conns s ! i)) of
           None \<Rightarrow> Some (s\<lparr>sv_panicked := True\<rparr>)
         | Some r \<Rightarrow> Some ((drop_conn i s)\<lparr>sv_answers := sv_answers s @ [(snd (sv_conns s ! i), r)]\<rparr>))
      else None)"

text \<open>What a server owes or has paid: the requests it has answered and those of its open connections.\<close>

definition owed :: "'r server \<Rightarrow> string multiset" where
  "owed s = mset (map fst (sv_answers s)) + mset (map snd (sv_conns s))"

lemma mset_remove_nth: "i < length xs \<Longrightarrow> add_mset (xs ! i) (mset (take i xs @ drop (Suc i) xs)) = mset xs"
  by (metis id_take_nth_drop mset.simps(2) mset_append union_mset_add_mset_right)

lemma owed_drop:
  assumes "i < length (sv_conns s)"
  shows "add_mset (snd (sv_conns s ! i)) (owed (drop_conn i s)) = owed s"
proof -
  have "mset (map snd (sv_conns s)) = image_mset snd (add_mset (sv_conns s ! i) (mset (take i (sv_conns s) @ drop (Suc i) (sv_conns s))))"
    using mset_remove_nth[OF assms] by (metis mset_map)
  then show ?thesis by (simp add: owed_def drop_conn_def)
qed

lemma owed_panicked: "owed (s\<lparr>sv_panicked := b\<rparr>) = owed s"
  by (simp add: owed_def)

lemma owed_answer:
  assumes "answer_conn limit answer i start stop s = Some s'"
  shows "owed s' = owed s"
proof -
  have "owed ((drop_conn i s)\<lparr>sv_answers := sv_answers s @ [(req, r)]\<rparr>) = add_mset req (owed (drop_conn i s))" for req r
    by (simp add: owed_def drop_conn_def)
  with assms owed_drop[of i s] show ?thesis
    by (auto simp: answer_conn_def owed_panicked split: if_splits option.splits)
qed

lemma conns_frame [simp]:
  "sv_loop (drop_conn i s) = sv_loop s" "sv_open (drop_conn i s) = sv_open s" "sv_published (drop_conn i s) = sv_published s"
  "sv_quit (drop_conn i s) = sv_quit s" "sv_ctx_done (drop_conn i s) = sv_ctx_done s" "sv_closer (drop_conn i s) = sv_closer s"
  "sv_panicked (drop_conn i s) = sv_panicked s" "sv_accepted (drop_conn i s) = sv_accepted s" "sv_answers (drop_conn i s) = sv_answers s"
  by (simp_all add: drop_conn_def)

lemma accept_frame [simp]:
  "sv_loop (accept_conn t r s) = sv_loop s" "sv_open (accept_conn t r s) = sv_open s" "sv_published (accept_conn t r s) = sv_published s"
  "sv_quit (accept_conn t r s) = sv_quit s" "sv_ctx_done (accept_conn t r s) = sv_ctx_done s" "sv_closer (accept_conn t r s) = sv_closer s"
  "sv_panicked (accept_conn t r s) = sv_panicked s" "sv_accepted (accept_conn t r s) = sv_accepted s @ [r]"
  "sv_answers (accept_conn t r s) = sv_answers s" "owed (accept_conn t r s) = add_mset r (owed s)"
  by (simp_all add: accept_conn_def owed_def)

lemma answer_frame:
  assumes "answer_conn limit answer i start stop s = Some s'"
  shows "sv_loop s' = sv_loop s" and "sv_open s' = sv_open s" and "sv_published s' = sv_published s" and "sv_quit s' = sv_quit s"
    and "sv_ctx_done s' = sv_ctx_done s" and "sv_closer s' = sv_closer s" and "sv_accepted s' = sv_accepted s"
    and "\<exists>new. sv_answers s' = sv_answers s @ new"
  using assms by (auto simp: answer_conn_def split: if_splits option.splits)

section \<open>The contract of an accept loop\<close>

text \<open>
  Where the listener is closed for good nothing is accepted any more, and every answer belongs to an accepted
  connection. \<open>closed\<close> is the server's own condition.
\<close>

locale accept_loop =
  fixes step :: "'r srv_step" and closed :: "'r server \<Rightarrow> bool"
  assumes closed_stays: "closed s \<Longrightarrow> step l s = Some s' \<Longrightarrow> closed s'"
    and closed_accepts_nothing: "closed s \<Longrightarrow> step (LAccept now req) s = None"
    and accounted: "step l s = Some s' \<Longrightarrow> \<exists>new. sv_accepted s' = sv_accepted s @ new \<and> owed s' \<subseteq># owed s + mset new"
    and only_accept_accepts: "step l s = Some s' \<Longrightarrow> (\<nexists>now req. l = LAccept now req) \<Longrightarrow> sv_accepted s' = sv_accepted s"
    and answers_stay: "step l s = Some s' \<Longrightarrow> \<exists>new. sv_answers s' = sv_answers s @ new"
begin

lemma answers_grow:
  assumes "srv_run step ls s = Some t"
  shows "\<exists>new. sv_answers t = sv_answers s @ new"
  using assms
proof (induction ls arbitrary: s)
  case (Cons l ls)
  then obtain s' where s': "step l s = Some s'" "srv_run step ls s' = Some t" by (auto split: option.splits)
  from answers_stay[OF s'(1)] Cons.IH[OF s'(2)] show ?case by auto
qed simp

lemma closed_run_accounted:
  assumes "closed s" and "srv_run step ls s = Some t"
  shows "sv_accepted t = sv_accepted s \<and> owed t \<subseteq># owed s"
  using assms
proof (induction ls arbitrary: s)
  case (Cons l ls)
  then obtain s' where s': "step l s = Some s'" "srv_run step ls s' = Some t" by (auto split: option.splits)
  have "\<nexists>now req. l = LAccept now req" using closed_accepts_nothing[OF Cons.prems(1)] s'(1) by auto
  then have same: "sv_accepted s' = sv_accepted s" by (rule only_accept_accepts[OF s'(1)])
  with accounted[OF s'(1)] have "owed s' \<subseteq># owed s" by auto
  with Cons.IH[OF closed_stays[OF Cons.prems(1) s'(1)] s'(2)] same show ?case by auto
qed simp

lemma closed_run:
  assumes "closed s" and "srv_run step ls s = Some t"
  shows "sv_accepted t = sv_accepted s \<and>
    (\<exists>new. sv_answers t = sv_answers s @ new \<and> mset (map fst new) \<subseteq># mset (map snd (sv_conns s)))"
proof -
  obtain new where new: "sv_answers t = sv_answers s @ new" using answers_grow[OF assms(2)] by blast
  from closed_run_accounted[OF assms] have "sv_accepted t = sv_accepted s" and "owed t \<subseteq># owed s" by simp_all
  with new show ?thesis by (auto simp: owed_def add.assoc intro: subset_mset.order_trans[rotated])
qed

end

text \<open>Both servers: a socket is only opened by the first bind, so a closed one stays closed.\<close>

definition shut :: "'r server \<Rightarrow> bool" where
  "shut s \<longleftrightarrow> \<not> sv_open s \<and> sv_loop s \<noteq> NotServing"

section \<open>The memory server\<close>

text \<open>
  \<open>Serve\<close> binds, then stores the listener, then accepts; after an error it looks at \<open>quit\<close>. \<open>Stop\<close> closes
  the channel, a second time with a panic, and the listener if it is stored already.
\<close>

definition memoryDeadline :: duration where "memoryDeadline = 10 * Second"

definition MemoryServer_step :: "'r handler \<Rightarrow> 'r srv_step" where
  "MemoryServer_step answer l s =
     (if sv_panicked s then None
      else case l of
        LBind \<Rightarrow> if sv_loop s = NotServing then Some (s\<lparr>sv_loop := Bound, sv_open := True\<rparr>) else None
      | LBindFail \<Rightarrow> if sv_loop s = NotServing then Some (s\<lparr>sv_loop := BindFailed\<rparr>) else None
      | LPublish \<Rightarrow> if sv_loop s = Bound then Some (s\<lparr>sv_loop := Serving, sv_published := True\<rparr>) else None
      | LAccept now req \<Rightarrow> if sv_loop s = Serving \<and> sv_open s then Some (accept_conn now req s) else None
      | LAcceptError \<Rightarrow> if sv_loop s = Serving then Some (if sv_quit s then s\<lparr>sv_loop := Ended\<rparr> else s) else None
      | LAnswer i start stop \<Rightarrow> answer_conn memoryDeadline answer i start stop s
      | LDrop i \<Rightarrow> if i < length (sv_conns s) then Some (drop_conn i s) else None
      | LStop \<Rightarrow>
          if sv_quit s then Some (s\<lparr>sv_panicked := True\<rparr>)
          else Some (s\<lparr>sv_quit := True, sv_open := (sv_open s \<and> \<not> sv_published s)\<rparr>)
      | LCancel \<Rightarrow> None
      | LClose \<Rightarrow> None)"

lemma owed_update [simp]:
  "owed (s\<lparr>sv_loop := a\<rparr>) = owed s" "owed (s\<lparr>sv_open := b\<rparr>) = owed s" "owed (s\<lparr>sv_published := b\<rparr>) = owed s"
  "owed (s\<lparr>sv_quit := b\<rparr>) = owed s" "owed (s\<lparr>sv_ctx_done := b\<rparr>) = owed s" "owed (s\<lparr>sv_closer := b\<rparr>) = owed s"
  "owed (s\<lparr>sv_panicked := b\<rparr>) = owed s"
  by (simp_all add: owed_def)

lemma owed_drop_le: "i < length (sv_conns s) \<Longrightarrow> owed (drop_conn i s) \<subseteq># owed s"
  using owed_drop[of i s] by (metis mset_subset_eq_add_mset_cancel subset_mset.order_refl mset_subset_eq_insertD subset_mset.less_imp_le)

lemmas conn_simps = accept_frame conns_frame owed_update owed_drop_le

interpretation memory_server: accept_loop "MemoryServer_step answer" shut for answer
proof unfold_locales
  fix s s' :: "'a server" and l
  assume step: "MemoryServer_step answer l s = Some s'"
  then show "shut s \<Longrightarrow> shut s'"
    by (auto simp: shut_def MemoryServer_step_def answer_frame split: srv_label.splits if_splits)
  show "\<exists>new. sv_accepted s' = sv_accepted s @ new \<and> owed s' \<subseteq># owed s + mset new"
    using step by (auto simp: MemoryServer_step_def conn_simps answer_frame owed_answer split: srv_label.splits if_splits)
  show "(\<nexists>now req. l = LAccept now req) \<Longrightarrow> sv_accepted s' = sv_accepted s"
    using step by (auto simp: MemoryServer_step_def answer_frame split: srv_label.splits if_splits)
  show "\<exists>new. sv_answers s' = sv_answers s @ new"
    using step answer_frame(8) by (auto simp: MemoryServer_step_def split: srv_label.splits if_splits)
qed (simp add: shut_def MemoryServer_step_def)

definition memory_server ::
    "('k, 'pool, 'sk) crypto \<Rightarrow> (string \<Rightarrow> string + SignedQueryRequest) \<Rightarrow> MemoryResult less_sorter
     \<Rightarrow> similarity \<Rightarrow> string list \<Rightarrow> ('k, 'pool) SignedMemoryStore \<Rightarrow> reply srv_step" where
  "memory_server C decode srt sim ord store = MemoryServer_step
     (\<lambda>start stop req. case MemoryServer_handle C decode srt sim ord start req store of HandlerPanic \<Rightarrow> None | r \<Rightarrow> Some r)"

section \<open>The task server\<close>

text \<open>
  \<open>Listen\<close> binds, stores the listener and starts a goroutine that closes it when the context ends or
  \<open>Stop\<close> was called; after an error the loop looks at both.
\<close>

definition taskDeadline :: duration where "taskDeadline = 30 * Second"

definition MeshPropagator_step :: "'r handler \<Rightarrow> 'r srv_step" where
  "MeshPropagator_step answer l s =
     (if sv_panicked s then None
      else case l of
        LBind \<Rightarrow> if sv_loop s = NotServing then Some (s\<lparr>sv_loop := Bound, sv_open := True\<rparr>) else None
      | LBindFail \<Rightarrow> if sv_loop s = NotServing then Some (s\<lparr>sv_loop := BindFailed\<rparr>) else None
      | LPublish \<Rightarrow> if sv_loop s = Bound then Some (s\<lparr>sv_loop := Serving, sv_published := True, sv_closer := True\<rparr>) else None
      | LAccept now req \<Rightarrow> if sv_loop s = Serving \<and> sv_open s then Some (accept_conn now req s) else None
      | LAcceptError \<Rightarrow>
          if sv_loop s = Serving then Some (if sv_quit s \<or> sv_ctx_done s then s\<lparr>sv_loop := Ended\<rparr> else s) else None
      | LAnswer i start stop \<Rightarrow> answer_conn taskDeadline answer i start stop s
      | LDrop i \<Rightarrow> if i < length (sv_conns s) then Some (drop_conn i s) else None
      | LStop \<Rightarrow> if sv_quit s then Some (s\<lparr>sv_panicked := True\<rparr>) else Some (s\<lparr>sv_quit := True\<rparr>)
      | LCancel \<Rightarrow> Some (s\<lparr>sv_ctx_done := True\<rparr>)
      | LClose \<Rightarrow>
          if sv_closer s \<and> (sv_quit s \<or> sv_ctx_done s) then Some (s\<lparr>sv_open := False, sv_closer := False\<rparr>) else None)"

interpretation task_server: accept_loop "MeshPropagator_step answer" shut for answer
proof unfold_locales
  fix s s' :: "'a server" and l
  assume step: "MeshPropagator_step answer l s = Some s'"
  then show "shut s \<Longrightarrow> shut s'"
    by (auto simp: shut_def MeshPropagator_step_def answer_frame split: srv_label.splits if_splits)
  show "\<exists>new. sv_accepted s' = sv_accepted s @ new \<and> owed s' \<subseteq># owed s + mset new"
    using step by (auto simp: MeshPropagator_step_def conn_simps answer_frame owed_answer split: srv_label.splits if_splits)
  show "(\<nexists>now req. l = LAccept now req) \<Longrightarrow> sv_accepted s' = sv_accepted s"
    using step by (auto simp: MeshPropagator_step_def answer_frame split: srv_label.splits if_splits)
  show "\<exists>new. sv_answers s' = sv_answers s @ new"
    using step answer_frame(8) by (auto simp: MeshPropagator_step_def split: srv_label.splits if_splits)
qed (simp add: shut_def MeshPropagator_step_def)

definition task_server :: "(string \<Rightarrow> PropagatedTask option) \<Rightarrow> MeshPropagator \<Rightarrow> string srv_step" where
  "task_server decode p = MeshPropagator_step (\<lambda>start stop req. Some (handleConn decode start stop p req))"

section \<open>Invariants\<close>

definition memory_inv :: "'r server \<Rightarrow> bool" where
  "memory_inv s \<longleftrightarrow>
     (sv_published s \<longleftrightarrow> sv_loop s = Serving \<or> sv_loop s = Ended) \<and>
     (sv_loop s = Bound \<longrightarrow> sv_open s) \<and> (sv_open s \<longrightarrow> sv_loop s \<noteq> NotServing \<and> sv_loop s \<noteq> BindFailed) \<and>
     (\<not> sv_quit s \<and> sv_published s \<longrightarrow> sv_open s \<and> sv_loop s = Serving)"

lemma memory_inv_step: "memory_inv s \<Longrightarrow> MemoryServer_step answer l s = Some s' \<Longrightarrow> memory_inv s'"
  by (cases l; cases "sv_loop s") (auto simp: memory_inv_def MemoryServer_step_def answer_conn_def split: if_splits option.splits)

lemma memory_inv_run: "memory_inv s \<Longrightarrow> srv_run (MemoryServer_step answer) ls s = Some t \<Longrightarrow> memory_inv t"
  by (induction ls arbitrary: s) (auto split: option.splits dest: memory_inv_step)

lemma memory_inv_new: "memory_inv new_server"
  by (simp add: memory_inv_def new_server_def)

definition task_inv :: "'r server \<Rightarrow> bool" where
  "task_inv s \<longleftrightarrow>
     (sv_published s \<longleftrightarrow> sv_loop s = Serving \<or> sv_loop s = Ended) \<and>
     (sv_published s \<and> \<not> sv_closer s \<longrightarrow> \<not> sv_open s \<and> (sv_quit s \<or> sv_ctx_done s)) \<and>
     (sv_loop s = Ended \<longrightarrow> sv_quit s \<or> sv_ctx_done s)"

lemma task_inv_step: "task_inv s \<Longrightarrow> MeshPropagator_step answer l s = Some s' \<Longrightarrow> task_inv s'"
  by (cases l; cases "sv_loop s") (auto simp: task_inv_def MeshPropagator_step_def answer_conn_def split: if_splits option.splits)

lemma task_inv_run: "task_inv s \<Longrightarrow> srv_run (MeshPropagator_step answer) ls s = Some t \<Longrightarrow> task_inv t"
  by (induction ls arbitrary: s) (auto split: option.splits dest: task_inv_step)

lemma task_inv_new: "task_inv new_server"
  by (simp add: task_inv_def new_server_def)

section \<open>Stopping\<close>

text \<open>The first \<open>Stop\<close> of a server that has not panicked.\<close>

lemma MemoryServer_first_stop:
  "\<not> sv_panicked s \<Longrightarrow> \<not> sv_quit s \<Longrightarrow>
     MemoryServer_step answer LStop s = Some (s\<lparr>sv_quit := True, sv_open := (sv_open s \<and> \<not> sv_published s)\<rparr>)"
  by (simp add: MemoryServer_step_def)

lemma owed_accepted:
  assumes "srv_run (MemoryServer_step answer) ls s = Some t" and "owed s \<subseteq># mset (sv_accepted s)"
  shows "owed t \<subseteq># mset (sv_accepted t)"
  using assms
proof (induction ls arbitrary: s)
  case (Cons l ls)
  then obtain s' where s': "MemoryServer_step answer l s = Some s'" "srv_run (MemoryServer_step answer) ls s' = Some t"
    by (auto split: option.splits)
  obtain new where "sv_accepted s' = sv_accepted s @ new" "owed s' \<subseteq># owed s + mset new"
    using memory_server.accounted[OF s'(1)] by blast
  then have "owed s' \<subseteq># mset (sv_accepted s')" using Cons.prems(2) by (simp add: subset_mset.order_trans)
  with Cons.IH[OF s'(2)] show ?case .
qed simp



text \<open>
  The task server is stopped whenever \<open>Stop\<close> is called, by the goroutine beside the loop: from every
  reachable moment at which the loop runs and \<open>Stop\<close> was called, or the context is done, two steps
  end it without another answer.
\<close>

lemma listen_can_end:
  assumes "srv_run (MeshPropagator_step answer) ls new_server = Some s" and "\<not> sv_panicked s"
    and "sv_quit s \<or> sv_ctx_done s" and "sv_loop s = Serving"
  shows "\<exists>t. srv_run (MeshPropagator_step answer) (if sv_closer s then [LClose, LAcceptError] else [LAcceptError]) s = Some t
    \<and> sv_loop t = Ended \<and> \<not> sv_open t \<and> sv_answers t = sv_answers s"
proof -
  have "task_inv s" using task_inv_run[OF task_inv_new assms(1)] .
  then show ?thesis using assms(2-4) by (auto simp: MeshPropagator_step_def task_inv_def)
qed

text \<open>Both servers panic when they are stopped twice.\<close>

lemma second_stop_panics:
  assumes "\<not> sv_panicked s" and "\<not> sv_quit s"
  shows "\<exists>t. srv_run (MemoryServer_step answer) [LStop, LStop] s = Some t \<and> sv_panicked t"
    and "\<exists>t. srv_run (MeshPropagator_step answer) [LStop, LStop] s = Some t \<and> sv_panicked t"
  using assms by (simp_all add: MemoryServer_step_def MeshPropagator_step_def)

section \<open>What the memory server gives away\<close>

lemma MemoryServer_answer_step:
  assumes "MemoryServer_step answer l s = Some s'"
  shows "sv_answers s' = sv_answers s \<or>
    (\<exists>i start stop req r. l = LAnswer i start stop \<and> answer start stop req = Some r \<and> sv_answers s' = sv_answers s @ [(req, r)])"
  using assms by (auto simp: MemoryServer_step_def answer_conn_def split: srv_label.splits if_splits option.splits)

lemma MemoryServer_answers:
  assumes "srv_run (MemoryServer_step answer) ls s = Some t"
  shows "\<exists>new. sv_answers t = sv_answers s @ new \<and>
    (\<forall>(req, r) \<in> set new. \<exists>i start stop. LAnswer i start stop \<in> set ls \<and> answer start stop req = Some r)"
  using assms
proof (induction ls arbitrary: s)
  case (Cons l ls)
  then obtain s' where s': "MemoryServer_step answer l s = Some s'" "srv_run (MemoryServer_step answer) ls s' = Some t"
    by (auto split: option.splits)
  obtain new where new: "sv_answers t = sv_answers s' @ new"
    "\<forall>(req, r) \<in> set new. \<exists>i start stop. LAnswer i start stop \<in> set ls \<and> answer start stop req = Some r"
    using Cons.IH[OF s'(2)] by blast
  from MemoryServer_answer_step[OF s'(1)] show ?case
  proof
    assume "sv_answers s' = sv_answers s"
    with new show ?case by (intro exI[of _ new]) fastforce
  next
    assume "\<exists>i start stop req r. l = LAnswer i start stop \<and> answer start stop req = Some r \<and> sv_answers s' = sv_answers s @ [(req, r)]"
    then obtain i start stop req r
      where "l = LAnswer i start stop" "answer start stop req = Some r" "sv_answers s' = sv_answers s @ [(req, r)]" by blast
    with new show ?case by (intro exI[of _ "(req, r) # new"]) fastforce
  qed
qed simp

text \<open>
  Whatever the interleaving, results leave the server only for a request that \<open>AuthorisedQuery\<close>
  accepted while the connection was handled; every other connection gets an error and no result.
\<close>

lemma server_answers_only_authorised:
  assumes "srv_run (memory_server C decode srt sim ord store) ls new_server = Some s"
    and "(bytes, Reply resp) \<in> set (sv_answers s)" and "Results resp \<noteq> []"
  shows "\<exists>i now stop req. LAnswer i now stop \<in> set ls \<and> decode bytes = Inr req \<and>
    AuthorisedQuery C srt sim ord now req store = Inr (Results resp)"
proof -
  have empty: "sv_answers (new_server :: reply server) = []" by (simp add: new_server_def)
  obtain i now stop where "LAnswer i now stop \<in> set ls" "MemoryServer_handle C decode srt sim ord now bytes store = Reply resp"
    using MemoryServer_answers[OF assms(1)[unfolded memory_server_def]] assms(2) empty
    by (fastforce split: reply.splits)
  then show ?thesis using assms(3)
    by (fastforce simp: MemoryServer_handle_def encode_reply_def split: sum.splits sig_error.splits if_splits)
qed

text \<open>A request without a token stops the memory server: no step follows it.\<close>

lemma tokenless_request_ends_server:
  assumes "decode bytes = Inr req" and "Token req = None" and "sv_conns s = (t, bytes) # cs" and "\<not> sv_panicked s"
  shows "\<exists>s'. memory_server C decode srt sim ord store (LAnswer 0 t t) s = Some s' \<and>
    (\<forall>l. memory_server C decode srt sim ord store l s' = None)"
  using assms(3,4) tokenless_request_panics[of decode bytes req C srt sim ord t store] assms(1,2)
  by (simp add: memory_server_def MemoryServer_step_def answer_conn_def memoryDeadline_def duration_defs)

end
