(* ===== verification/Node_Identity.thy ===== *)
theory Node_Identity
  imports Go_Time
begin

text \<open>
  The mTLS identity of a node (\<open>core/mtls.go\<close>): the store of four files, the branches that load it or
  create it anew, and the TLS configuration. X.509, PEM and ECDSA are a record of functions, the disk a
  map from paths to contents with the reads that fail and the outcomes of the writes.
\<close>

record cert =
  CommonName :: string
  SerialNumber :: int
  NotBefore :: instant
  NotAfter :: instant
  IsCA :: bool
  DNSNames :: "string list"

record 'key x509_lib =
  CreateCertificate :: "cert \<Rightarrow> cert \<Rightarrow> 'key \<Rightarrow> 'key \<Rightarrow> string option"
  ParseCertificate :: "string \<Rightarrow> cert option"
  EncodePem :: "string \<Rightarrow> string \<Rightarrow> string"
  DecodePem :: "string \<Rightarrow> string option"
  MarshalECPrivateKey :: "'key \<Rightarrow> string option"
  X509KeyPair :: "string \<Rightarrow> string \<Rightarrow> string option"
  AppendCertsFromPEM :: "string \<Rightarrow> bool"

record cert_disk =
  files :: "string \<rightharpoonup> string"
  unreadable :: "string list"
  writes :: "string \<Rightarrow> write_outcome"
  mkdir_fails :: bool

datatype identity_error =
    ConfigDirUnknown
  | ErrCertNotFound
  | ReadCAFailed
  | ParseCAFailed
  | LoadLeafFailed
  | AppendCAFailed
  | MkdirFailed
  | GenerateKeyFailed
  | SignFailed
  | EncodeKeyFailed
  | WriteFailed string
  | BuildTLSFailed

text \<open>The configuration: TLS 1.3 and client certificates are required; both pools hold the own CA.\<close>

record TLSConfig =
  Certificates :: string
  ClientCAs :: string
  RootCAs :: string
  RequireAndVerifyClientCert :: bool
  MinVersion :: nat
  ServerName :: string

definition buildTLSConfig :: "string \<Rightarrow> string \<Rightarrow> TLSConfig" where
  "buildTLSConfig c pool =
     \<lparr>Certificates = c, ClientCAs = pool, RootCAs = pool, RequireAndVerifyClientCert = True, MinVersion = 772, ServerName = []\<rparr>"

text \<open>The two ends of a connection: a listener or a connection together with the configuration it is wrapped in.\<close>

definition newTLSListener :: "'l \<Rightarrow> TLSConfig \<Rightarrow> 'l \<times> TLSConfig" where
  "newTLSListener inner cfg = (inner, cfg)"

definition newTLSClientConn :: "'c \<Rightarrow> TLSConfig \<Rightarrow> string \<Rightarrow> 'c \<times> TLSConfig" where
  "newTLSClientConn conn cfg serverName = (let c = cfg\<lparr>ServerName := serverName\<rparr> in (conn, c))"

text \<open>Both ends demand the certificate of the other one under the own CA.\<close>

lemma both_ends_authenticate:
  "RequireAndVerifyClientCert (snd (newTLSListener l (buildTLSConfig c pool)))"
  "ClientCAs (snd (newTLSListener l (buildTLSConfig c pool))) = pool"
  "RootCAs (snd (newTLSClientConn conn (buildTLSConfig c pool) name)) = pool"
  "Certificates (snd (newTLSClientConn conn (buildTLSConfig c pool) name)) = c"
  "ServerName (snd (newTLSClientConn conn (buildTLSConfig c pool) name)) = name"
  by (simp_all add: newTLSListener_def newTLSClientConn_def buildTLSConfig_def)

record NodeIdentity =
  CACert :: cert
  CACertPEM :: string
  identity_TLSConfig :: TLSConfig

definition certDir :: "string option \<Rightarrow> string option" where
  "certDir userConfig = (case userConfig of None \<Rightarrow> None | Some base \<Rightarrow> Some (base @ ''/aether/certs''))"

definition caKeyPath :: "string \<Rightarrow> string" where "caKeyPath dir = dir @ ''/ca.key''"
definition caCertPath :: "string \<Rightarrow> string" where "caCertPath dir = dir @ ''/ca.crt''"
definition leafKeyPath :: "string \<Rightarrow> string" where "leafKeyPath dir = dir @ ''/node.key''"
definition leafCertPath :: "string \<Rightarrow> string" where "leafCertPath dir = dir @ ''/node.crt''"

lemmas path_defs = caKeyPath_def caCertPath_def leafKeyPath_def leafCertPath_def

definition ReadFile :: "string \<Rightarrow> cert_disk \<Rightarrow> string option" where
  "ReadFile p d = (if p \<in> set (unreadable d) then None else files d p)"

definition newSerial :: "int option \<Rightarrow> instant \<Rightarrow> int" where
  "newSerial random now = (case random of None \<Rightarrow> UnixNano now | Some n \<Rightarrow> n)"

text \<open>The two templates; the clock is read once for each bound.\<close>

definition caTemplate :: "int \<Rightarrow> instant \<Rightarrow> instant \<Rightarrow> cert" where
  "caTemplate serial now1 now2 =
     \<lparr>CommonName = ''AetherCore Mesh CA'', SerialNumber = serial, NotBefore = now1 - Minute_d,
      NotAfter = now2 + 10 * 365 * 24 * Hour_d, IsCA = True, DNSNames = []\<rparr>"

definition leafTemplate :: "string \<Rightarrow> int \<Rightarrow> instant \<Rightarrow> instant \<Rightarrow> cert" where
  "leafTemplate nodeID serial now1 now2 =
     \<lparr>CommonName = nodeID, SerialNumber = serial, NotBefore = now1 - Minute_d,
      NotAfter = now2 + 90 * 24 * Hour_d, IsCA = False, DNSNames = [nodeID, ''localhost'']\<rparr>"

definition encodeECKey :: "'key x509_lib \<Rightarrow> 'key \<Rightarrow> string option" where
  "encodeECKey lib key = (case MarshalECPrivateKey lib key of None \<Rightarrow> None | Some der \<Rightarrow> Some (EncodePem lib ''EC PRIVATE KEY'' der))"

text \<open>The files are the entries of a map, so they are written in any order; the first failure ends it.\<close>

fun writeAll :: "(string \<times> string) list \<Rightarrow> cert_disk \<Rightarrow> string option \<times> cert_disk" where
  "writeAll [] d = (None, d)"
| "writeAll ((p, data) # ws) d =
     (let d' = d\<lparr>files := (files d)(p := write_file (writes d p) (files d p) data)\<rparr>
      in if writes d p \<noteq> WriteOk then (Some p, d') else writeAll ws d')"

text \<open>What one run of the generator draws: two keys, two serial numbers, and the clock.\<close>

record 'key draw =
  ca_key :: "'key option"
  leaf_key :: "'key option"
  ca_serial :: "int option"
  leaf_serial :: "int option"
  clock :: "nat \<Rightarrow> instant"

text \<open>
  \<open>arrange\<close> is the order in which the map of the four files is ranged over.
\<close>

definition generateAndSave ::
    "'key x509_lib \<Rightarrow> 'key draw \<Rightarrow> ((string \<times> string) list \<Rightarrow> (string \<times> string) list) \<Rightarrow> string \<Rightarrow> string \<Rightarrow> cert_disk
     \<Rightarrow> (identity_error + NodeIdentity) \<times> cert_disk" where
  "generateAndSave lib r arrange nodeID dir d =
     (if mkdir_fails d then (Inl MkdirFailed, d)
      else case ca_key r of None \<Rightarrow> (Inl GenerateKeyFailed, d) | Some caKey \<Rightarrow>
       (let caTmpl = caTemplate (newSerial (ca_serial r) (clock r 0)) (clock r 0) (clock r 1)
        in case CreateCertificate lib caTmpl caTmpl caKey caKey of None \<Rightarrow> (Inl SignFailed, d) | Some caCertDER \<Rightarrow>
           case ParseCertificate lib caCertDER of None \<Rightarrow> (Inl ParseCAFailed, d) | Some caCert \<Rightarrow>
           case leaf_key r of None \<Rightarrow> (Inl GenerateKeyFailed, d) | Some leafKey \<Rightarrow>
           case CreateCertificate lib (leafTemplate nodeID (newSerial (leaf_serial r) (clock r 2)) (clock r 2) (clock r 3)) caCert leafKey caKey of
             None \<Rightarrow> (Inl SignFailed, d) | Some leafCertDER \<Rightarrow>
           (let caCertPEM = EncodePem lib ''CERTIFICATE'' caCertDER
            in case encodeECKey lib caKey of None \<Rightarrow> (Inl EncodeKeyFailed, d) | Some caKeyPEM \<Rightarrow>
               (let leafCertPEM = EncodePem lib ''CERTIFICATE'' leafCertDER
                in case encodeECKey lib leafKey of None \<Rightarrow> (Inl EncodeKeyFailed, d) | Some leafKeyPEM \<Rightarrow>
                   case writeAll (arrange [(caKeyPath dir, caKeyPEM), (caCertPath dir, caCertPEM),
                          (leafKeyPath dir, leafKeyPEM), (leafCertPath dir, leafCertPEM)]) d of
                     (Some p, d') \<Rightarrow> (Inl (WriteFailed p), d')
                   | (None, d') \<Rightarrow>
                       (case X509KeyPair lib leafCertPEM leafKeyPEM of
                          None \<Rightarrow> (Inl BuildTLSFailed, d')
                        | Some tlsCert \<Rightarrow>
                            (Inr \<lparr>CACert = caCert, CACertPEM = caCertPEM,
                                  identity_TLSConfig = buildTLSConfig tlsCert caCertPEM\<rparr>, d'))))))"

definition store_complete :: "string \<Rightarrow> cert_disk \<Rightarrow> bool" where
  "store_complete dir d \<longleftrightarrow>
     (\<forall>p \<in> set [caKeyPath dir, caCertPath dir, leafKeyPath dir, leafCertPath dir]. files d p \<noteq> None)"

definition LoadOrCreateIdentity ::
    "'key x509_lib \<Rightarrow> 'key draw \<Rightarrow> ((string \<times> string) list \<Rightarrow> (string \<times> string) list) \<Rightarrow> string option \<Rightarrow> instant \<Rightarrow> string
     \<Rightarrow> cert_disk \<Rightarrow> (identity_error + NodeIdentity) \<times> cert_disk" where
  "LoadOrCreateIdentity lib r arrange userConfig now nodeID d =
     (case certDir userConfig of
        None \<Rightarrow> (Inl ConfigDirUnknown, d)
      | Some dir \<Rightarrow>
          if \<not> store_complete dir d then generateAndSave lib r arrange nodeID dir d
          else case ReadFile (caCertPath dir) d of None \<Rightarrow> (Inl ReadCAFailed, d) | Some caCertPEM \<Rightarrow>
           case DecodePem lib caCertPEM of None \<Rightarrow> (Inl ErrCertNotFound, d) | Some der \<Rightarrow>
           case ParseCertificate lib der of None \<Rightarrow> (Inl ParseCAFailed, d) | Some caCert \<Rightarrow>
             if NotAfter caCert < now then generateAndSave lib r arrange nodeID dir d
             else
               (case (ReadFile (leafCertPath dir) d, ReadFile (leafKeyPath dir) d) of
                  (Some leafCertPEM, Some leafKeyPEM) \<Rightarrow>
                    (case X509KeyPair lib leafCertPEM leafKeyPEM of
                       None \<Rightarrow> (Inl LoadLeafFailed, d)
                     | Some tlsCert \<Rightarrow>
                         if \<not> AppendCertsFromPEM lib caCertPEM then (Inl AppendCAFailed, d)
                         else (Inr \<lparr>CACert = caCert, CACertPEM = caCertPEM,
                                    identity_TLSConfig = buildTLSConfig tlsCert caCertPEM\<rparr>, d))
                | _ \<Rightarrow> (Inl LoadLeafFailed, d)))"

section \<open>The store after a boot\<close>

lemma writeAll_ok:
  assumes "writeAll ws d = (None, d')" and "distinct (map fst ws)"
  shows "unreadable d' = unreadable d"
    and "files d' p = (case map_of ws p of Some data \<Rightarrow> Some data | None \<Rightarrow> files d p)"
  using assms
proof (induction ws arbitrary: d)
  case (Cons w ws)
  obtain q data where w: "w = (q, data)" by force
  { case 1 then show ?case using Cons.IH(1) w by (auto simp: Let_def split: if_splits) }
  { case 2
    then have "writeAll ws (d\<lparr>files := (files d)(q \<mapsto> data)\<rparr>) = (None, d')" "distinct (map fst ws)" "q \<notin> fst ` set ws"
      using w by (auto simp: Let_def split: if_splits)
    then show ?case
      using Cons.IH(2)[of "d\<lparr>files := (files d)(q \<mapsto> data)\<rparr>"] w
      by (cases "p = q") (simp_all add: map_of_eq_None_iff[THEN iffD2] split: option.split) }
qed auto

lemma paths_distinct:
  "distinct [caKeyPath dir, caCertPath dir, leafKeyPath dir, leafCertPath dir]"
  by (simp add: path_defs)

definition keeps_entries :: "((string \<times> string) list \<Rightarrow> (string \<times> string) list) \<Rightarrow> bool" where
  "keeps_entries arrange \<longleftrightarrow> (\<forall>ws. mset (arrange ws) = mset ws)"

lemma map_of_arrange:
  assumes "keeps_entries arrange" and "distinct (map fst ws)"
  shows "map_of (arrange ws) = map_of ws" and "distinct (map fst (arrange ws))"
proof -
  have m: "mset (arrange ws) = mset ws" using assms(1) by (simp add: keeps_entries_def)
  then have "mset (map fst (arrange ws)) = mset (map fst ws)" by (simp only: mset_map)
  then show d: "distinct (map fst (arrange ws))" using assms(2) by (metis mset_eq_imp_distinct_iff)
  show "map_of (arrange ws) = map_of ws"
    using assms(2) d m by (intro map_of_inject_set[THEN iffD2]) (auto dest: mset_eq_setD)
qed

text \<open>What a successful generation leaves on disk.\<close>

lemma generateAndSave_ok:
  assumes "generateAndSave lib r arrange nodeID dir d = (Inr ident, d')" and "keeps_entries arrange"
  obtains caDER leafCert leafKey tlsCert where
    "store_complete dir d'" "unreadable d' = unreadable d"
    "files d' (caCertPath dir) = Some (EncodePem lib ''CERTIFICATE'' caDER)"
    "files d' (leafCertPath dir) = Some leafCert" "files d' (leafKeyPath dir) = Some leafKey"
    "X509KeyPair lib leafCert leafKey = Some tlsCert" "ParseCertificate lib caDER = Some (CACert ident)"
    "ident = \<lparr>CACert = CACert ident, CACertPEM = EncodePem lib ''CERTIFICATE'' caDER,
       identity_TLSConfig = buildTLSConfig tlsCert (EncodePem lib ''CERTIFICATE'' caDER)\<rparr>"
proof -
  obtain caDER caCert caKeyPEM leafDER leafKeyPEM tlsCert where g:
    "writeAll (arrange [(caKeyPath dir, caKeyPEM), (caCertPath dir, EncodePem lib ''CERTIFICATE'' caDER),
        (leafKeyPath dir, leafKeyPEM), (leafCertPath dir, EncodePem lib ''CERTIFICATE'' leafDER)]) d = (None, d')"
    "ParseCertificate lib caDER = Some caCert"
    "X509KeyPair lib (EncodePem lib ''CERTIFICATE'' leafDER) leafKeyPEM = Some tlsCert"
    "ident = \<lparr>CACert = caCert, CACertPEM = EncodePem lib ''CERTIFICATE'' caDER,
       identity_TLSConfig = buildTLSConfig tlsCert (EncodePem lib ''CERTIFICATE'' caDER)\<rparr>"
    using assms(1) by (auto simp: generateAndSave_def Let_def split: if_splits option.splits prod.splits)
  let ?ws = "[(caKeyPath dir, caKeyPEM), (caCertPath dir, EncodePem lib ''CERTIFICATE'' caDER),
        (leafKeyPath dir, leafKeyPEM), (leafCertPath dir, EncodePem lib ''CERTIFICATE'' leafDER)]"
  have dw: "distinct (map fst ?ws)" using paths_distinct[of dir] by simp
  note ma = map_of_arrange[OF assms(2) dw]
  note w = writeAll_ok[OF g(1) ma(2), unfolded ma(1)]
  have fs: "files d' (caKeyPath dir) = Some caKeyPEM"
    "files d' (caCertPath dir) = Some (EncodePem lib ''CERTIFICATE'' caDER)"
    "files d' (leafKeyPath dir) = Some leafKeyPEM"
    "files d' (leafCertPath dir) = Some (EncodePem lib ''CERTIFICATE'' leafDER)"
    by (simp_all add: w(2) path_defs)
  show ?thesis
    by (rule that[of caDER "EncodePem lib ''CERTIFICATE'' leafDER" leafKeyPEM tlsCert])
      (use fs g w(1) in \<open>simp_all add: store_complete_def\<close>)
qed


definition sample_cert :: cert where
  "sample_cert = \<lparr>CommonName = ''ca'', SerialNumber = 1, NotBefore = 0, NotAfter = 100, IsCA = True, DNSNames = []\<rparr>"

definition sample_lib :: "nat x509_lib" where
  "sample_lib = \<lparr>CreateCertificate = (\<lambda>t parent k s. Some (CommonName t)), ParseCertificate = (\<lambda>der. Some sample_cert),
     EncodePem = (\<lambda>kind der. ''-'' @ der), DecodePem = (\<lambda>p. case p of [] \<Rightarrow> None | c # der \<Rightarrow> Some der),
     MarshalECPrivateKey = (\<lambda>k. Some ''k''), X509KeyPair = (\<lambda>c k. Some c), AppendCertsFromPEM = (\<lambda>p. True)\<rparr>"

definition sample_draw :: "nat draw" where
  "sample_draw = \<lparr>ca_key = Some 1, leaf_key = Some 2, ca_serial = None, leaf_serial = Some 7, clock = (\<lambda>i. int i)\<rparr>"

definition empty_disk :: cert_disk where
  "empty_disk = \<lparr>files = Map.empty, unreadable = [], writes = (\<lambda>_. WriteOk), mkdir_fails = False\<rparr>"


text \<open>
  A half-written store does not heal: with all four files there, an unexpired CA and a leaf that does not
  match its key, every start fails and changes nothing.
\<close>

lemma mismatched_leaf_never_heals:
  assumes "store_complete dir d" and "dir = base @ ''/aether/certs''" and "unreadable d = []"
    and "files d (caCertPath dir) = Some ca" and "DecodePem lib ca = Some der" and "ParseCertificate lib der = Some c"
    and "now \<le> NotAfter c"
    and "files d (leafCertPath dir) = Some lc" and "files d (leafKeyPath dir) = Some lk" and "X509KeyPair lib lc lk = None"
  shows "LoadOrCreateIdentity lib r arrange (Some base) now nodeID d = (Inl LoadLeafFailed, d)"
proof -
  have rd: "ReadFile p d = files d p" for p using assms(3) by (simp add: ReadFile_def)
  show ?thesis
    unfolding LoadOrCreateIdentity_def certDir_def option.case assms(2)[symmetric] rd assms(4-6,8-10) prod.case
    using assms(1,7) by simp
qed

end
