(* ===== verification/Go_Utf8.thy ===== *)
theory Go_Utf8
  imports Go_Encoding
begin

text \<open>
  UTF-8, the encoding of Go's strings where the program looks at runes: what \<open>utf8.DecodeRune\<close> and
  \<open>utf8.AppendRune\<close> do to each other, valid strings, and \<open>to_valid\<close>, which replaces every invalid byte by
  U+FFFD, as a string does that goes through JSON.
\<close>

section \<open>Runes\<close>

lemma rune_parts:
  "k < 64 \<Longrightarrow> (a * 64 + k) div 64 = a" "k < 64 \<Longrightarrow> (a * 64 + k) mod 64 = (k :: nat)"
  by simp_all

lemma encode_rune_2:
  assumes "194 \<le> b" "b \<le> 223" "128 \<le> x" "x \<le> 191"
  shows "encode_rune ((b - 192) * 64 + (x - 128)) = [char_of b, char_of x]"
proof -
  obtain a where a: "b = 192 + a" using assms le_Suc_ex[of 192 b] by auto
  obtain k where k: "x = 128 + k" using assms le_Suc_ex[of 128 x] by auto
  have "2 \<le> a" "a < 32" "k < 64" using assms a k by auto
  then show ?thesis by (simp add: encode_rune_def Let_def a k rune_parts)
qed

lemma encode_rune_3:
  assumes "224 \<le> b" "b \<le> 239" "(if b = 224 then 160 else 128) \<le> x" "x \<le> (if b = 237 then 159 else 191)"
    and "128 \<le> y" "y \<le> 191"
  shows "encode_rune ((b - 224) * 4096 + (x - 128) * 64 + (y - 128)) = [char_of b, char_of x, char_of y]"
proof -
  obtain a where a: "b = 224 + a" using assms le_Suc_ex[of 224 b] by auto
  have "128 \<le> x" "x \<le> 191" using assms by (auto split: if_splits)
  then obtain k where k: "x = 128 + k" using le_Suc_ex[of 128 x] by auto
  obtain l where l: "y = 128 + l" using assms le_Suc_ex[of 128 y] by auto
  let ?r = "(a * 64 + k) * 64 + l"
  have b: "a < 16" "k < 64" "l < 64" "a = 0 \<longrightarrow> 32 \<le> k" "a = 13 \<longrightarrow> k < 32"
    using assms a k l by (auto split: if_splits)
  have d1: "?r div 64 = a * 64 + k" "?r mod 64 = l" by (rule rune_parts[OF b(3)])+
  have d2: "?r div 64 div 64 = a" "?r div 64 mod 64 = k" unfolding d1(1) by (rule rune_parts[OF b(2)])+
  have d3: "?r div 4096 = a" using d2(1) by (simp only: flip: div_mult2_eq) simp
  have c1: "a = 0 \<and> 32 \<le> k \<or> 1 \<le> a" and c2: "a \<le> 12 \<or> a = 13 \<and> k < 32 \<or> 14 \<le> a" using b by auto
  have n1: "\<not> ?r < 2048" using c1 by auto
  have n3: "\<not> (55296 \<le> ?r \<and> ?r \<le> 57343)" using c2 b(2,3) by auto
  have n2: "?r < 65536" using b(1-3) by simp
  note n = n1 n2
  have n3: "\<not> (?r > 1114111 \<or> (55296 \<le> ?r \<and> ?r \<le> 57343))" using n3 n2 by linarith
  have e: "(b - 224) * 4096 + (x - 128) * 64 + (y - 128) = ?r" by (simp add: a k l)
  have "\<not> ?r < 128" using n(1) by linarith
  then show ?thesis
    unfolding e encode_rune_def Let_def using n n3 by (simp only: if_False if_True d1(2) d2(2) d3) (simp add: a k l)
qed

lemma encode_rune_4:
  assumes "240 \<le> b" "b \<le> 244" "(if b = 240 then 144 else 128) \<le> x" "x \<le> (if b = 244 then 143 else 191)"
    and "128 \<le> y" "y \<le> 191" "128 \<le> z" "z \<le> 191"
  shows "encode_rune ((b - 240) * 262144 + (x - 128) * 4096 + (y - 128) * 64 + (z - 128)) =
    [char_of b, char_of x, char_of y, char_of z]"
proof -
  obtain a where a: "b = 240 + a" using assms le_Suc_ex[of 240 b] by auto
  have "128 \<le> x" "x \<le> 191" using assms by (auto split: if_splits)
  then obtain k where k: "x = 128 + k" using le_Suc_ex[of 128 x] by auto
  obtain l where l: "y = 128 + l" using assms le_Suc_ex[of 128 y] by auto
  obtain m where m: "z = 128 + m" using assms le_Suc_ex[of 128 z] by auto
  let ?r = "((a * 64 + k) * 64 + l) * 64 + m"
  have b: "a < 5" "k < 64" "l < 64" "m < 64" "a = 0 \<longrightarrow> 16 \<le> k" "a = 4 \<longrightarrow> k < 16"
    using assms a k l m by (auto split: if_splits)
  have d: "?r div 64 = (a * 64 + k) * 64 + l" "?r mod 64 = m" by (rule rune_parts[OF b(4)])+
  have e2: "?r div 64 div 64 = a * 64 + k" "?r div 64 mod 64 = l" unfolding d(1) by (rule rune_parts[OF b(3)])+
  have e3: "?r div 64 div 64 div 64 = a" "?r div 64 div 64 mod 64 = k" unfolding e2(1) by (rule rune_parts[OF b(2)])+
  have q: "n div 64 div 64 = n div 4096" "n div 4096 div 64 = n div 262144" for n :: nat
    by (simp_all only: flip: div_mult2_eq) simp_all
  have d3: "?r div 262144 = a" using e3(1) unfolding q .
  have d4: "?r div 4096 mod 64 = k" "?r div 64 mod 64 = l" using e2(2) e3(2) unfolding q by simp_all
  have c1: "a = 0 \<and> 16 \<le> k \<or> 1 \<le> a" and c2: "a \<le> 3 \<or> a = 4 \<and> k < 16" using b by auto
  have n: "\<not> ?r < 65536" using c1 by auto
  have n2: "?r \<le> 1114111" using c2 b(2-4) by auto
  have n3: "\<not> (?r > 1114111 \<or> (55296 \<le> ?r \<and> ?r \<le> 57343))" using n n2 by linarith
  have e: "(b - 240) * 262144 + (x - 128) * 4096 + (y - 128) * 64 + (z - 128) = ?r" by (simp add: a k l m)
  have "\<not> ?r < 128" "\<not> ?r < 2048" using n by linarith+
  then show ?thesis
    unfolding e encode_rune_def Let_def using n n3 by (simp only: if_False if_True d(2) d3 d4) (simp add: a k l m)
qed

text \<open>A rune of several bytes: it does not depend on what follows, and it is written as it was read.\<close>

definition wide :: "char \<Rightarrow> string \<Rightarrow> nat \<Rightarrow> bool" where
  "wide c t r \<longleftrightarrow> t \<noteq> [] \<and> (\<forall>x \<in> set (c # t). 128 \<le> byte x) \<and> (\<forall>u. decode_rune c (t @ u) = (r, Suc (length t)))
     \<and> encode_rune r = c # t \<and> length t < 4"

lemma decode_rune_cases:
  assumes "decode_rune c s = (r, w)"
  shows "(byte c < 128 \<and> r = byte c \<and> w = 1) \<or> (128 \<le> byte c \<and> r = rune_error \<and> w = 1)
    \<or> (\<exists>t u. s = t @ u \<and> w = Suc (length t) \<and> wide c t r)"
proof -
  consider (1) "byte c < 128" | (2) "194 \<le> byte c" "byte c \<le> 223" | (3) "224 \<le> byte c" "byte c \<le> 239"
    | (4) "240 \<le> byte c" "byte c \<le> 244" | (5) "128 \<le> byte c" "byte c < 194 \<or> 244 < byte c" by linarith
  then show ?thesis
  proof cases
    case 2
    with assms have d: "decode2 (byte c) s = (r, w)" by (simp add: decode_rune_def)
    show ?thesis
    proof (cases "r = rune_error \<and> w = 1")
      case False
      with d obtain x u where s: "s = x # u" and x: "is_cont 128 191 x"
        and r: "r = (byte c - 192) * 64 + (byte x - 128)" "w = 2"
        by (auto simp: decode2_def split: list.splits if_splits)
      have "wide c [x] r"
        using 2 x encode_rune_2[OF 2, of "byte x"]
        by (simp add: wide_def is_cont_def decode_rune_def decode2_def r)
      with s r(2) show ?thesis by (intro disjI2 exI[of _ "[x]"] exI[of _ u]) simp
    qed (use 2 in simp)
  next
    case 3
    with assms have d: "decode3 (byte c) s = (r, w)" by (simp add: decode_rune_def)
    show ?thesis
    proof (cases "r = rune_error \<and> w = 1")
      case False
      with d obtain x y u where s: "s = x # y # u"
        and x: "is_cont (if byte c = 224 then 160 else 128) (if byte c = 237 then 159 else 191) x" "is_cont 128 191 y"
        and r: "r = (byte c - 224) * 4096 + (byte x - 128) * 64 + (byte y - 128)" "w = 3"
        by (auto simp: decode3_def simp del: if_split split: list.splits if_splits(2))
      have "wide c [x, y] r"
        using 3 x encode_rune_3[OF 3, of "byte x" "byte y"]
        by (simp add: wide_def is_cont_def decode_rune_def decode3_def r split: if_splits)
      with s r(2) show ?thesis by (intro disjI2 exI[of _ "[x, y]"] exI[of _ u]) simp
    qed (use 3 in simp)
  next
    case 4
    with assms have d: "decode4 (byte c) s = (r, w)" by (simp add: decode_rune_def)
    show ?thesis
    proof (cases "r = rune_error \<and> w = 1")
      case False
      with d obtain x y z u where s: "s = x # y # z # u"
        and x: "is_cont (if byte c = 240 then 144 else 128) (if byte c = 244 then 143 else 191) x" "is_cont 128 191 y" "is_cont 128 191 z"
        and r: "r = (byte c - 240) * 262144 + (byte x - 128) * 4096 + (byte y - 128) * 64 + (byte z - 128)" "w = 4"
        by (auto simp: decode4_def simp del: if_split split: list.splits if_splits(2))
      have "wide c [x, y, z] r"
        using 4 x encode_rune_4[OF 4, of "byte x" "byte y" "byte z"]
        by (simp add: wide_def is_cont_def decode_rune_def decode4_def r split: if_splits)
      with s r(2) show ?thesis by (intro disjI2 exI[of _ "[x, y, z]"] exI[of _ u]) simp
    qed (use 4 in simp)
  qed (use assms in \<open>auto simp: decode_rune_def\<close>)
qed

section \<open>Valid strings\<close>

text \<open>The rune that is written for a number; a surrogate and what is no rune become U+FFFD.\<close>

definition the_rune :: "nat \<Rightarrow> nat" where
  "the_rune r = (if r > 1114111 \<or> (55296 \<le> r \<and> r \<le> 57343) then rune_error else r)"

lemma encode_the_rune: "encode_rune r = encode_rune (the_rune r)"
proof (cases "r > 1114111 \<or> (55296 \<le> r \<and> r \<le> 57343)")
  case True
  then show ?thesis by (simp add: encode_rune_def the_rune_def rune_error_def)
qed (auto simp: the_rune_def)

lemma encode_rune_ascii [simp]: "r < 128 \<Longrightarrow> encode_rune r = [char_of r]"
  by (simp add: encode_rune_def)

lemma rune_mult: "(n :: nat) div 64 * 64 + n mod 64 = n"
  by simp

lemma div_4096: "(n :: nat) div 4096 = n div 64 div 64" and div_262144: "(n :: nat) div 262144 = n div 64 div 64 div 64"
  by (simp_all only: flip: div_mult2_eq) simp_all

lemma encode_rune_wide:
  assumes "128 \<le> r" and "the_rune r = r"
  shows "\<exists>c t. encode_rune r = c # t \<and> wide c t r"
proof -
  have r: "r \<le> 1114111" "\<not> (55296 \<le> r \<and> r \<le> 57343)" using assms(2) by (auto simp: the_rune_def rune_error_def split: if_splits)
  consider (2) "r < 2048" | (3) "2048 \<le> r" "r < 65536" | (4) "65536 \<le> r" by linarith
  then show ?thesis
  proof cases
    case 2
    let ?a = "r div 64" let ?k = "r mod 64"
    have a: "2 \<le> ?a" "?a < 32" "?k < 64" using 2 assms by simp_all
    have e: "encode_rune r = [char_of (192 + ?a), char_of (128 + ?k)]" using 2 r assms by (simp add: encode_rune_def)
    have "wide (char_of (192 + ?a)) [char_of (128 + ?k)] r"
      unfolding wide_def e using a by (simp add: decode_rune_def decode2_def is_cont_def)
    with e show ?thesis by blast
  next
    case 3
    define q a k l where "q = r div 64" and "a = q div 64" and "k = q mod 64" and "l = r mod 64"
    have rr: "r = q * 64 + l" "q = a * 64 + k" and b: "k < 64" "l < 64" by (simp_all add: q_def a_def k_def l_def)
    have a: "a < 16" using 3 rr by simp
    have k: "a = 0 \<longrightarrow> 32 \<le> k" "a = 13 \<longrightarrow> k < 32" using 3 r rr b by auto
    have e: "encode_rune r = [char_of (224 + a), char_of (128 + k), char_of (128 + l)]"
      using 3 r assms by (auto simp: encode_rune_def div_4096 q_def a_def k_def l_def)
    have "wide (char_of (224 + a)) [char_of (128 + k), char_of (128 + l)] r"
      unfolding wide_def e using a b k by (auto simp: decode_rune_def decode3_def is_cont_def rr)
    with e show ?thesis by blast
  next
    case 4
    define q p a k l m where "q = r div 64" and "p = q div 64" and "a = p div 64" and "k = p mod 64"
      and "l = q mod 64" and "m = r mod 64"
    have rr: "r = q * 64 + m" "q = p * 64 + l" "p = a * 64 + k" and b: "k < 64" "l < 64" "m < 64"
      by (simp_all add: q_def p_def a_def k_def l_def m_def)
    have a: "a < 5" using r rr by simp
    have k: "a = 0 \<longrightarrow> 16 \<le> k" "a = 4 \<longrightarrow> k < 16" using 4 r rr b by auto
    have e: "encode_rune r = [char_of (240 + a), char_of (128 + k), char_of (128 + l), char_of (128 + m)]"
      using 4 r assms by (simp add: encode_rune_def div_4096 div_262144 q_def p_def a_def k_def l_def m_def)
    have "wide (char_of (240 + a)) [char_of (128 + k), char_of (128 + l), char_of (128 + m)] r"
      unfolding wide_def e using a b k by (auto simp: decode_rune_def decode4_def is_cont_def rr)
    with e show ?thesis by blast
  qed
qed

lemma chunks_wide: "wide c t r \<Longrightarrow> chunks (c # t @ u) = (r, c # t) # chunks u"
  by (simp add: wide_def)

lemma the_rune_idem [simp]: "the_rune (the_rune r) = the_rune r"
  by (simp add: the_rune_def rune_error_def)

lemma chunks_encode_rune: "chunks (encode_rune r @ u) = (the_rune r, encode_rune r) # chunks u"
proof (cases "the_rune r < 128")
  case True
  then show ?thesis using encode_the_rune[of r] by (simp del: chunks.simps)
next
  case False
  then obtain c t where "encode_rune (the_rune r) = c # t" "wide c t (the_rune r)"
    using encode_rune_wide[of "the_rune r"] by auto
  with encode_the_rune[of r] chunks_wide show ?thesis by simp
qed

definition invalid_chunk :: "nat \<times> string \<Rightarrow> bool" where
  "invalid_chunk x \<longleftrightarrow> fst x = rune_error \<and> length (snd x) = 1"

definition valid_utf8 :: "string \<Rightarrow> bool" where
  "valid_utf8 s \<longleftrightarrow> (\<forall>x \<in> set (chunks s). \<not> invalid_chunk x)"

definition to_valid :: "string \<Rightarrow> string" where
  "to_valid s = concat (map encode_rune (runes s))"

lemma valid_utf8_Nil [simp]: "valid_utf8 []"
  by (simp add: valid_utf8_def)

lemma rune_error_encoding: "length (encode_rune rune_error) = 3"
  by (simp add: encode_rune_def rune_error_def)

lemma valid_encode_rune [simp]: "valid_utf8 (encode_rune r @ s) \<longleftrightarrow> valid_utf8 s"
proof -
  have "\<not> invalid_chunk (the_rune r, encode_rune r)"
    using rune_error_encoding encode_the_rune[of r] by (auto simp: invalid_chunk_def)
  then show ?thesis by (simp add: valid_utf8_def chunks_encode_rune)
qed

lemma valid_concat_runes [simp]: "valid_utf8 (concat (map encode_rune rs))"
  by (induction rs) simp_all

lemma valid_to_valid [simp]: "valid_utf8 (to_valid s)"
  by (simp add: to_valid_def)

lemma valid_ascii_Cons [simp]: "byte c < 128 \<Longrightarrow> valid_utf8 (c # s) \<longleftrightarrow> valid_utf8 s"
  using valid_encode_rune[of "byte c" s] by simp

lemma valid_ascii: "ascii s \<Longrightarrow> valid_utf8 s"
  by (induction s) simp_all

text \<open>The chunks of a string, one by one.\<close>

lemma chunks_cases:
  assumes "x \<in> set (chunks s)"
  obtains c where "x = (byte c, [c])" "byte c < 128"
  | "invalid_chunk x"
  | c t r where "x = (r, c # t)" "wide c t r"
  using assms
proof (induction s arbitrary: thesis rule: chunks.induct)
  case (2 c s)
  obtain r w where rw: "decode_rune c s = (r, w)" by force
  show ?case
  proof (cases "x \<in> set (chunks (drop (w - 1) s))")
    case True
    then show ?thesis using "2.IH"[OF rw[symmetric] refl] "2.prems"(1-3) by blast
  next
    case False
    with "2.prems"(4) rw have x: "x = (r, c # take (w - 1) s)" by (simp del: chunks.simps(1))
    from decode_rune_cases[OF rw] show ?thesis
      using "2.prems"(1-3) x by (auto simp: invalid_chunk_def)
  qed
qed simp

lemma to_valid_id:
  assumes "valid_utf8 s"
  shows "to_valid s = s"
proof -
  have "encode_rune (fst x) = snd x" if "x \<in> set (chunks s)" for x
  proof -
    have "\<not> invalid_chunk x" using that assms by (simp add: valid_utf8_def)
    with that show ?thesis by (cases rule: chunks_cases) (auto simp: wide_def)
  qed
  then have "map (encode_rune \<circ> fst) (chunks s) = map snd (chunks s)" by simp
  then show ?thesis unfolding to_valid_def runes_def by (simp only: map_map concat_chunks)
qed

lemma to_valid_idem [simp]: "to_valid (to_valid s) = to_valid s"
  by (rule to_valid_id) simp

lemma to_valid_ascii: "ascii s \<Longrightarrow> to_valid s = s"
  by (rule to_valid_id[OF valid_ascii])

end
