(* ===== verification/Go_Json_Decode.thy ===== *)
theory Go_Json_Decode
  imports Go_Json Go_Utf8
begin

text \<open>
  JSON as \<open>encoding/json\<close> reads it: the scanner as a lexer and an automaton with an explicit stack of
  open arrays and objects (at most 10000), \<open>json.Unmarshal\<close> (the whole text is one value),
  \<open>json.NewDecoder(r).Decode\<close> (one value, the rest of the stream is not looked at), and the decoding of
  a value into a struct. A number keeps its text, a string is decoded to valid UTF-8, and every member of an object
  keeps the source text of its value, which is what a \<open>json.RawMessage\<close> holds.
\<close>

datatype jval =
    VNull
  | VBool bool
  | VNum string
  | VStr string
  | VArr "jval list"
  | VObj "(string \<times> string \<times> jval) list"

section \<open>Strings\<close>

definition is_hex :: "char \<Rightarrow> bool" where
  "is_hex c \<longleftrightarrow> hex_val c \<noteq> None"

text \<open>
  The body of a string up to its closing quote, and what follows the quote: control characters
  and unknown escapes are errors.
\<close>

definition cons_body :: "string \<Rightarrow> (string \<times> string) option \<Rightarrow> (string \<times> string) option" where
  "cons_body w r = map_option (\<lambda>(b, rest). (w @ b, rest)) r"

definition simple_escape :: "char \<Rightarrow> bool" where
  "simple_escape c \<longleftrightarrow> c \<in> set [CHR 0x22, CHR 0x5C, CHR ''/'', CHR ''b'', CHR ''f'', CHR ''n'', CHR ''r'', CHR ''t'']"

fun str_body :: "string \<Rightarrow> (string \<times> string) option" where
  "str_body [] = None"
| "str_body (c # s) =
     (if c = CHR 0x22 then Some ([], s)
      else if c = CHR 0x5C then
        (case s of
           [] \<Rightarrow> None
         | d # s' \<Rightarrow>
             if simple_escape d then cons_body [c, d] (str_body s')
             else if d = CHR ''u'' then
               (case s' of
                  h1 # h2 # h3 # h4 # s'' \<Rightarrow>
                    if is_hex h1 \<and> is_hex h2 \<and> is_hex h3 \<and> is_hex h4
                    then cons_body [c, d, h1, h2, h3, h4] (str_body s'') else None
                | _ \<Rightarrow> None)
             else None)
      else if byte c < 32 then None
      else cons_body [c] (str_body s))"

text \<open>\<open>getu4\<close>: the code unit of a \<open>\u\<close> escape at the start of a text.\<close>

definition getu4 :: "string \<Rightarrow> nat option" where
  "getu4 s =
     (case s of
        a # b # h1 # h2 # h3 # h4 # _ \<Rightarrow>
          if a = CHR 0x5C \<and> b = CHR ''u'' then
            (case (hex_val h1, hex_val h2, hex_val h3, hex_val h4) of
               (Some x1, Some x2, Some x3, Some x4) \<Rightarrow> Some (x1 * 4096 + x2 * 256 + x3 * 16 + x4)
             | _ \<Rightarrow> None)
          else None
      | _ \<Rightarrow> None)"

definition IsSurrogate :: "nat \<Rightarrow> bool" where
  "IsSurrogate r \<longleftrightarrow> 55296 \<le> r \<and> r < 57344"

text \<open>\<open>utf16.DecodeRune\<close>: the rune of a surrogate pair.\<close>

definition utf16_pair :: "nat \<Rightarrow> nat option \<Rightarrow> nat option" where
  "utf16_pair r r1 =
     (case r1 of
        Some r' \<Rightarrow>
          if 55296 \<le> r \<and> r < 56320 \<and> 56320 \<le> r' \<and> r' < 57344
          then Some ((r - 55296) * 1024 + (r' - 56320) + 65536) else None
      | None \<Rightarrow> None)"

definition unescape :: "char \<Rightarrow> char" where
  "unescape d =
     (if d = CHR ''b'' then char_of (8 :: nat) else if d = CHR ''f'' then char_of (12 :: nat) else if d = CHR ''n'' then char_of (10 :: nat)
      else if d = CHR ''r'' then char_of (13 :: nat) else if d = CHR ''t'' then char_of (9 :: nat) else d)"

text \<open>\<open>unquote\<close> on the body of a scanned string.\<close>

function unquote :: "string \<Rightarrow> string" where
  "unquote [] = []"
| "unquote (c # s) =
     (if c = CHR 0x5C then
        (case s of
           [] \<Rightarrow> []
         | d # s' \<Rightarrow>
             if d = CHR ''u'' then
               (case getu4 (c # s) of
                  None \<Rightarrow> []
                | Some r \<Rightarrow>
                    if IsSurrogate r then
                      (case utf16_pair r (getu4 (drop 4 s')) of
                         Some p \<Rightarrow> encode_rune p @ unquote (drop 10 s')
                       | None \<Rightarrow> encode_rune rune_error @ unquote (drop 4 s'))
                    else encode_rune r @ unquote (drop 4 s'))
             else if simple_escape d then unescape d # unquote s' else [])
      else (let (r, w) = decode_rune c s in encode_rune r @ unquote (drop (w - 1) s)))"
  by pat_completeness auto
termination
  by (relation "measure length") auto

section \<open>Tokens\<close>

definition is_ws :: "char \<Rightarrow> bool" where
  "is_ws c \<longleftrightarrow> byte c = 32 \<or> byte c = 9 \<or> byte c = 10 \<or> byte c = 13"

definition is_digit :: "char \<Rightarrow> bool" where
  "is_digit c \<longleftrightarrow> 48 \<le> byte c \<and> byte c \<le> 57"

definition lex_int :: "string \<Rightarrow> (string \<times> string) option" where
  "lex_int s =
     (case s of
        [] \<Rightarrow> None
      | c # r \<Rightarrow>
          if c = CHR ''0'' then Some ([c], r)
          else if is_digit c then Some (takeWhile is_digit s, dropWhile is_digit s) else None)"

definition lex_frac :: "string \<Rightarrow> (string \<times> string) option" where
  "lex_frac s =
     (case s of
        [] \<Rightarrow> Some ([], [])
      | c # r \<Rightarrow>
          if c = CHR ''.'' then
            (if takeWhile is_digit r = [] then None else Some (c # takeWhile is_digit r, dropWhile is_digit r))
          else Some ([], s))"

definition lex_exp :: "string \<Rightarrow> (string \<times> string) option" where
  "lex_exp s =
     (case s of
        [] \<Rightarrow> Some ([], [])
      | c # r \<Rightarrow>
          if c = CHR ''e'' \<or> c = CHR ''E'' then
            (let sg = (case r of [] \<Rightarrow> [] | d # _ \<Rightarrow> if d = CHR ''+'' \<or> d = CHR ''-'' then [d] else []);
                 r' = drop (length sg) r
             in if takeWhile is_digit r' = [] then None
                else Some (c # sg @ takeWhile is_digit r', dropWhile is_digit r'))
          else Some ([], s))"

definition lex_number :: "string \<Rightarrow> (string \<times> string) option" where
  "lex_number s =
     (let sg = (case s of [] \<Rightarrow> [] | d # _ \<Rightarrow> if d = CHR ''-'' then [d] else [])
      in case lex_int (drop (length sg) s) of
           None \<Rightarrow> None
         | Some (i, r1) \<Rightarrow>
             (case lex_frac r1 of
                None \<Rightarrow> None
              | Some (f, r2) \<Rightarrow>
                  (case lex_exp r2 of None \<Rightarrow> None | Some (e, r3) \<Rightarrow> Some (sg @ i @ f @ e, r3))))"

datatype tok = TLBrace | TRBrace | TLBrack | TRBrack | TColon | TComma | TScalar jval | TError

text \<open>The token that starts with \<open>c\<close>: its kind, its text and what follows it.\<close>

definition lex1 :: "char \<Rightarrow> string \<Rightarrow> tok \<times> string \<times> string" where
  "lex1 c s =
     (if c = CHR ''{'' then (TLBrace, [c], s)
      else if c = CHR ''}'' then (TRBrace, [c], s)
      else if c = CHR ''['' then (TLBrack, [c], s)
      else if c = CHR '']'' then (TRBrack, [c], s)
      else if c = CHR '':'' then (TColon, [c], s)
      else if c = CHR '','' then (TComma, [c], s)
      else if c = CHR 0x22 then
        (case str_body s of
           None \<Rightarrow> (TError, [], [])
         | Some (b, r) \<Rightarrow> (TScalar (VStr (unquote b)), c # b @ [CHR 0x22], r))
      else if c = CHR ''-'' \<or> is_digit c then
        (case lex_number (c # s) of
           None \<Rightarrow> (TError, [], [])
         | Some (n, r) \<Rightarrow> (TScalar (VNum n), n, r))
      else if HasPrefix (c # s) ''true'' then (TScalar (VBool True), ''true'', drop 3 s)
      else if HasPrefix (c # s) ''false'' then (TScalar (VBool False), ''false'', drop 4 s)
      else if HasPrefix (c # s) ''null'' then (TScalar VNull, ''null'', drop 3 s)
      else (TError, [], []))"

text \<open>A token with the white space before it. The first error is the last token.\<close>

type_synonym token = "string \<times> string \<times> tok"

lemma cons_body_Some: "cons_body w r = Some (b, t) \<longleftrightarrow> (\<exists>b'. r = Some (b', t) \<and> b = w @ b')"
  by (cases r) (auto simp: cons_body_def)

declare str_body.simps(2) [simp del]

lemma str_body_split: "str_body s = Some (b, t) \<Longrightarrow> s = b @ CHR 0x22 # t"
proof (induction s arbitrary: b t rule: str_body.induct)
  case (2 c s)
  note eq = "2.prems"[unfolded str_body.simps(2)[of c s]]
  consider "c = CHR 0x22" | "c = CHR 0x5C" | "c \<noteq> CHR 0x22" "c \<noteq> CHR 0x5C" by blast
  then show ?case
  proof cases
    case 1
    with eq show ?thesis by simp
  next
    case bs: 2
    then obtain d s' where s: "s = d # s'" using eq by (cases s) auto
    show ?thesis
    proof (cases "simple_escape d")
      case True
      with eq bs s "2.IH"(1)[OF _ bs s True] show ?thesis by (auto simp: cons_body_Some)
    next
      case False
      with eq bs s obtain h1 h2 h3 h4 s'' where u: "d = CHR ''u''" "s' = h1 # h2 # h3 # h4 # s''"
        "is_hex h1 \<and> is_hex h2 \<and> is_hex h3 \<and> is_hex h4"
        by (auto split: if_splits list.splits)
      with eq bs s False "2.IH"(2)[OF _ bs s False u(1) u(2) refl refl refl u(3)] show ?thesis
        by (auto simp: cons_body_Some)
    qed
  next
    case 3
    with eq "2.IH"(3)[OF 3] show ?thesis by (auto simp: cons_body_Some split: if_splits)
  qed
qed simp

lemma lex_int_split: "lex_int s = Some (n, t) \<Longrightarrow> s = n @ t \<and> n \<noteq> []"
  by (auto simp: lex_int_def split: list.splits if_splits)

lemma lex_frac_split: "lex_frac s = Some (n, t) \<Longrightarrow> s = n @ t"
  by (auto simp: lex_frac_def split: list.splits if_splits)

lemma lex_exp_split: "lex_exp s = Some (n, t) \<Longrightarrow> s = n @ t"
  by (auto simp: lex_exp_def Let_def split: list.splits if_splits)

lemma lex_number_parts:
  assumes "lex_number s = Some (n, t)"
  obtains sg i r1 f r2 e where "s = sg @ drop (length sg) s" and "lex_int (drop (length sg) s) = Some (i, r1)"
    and "lex_frac r1 = Some (f, r2)" and "lex_exp r2 = Some (e, t)" and "n = sg @ i @ f @ e"
proof -
  define sg where "sg = (case s of [] \<Rightarrow> [] | d # _ \<Rightarrow> if d = CHR ''-'' then [d] else [])"
  have sg: "s = sg @ drop (length sg) s" by (cases s) (simp_all add: sg_def)
  obtain i r1 where 1: "lex_int (drop (length sg) s) = Some (i, r1)"
    using assms unfolding lex_number_def Let_def sg_def[symmetric] by (cases "lex_int (drop (length sg) s)") auto
  obtain f r2 where 2: "lex_frac r1 = Some (f, r2)"
    using assms unfolding lex_number_def Let_def sg_def[symmetric] 1 by (cases "lex_frac r1") auto
  obtain e r3 where 3: "lex_exp r2 = Some (e, r3)"
    using assms unfolding lex_number_def Let_def sg_def[symmetric] 1 by (cases "lex_exp r2") (auto simp: 2)
  have "n = sg @ i @ f @ e" "t = r3"
    using assms unfolding lex_number_def Let_def sg_def[symmetric] 1 by (simp_all add: 2 3)
  with that[OF sg 1 2] 3 show ?thesis by simp
qed

lemma lex_number_split: "lex_number s = Some (n, t) \<Longrightarrow> s = n @ t \<and> n \<noteq> []"
  by (elim lex_number_parts) (drule lex_int_split lex_frac_split lex_exp_split, simp)+

lemma HasPrefix_Cons_drop: "HasPrefix (c # s) (d # p) \<Longrightarrow> c # s = (d # p) @ drop (length p) s"
  by (auto simp: HasPrefix_iff)

lemma lex1_split: "lex1 c s = (k, t, rest) \<Longrightarrow> k \<noteq> TError \<Longrightarrow> c # s = t @ rest \<and> t \<noteq> []"
  by (auto simp: lex1_def split: if_splits option.splits dest!: str_body_split lex_number_split HasPrefix_Cons_drop
      simp: eval_nat_numeral)

function tokens :: "string \<Rightarrow> token list" where
  "tokens s =
     (case dropWhile is_ws s of
        [] \<Rightarrow> []
      | c # r \<Rightarrow>
          (let (k, t, rest) = lex1 c r; w = takeWhile is_ws s
           in if k = TError then [(w, t, TError)] else (w, t, k) # tokens rest))"
  by pat_completeness auto
termination
proof (relation "measure length", goal_cases)
  case (2 s c r x k y t rest w)
  then have "c # r = t @ rest \<and> t \<noteq> []" by (intro lex1_split[of _ _ k]) auto
  then have "length rest < length (c # r)" by (cases t) auto
  moreover have "length (c # r) \<le> length s" using 2(1) length_dropWhile_le[of is_ws s] by simp
  ultimately show ?case by simp
qed simp

declare tokens.simps [simp del]

section \<open>The automaton\<close>

datatype pmode = NeedValue | NeedValueOrEnd | NeedKeyOrEnd | NeedKey | NeedColon | AfterValue

text \<open>
  An open array or object: its text so far, its elements or members, and for an object the key
  that was read last.
\<close>

datatype frame = FArr string "jval list" | FObj string "(string \<times> string \<times> jval) list" string

datatype pstate = PRun pmode "frame list" | PDone string jval | PFail

definition maxNestingDepth :: nat where "maxNestingDepth = 10000"

fun add_raw :: "string \<Rightarrow> frame list \<Rightarrow> frame list" where
  "add_raw w [] = []"
| "add_raw w (FArr r vs # st) = FArr (r @ w) vs # st"
| "add_raw w (FObj r ms k # st) = FObj (r @ w) ms k # st"

fun put :: "string \<Rightarrow> jval \<Rightarrow> frame list \<Rightarrow> pstate" where
  "put raw v [] = PDone raw v"
| "put raw v (FArr r vs # st) = PRun AfterValue (FArr (r @ raw) (vs @ [v]) # st)"
| "put raw v (FObj r ms k # st) = PRun AfterValue (FObj (r @ raw) (ms @ [(k, raw, v)]) k # st)"

fun close_frame :: "string \<Rightarrow> tok \<Rightarrow> frame list \<Rightarrow> pstate" where
  "close_frame t TRBrack (FArr r vs # st) = put (r @ t) (VArr vs) st"
| "close_frame t TRBrace (FObj r ms k # st) = put (r @ t) (VObj ms) st"
| "close_frame t k st = PFail"

definition open_value :: "string \<Rightarrow> tok \<Rightarrow> frame list \<Rightarrow> pstate" where
  "open_value t k st =
     (case k of
        TScalar v \<Rightarrow> put t v st
      | TLBrace \<Rightarrow> if length st < maxNestingDepth then PRun NeedKeyOrEnd (FObj t [] [] # st) else PFail
      | TLBrack \<Rightarrow> if length st < maxNestingDepth then PRun NeedValueOrEnd (FArr t [] # st) else PFail
      | _ \<Rightarrow> PFail)"

definition read_key :: "string \<Rightarrow> tok \<Rightarrow> frame list \<Rightarrow> pstate" where
  "read_key t k st =
     (case (k, st) of
        (TScalar (VStr s), FObj r ms _ # st') \<Rightarrow> PRun NeedColon (FObj (r @ t) ms s # st')
      | _ \<Rightarrow> PFail)"

definition next_element :: "string \<Rightarrow> frame list \<Rightarrow> pstate" where
  "next_element t st =
     (case st of
        FArr _ _ # _ \<Rightarrow> PRun NeedValue (add_raw t st)
      | FObj _ _ _ # _ \<Rightarrow> PRun NeedKey (add_raw t st)
      | [] \<Rightarrow> PFail)"

definition pstep :: "pmode \<Rightarrow> frame list \<Rightarrow> token \<Rightarrow> pstate" where
  "pstep m st0 tk =
     (let (w, t, k) = tk; st = add_raw w st0
      in case m of
           NeedValue \<Rightarrow> open_value t k st
         | NeedValueOrEnd \<Rightarrow> if k = TRBrack then close_frame t k st else open_value t k st
         | NeedKeyOrEnd \<Rightarrow> if k = TRBrace then close_frame t k st else read_key t k st
         | NeedKey \<Rightarrow> read_key t k st
         | NeedColon \<Rightarrow> if k = TColon then PRun NeedValue (add_raw t st) else PFail
         | AfterValue \<Rightarrow> if k = TComma then next_element t st else close_frame t k st)"

text \<open>The run ends with the value; the tokens that follow it are returned.\<close>

fun prun :: "pstate \<Rightarrow> token list \<Rightarrow> (string \<times> jval \<times> token list) option" where
  "prun (PDone raw v) ts = Some (raw, v, ts)"
| "prun PFail ts = None"
| "prun (PRun m st) [] = None"
| "prun (PRun m st) (t # ts) = prun (pstep m st t) ts"

definition json_scan :: "string \<Rightarrow> (string \<times> jval \<times> token list) option" where
  "json_scan s = prun (PRun NeedValue []) (tokens s)"

definition json_unmarshal :: "string \<Rightarrow> jval option" where
  "json_unmarshal s = (case json_scan s of Some (raw, v, []) \<Rightarrow> Some v | _ \<Rightarrow> None)"

definition json_decode :: "string \<Rightarrow> jval option" where
  "json_decode s = map_option (\<lambda>(raw, v, ts). v) (json_scan s)"

end
