(* ===== verification/Go_Json_Roundtrip.thy ===== *)
theory Go_Json_Roundtrip
  imports Go_Json_Decode
begin

text \<open>
  What the decoder of \<open>Go_Json_Decode\<close> makes of the texts that \<open>Go_Json\<close> writes: a string comes back with its
  invalid bytes replaced, an integer with its decimal text, a value within the nesting limit as itself, whatever follows it on
  the stream.
\<close>

section \<open>Reading what was written: strings\<close>

lemma hex_digit_byte: "n < 16 \<Longrightarrow> byte (hex_digit n) = (if n < 10 then 48 + n else 87 + n)"
  by (simp add: hex_digit_def)

lemma is_hex_digit [simp]: "n < 16 \<Longrightarrow> is_hex (hex_digit n)"
  by (simp add: is_hex_def)

lemma getu4_json_u: "r < 65536 \<Longrightarrow> getu4 (json_u r @ s) = Some r"
proof -
  assume r: "r < 65536"
  define a b c where "a = r div 16" and "b = a div 16" and "c = b div 16"
  have d: "r div 256 = b" "r div 4096 = c" by (simp_all add: a_def b_def c_def flip: div_mult2_eq)
  have "c < 16" using r d(2) by simp
  moreover have "c * 4096 + b mod 16 * 256 + a mod 16 * 16 + r mod 16 = r"
  proof -
    have "b = c * 16 + b mod 16" "a = b * 16 + a mod 16" "r = a * 16 + r mod 16" by (simp_all add: a_def b_def c_def)
    then show ?thesis by simp
  qed
  ultimately show ?thesis by (simp add: getu4_def json_u_def d a_def[symmetric])
qed

lemma str_body_json_u: "str_body (json_u r @ s) = cons_body (json_u r) (str_body s)"
  by (simp add: json_u_def str_body.simps(2) simple_escape_def)

lemma unquote_json_u:
  assumes "r < 65536" and "\<not> IsSurrogate r"
  shows "unquote (json_u r @ s) = encode_rune r @ unquote s"
proof -
  obtain h1 h2 h3 h4 where u: "json_u r = [CHR 0x5C, CHR ''u'', h1, h2, h3, h4]" by (auto simp: json_u_def)
  with getu4_json_u[OF assms(1), of s] assms(2) show ?thesis by simp
qed

lemma cons_body_append: "cons_body a (cons_body b r) = cons_body (a @ b) r"
  by (simp add: cons_body_def option.map_comp comp_def split_def)

lemma cons_body_Nil [simp]: "cons_body [] r = r"
  by (cases r) (simp_all add: cons_body_def)

lemma str_body_plain: "(\<forall>c \<in> set b. 32 \<le> byte c \<and> byte c \<noteq> 34 \<and> byte c \<noteq> 92) \<Longrightarrow> str_body (b @ s) = cons_body b (str_body s)"
proof (induction b)
  case (Cons c b)
  have "c \<noteq> CHR 0x22" "c \<noteq> CHR 0x5C" using Cons.prems by (auto simp: byte_def)
  with Cons show ?case by (simp add: str_body.simps(2) cons_body_append)
qed simp

text \<open>Each rune as it is written: the scanner passes it, and it decodes to the rune.\<close>

definition reads_back :: "nat \<times> string \<Rightarrow> bool" where
  "reads_back x \<longleftrightarrow> (\<forall>s. str_body (json_rune x @ s) = cons_body (json_rune x) (str_body s)
     \<and> unquote (json_rune x @ s) = encode_rune (fst x) @ unquote s)"

lemma reads_back_u:
  "r < 65536 \<Longrightarrow> \<not> IsSurrogate r \<Longrightarrow> json_rune (r, b) = json_u r \<Longrightarrow> reads_back (r, b)"
  by (simp add: reads_back_def str_body_json_u unquote_json_u)

lemma reads_back_escape:
  assumes "json_rune (r, b) = [CHR 0x5C, d]" and "simple_escape d" and "unescape d = char_of r" and "r < 128"
  shows "reads_back (r, b)"
proof -
  have "d \<noteq> CHR ''u''" using assms(2) by (auto simp: simple_escape_def)
  with assms show ?thesis by (simp add: reads_back_def str_body.simps(2))
qed

lemma json_rune_reads_back:
  assumes "x \<in> set (chunks s)"
  shows "reads_back x"
  using assms
proof (cases rule: chunks_cases)
  case (1 c)
  let ?r = "byte c"
  consider "?r \<in> {34, 92, 8, 12, 10, 13, 9}" | "?r \<notin> {34, 92, 8, 12, 10, 13, 9}" "?r < 32 \<or> ?r \<in> {60, 62, 38}"
    | "?r \<notin> {34, 92, 8, 12, 10, 13, 9}" "\<not> (?r < 32 \<or> ?r \<in> {60, 62, 38})" by blast
  then show ?thesis
  proof cases
    case 1
    have "\<exists>d. json_rune (?r, [c]) = [CHR 0x5C, d] \<and> simple_escape d \<and> unescape d = char_of ?r"
      using 1 by (elim insertE emptyE) (simp_all add: json_rune_def simple_escape_def unescape_def char_of_def bit_0)
    with \<open>byte c < 128\<close> \<open>x = _\<close> show ?thesis using reads_back_escape by blast
  next
    case 2
    then have "json_rune (?r, [c]) = json_u ?r" by (auto simp: json_rune_def)
    with \<open>byte c < 128\<close> \<open>x = _\<close> show ?thesis by (simp add: reads_back_u IsSurrogate_def)
  next
    case 3
    then have j: "json_rune (?r, [c]) = [c]" using \<open>byte c < 128\<close> by (simp add: json_rune_def rune_error_def)
    have "c \<noteq> CHR 0x5C" using 3 by (auto simp: byte_def)
    then have "unquote (c # s) = c # unquote s" for s using \<open>byte c < 128\<close> by (simp add: decode_rune_def)
    moreover have "str_body (c # s) = cons_body [c] (str_body s)" for s using str_body_plain[of "[c]" s] 3 by simp
    ultimately show ?thesis using \<open>byte c < 128\<close> \<open>x = _\<close> by (simp add: reads_back_def j)
  qed
next
  case 2
  then obtain b where x: "x = (rune_error, b)" "length b = 1" by (cases x) (auto simp: invalid_chunk_def)
  then have "json_rune x = json_u rune_error" by (simp add: json_rune_def rune_error_def)
  with x show ?thesis by (simp add: reads_back_u IsSurrogate_def rune_error_def)
next
  case (3 c t r)
  have r: "128 \<le> r"
  proof (rule ccontr)
    assume "\<not> 128 \<le> r"
    then have "encode_rune r = [char_of r]" by simp
    with \<open>wide c t r\<close> show False by (auto simp: wide_def)
  qed
  show ?thesis
  proof (cases "r = 8232 \<or> r = 8233")
    case True
    then have "json_rune x = json_u r" using \<open>x = _\<close> by (auto simp: json_rune_def rune_error_def)
    with True \<open>x = _\<close> show ?thesis by (auto simp: reads_back_u IsSurrogate_def)
  next
    case False
    with r have j: "json_rune x = c # t" using \<open>x = _\<close> \<open>wide c t r\<close> by (simp add: json_rune_def wide_def)
    have w: "\<forall>y \<in> set (c # t). 128 \<le> byte y" and d: "decode_rune c (t @ u) = (r, Suc (length t))"
      and e: "encode_rune r = c # t" for u using \<open>wide c t r\<close> by (simp_all add: wide_def)
    have "c \<noteq> CHR 0x5C" using w by (auto simp: byte_def)
    then have "unquote (c # t @ u) = (c # t) @ unquote u" for u by (simp add: d e)
    moreover have "str_body ((c # t) @ u) = cons_body (c # t) (str_body u)" for u using str_body_plain[of "c # t" u] w by force
    ultimately show ?thesis using \<open>x = _\<close> j by (simp add: reads_back_def e del: unquote.simps)
  qed
qed

definition string_body :: "string \<Rightarrow> string" where
  "string_body s = concat (map json_rune (chunks s))"

lemma json_string_body: "json_string s = CHR 0x22 # string_body s @ [CHR 0x22]"
  by (simp add: json_string_def string_body_def)

lemma runes_read_back:
  assumes "\<forall>x \<in> set xs. reads_back x"
  shows "str_body (concat (map json_rune xs) @ t) = cons_body (concat (map json_rune xs)) (str_body t)"
    and "unquote (concat (map json_rune xs) @ t) = concat (map (encode_rune \<circ> fst) xs) @ unquote t"
  using assms
proof (induction xs)
  case (Cons x xs)
  {
    case 1
    then have x: "str_body (json_rune x @ s) = cons_body (json_rune x) (str_body s)" for s by (simp add: reads_back_def)
    from 1 Cons show ?case by (simp add: x cons_body_append)
  next
    case 2
    then have x: "unquote (json_rune x @ s) = encode_rune (fst x) @ unquote s" for s by (simp add: reads_back_def)
    from 2 Cons show ?case by (simp add: x)
  }
qed simp_all

lemma str_body_string_body [simp]: "str_body (string_body s @ CHR 0x22 # t) = Some (string_body s, t)"
  using runes_read_back(1)[of "chunks s" "CHR 0x22 # t"] json_rune_reads_back[of _ s]
  by (simp add: string_body_def str_body.simps(2) cons_body_def)

lemma unquote_string_body [simp]: "unquote (string_body s) = to_valid s"
  using runes_read_back(2)[of "chunks s" "[]"] json_rune_reads_back[of _ s]
  by (simp add: string_body_def to_valid_def runes_def)

text \<open>Whatever text a string has, what is read from it is valid.\<close>

lemma valid_unquote [simp]: "valid_utf8 (unquote b)"
proof (induction b rule: unquote.induct)
  case (2 c s)
  show ?case
  proof (cases "c = CHR 0x5C")
    case bs: True
    show ?thesis
    proof (cases s)
      case (Cons d s')
      show ?thesis
      proof (cases "d = CHR ''u''")
        case u: True
        show ?thesis
        proof (cases "getu4 (c # s)")
          case (Some r)
          note a = bs Cons u Some
          show ?thesis
          proof (cases "IsSurrogate r")
            case True
            with a "2.IH"(1,2)[OF bs Cons u Some True] show ?thesis
              by (cases "utf16_pair r (getu4 (drop 4 s'))") simp_all
          next
            case False
            with a "2.IH"(3)[OF bs Cons u Some False] show ?thesis by simp
          qed
        qed (use bs Cons u in simp)
      next
        case False
        show ?thesis
        proof (cases "simple_escape d")
          case True
          then have "byte (unescape d) < 128"
            unfolding simple_escape_def list.set by (elim insertE emptyE) (simp_all add: unescape_def byte_def)
          with True False bs Cons "2.IH"(4)[OF bs Cons False True] show ?thesis by simp
        qed (use bs Cons False in simp)
      qed
    qed (use bs in simp)
  next
    case False
    obtain r w where rw: "decode_rune c s = (r, w)" by force
    with False "2.IH"(5)[OF False rw[symmetric] refl] show ?thesis by simp
  qed
qed simp


section \<open>Reading what was written: values\<close>

text \<open>What a value is read as: its strings are made valid, its numbers keep their decimal text.\<close>

fun jv_of :: "json \<Rightarrow> jval" and jm_of :: "string \<times> json \<Rightarrow> string \<times> string \<times> jval" where
  "jv_of JNull = VNull"
| "jv_of (JBool b) = VBool b"
| "jv_of (JInt i) = VNum (show_int i)"
| "jv_of (JStr s) = VStr (to_valid s)"
| "jv_of (JArr vs) = VArr (map jv_of vs)"
| "jv_of (JObj ms) = VObj (map jm_of ms)"
| "jm_of (k, v) = (to_valid k, json_write v, jv_of v)"

text \<open>Arrays and objects nested at most \<open>n\<close> deep.\<close>

fun fits :: "nat \<Rightarrow> json \<Rightarrow> bool" and fits_member :: "nat \<Rightarrow> string \<times> json \<Rightarrow> bool" where
  "fits n (JArr vs) = (0 < n \<and> list_all (fits (n - 1)) vs)"
| "fits n (JObj ms) = (0 < n \<and> list_all (fits_member (n - 1)) ms)"
| "fits n JNull = True"
| "fits n (JBool b) = True"
| "fits n (JInt i) = True"
| "fits n (JStr s) = True"
| "fits_member n (k, v) = fits n v"

text \<open>What may follow a value without changing how it is scanned: a number could go on.\<close>

definition ends_value :: "string \<Rightarrow> bool" where
  "ends_value t \<longleftrightarrow> t = [] \<or> hd t \<in> set [CHR '','', CHR '']'', CHR ''}'', CHR 0x0A]"

lemma lex_Cons: "\<not> is_ws c \<Longrightarrow> tokens (c # s) =
     (let (k, t, rest) = lex1 c s in if k = TError then [([], t, TError)] else ([], t, k) # tokens rest)"
  by (subst tokens.simps) (simp add: Let_def)

lemma ws_chars [simp]:
  "\<not> is_ws (CHR ''{'')" "\<not> is_ws (CHR ''}'')" "\<not> is_ws (CHR ''['')" "\<not> is_ws (CHR '']'')"
  "\<not> is_ws (CHR '':'')" "\<not> is_ws (CHR '','')" "\<not> is_ws (CHR 0x22)" "\<not> is_ws (CHR ''t'')"
  "\<not> is_ws (CHR ''f'')" "\<not> is_ws (CHR ''n'')" "\<not> is_ws (CHR ''-'')" "is_ws (CHR 0x0A)"
  by (simp_all add: is_ws_def byte_def)

lemma digit_chars [simp]:
  "\<not> is_digit (CHR '','')" "\<not> is_digit (CHR ''}'')" "\<not> is_digit (CHR '']'')" "\<not> is_digit (CHR 0x0A)"
  "\<not> is_digit (CHR ''t'')" "\<not> is_digit (CHR ''f'')" "\<not> is_digit (CHR ''n'')" "\<not> is_digit (CHR ''-'')"
  by (simp_all add: is_digit_def byte_def)

lemma lex_punct:
  "tokens (CHR ''{'' # s) = ([], ''{'', TLBrace) # tokens s" "tokens (CHR ''}'' # s) = ([], ''}'', TRBrace) # tokens s"
  "tokens (CHR ''['' # s) = ([], ''['', TLBrack) # tokens s" "tokens (CHR '']'' # s) = ([], '']'', TRBrack) # tokens s"
  "tokens (CHR '':'' # s) = ([], '':'', TColon) # tokens s" "tokens (CHR '','' # s) = ([], '','', TComma) # tokens s"
  by (simp_all add: lex_Cons lex1_def)

lemma lex_words:
  "tokens (CHR ''t'' # CHR ''r'' # CHR ''u'' # CHR ''e'' # s) = ([], ''true'', TScalar (VBool True)) # tokens s"
  "tokens (CHR ''f'' # CHR ''a'' # CHR ''l'' # CHR ''s'' # CHR ''e'' # s) = ([], ''false'', TScalar (VBool False)) # tokens s"
  "tokens (CHR ''n'' # CHR ''u'' # CHR ''l'' # CHR ''l'' # s) = ([], ''null'', TScalar VNull) # tokens s"
  by (simp_all add: lex_Cons lex1_def HasPrefix_def eval_nat_numeral)

lemma lex_string: "tokens (json_string s @ t) = ([], json_string s, TScalar (VStr (to_valid s))) # tokens t"
  by (simp add: json_string_body lex_Cons lex1_def)

lemma is_digit_show_nat: "c \<in> set (show_nat n) \<Longrightarrow> is_digit c"
proof -
  assume "c \<in> set (show_nat n)"
  then have "c \<in> set ''0123456789''" using set_show_nat by blast
  then show ?thesis unfolding list.set by (elim insertE emptyE) (simp_all add: is_digit_def byte_def)
qed

lemma digit_zero: "d < 10 \<Longrightarrow> digit d = CHR ''0'' \<longleftrightarrow> d = 0"
proof -
  assume d: "d < 10"
  have "digit d = CHR ''0'' \<longleftrightarrow> byte (digit d) = byte (CHR ''0'')" by (simp only: byte_inject)
  also have "\<dots> \<longleftrightarrow> d = 0" using d by (simp add: digit_def) (simp add: byte_def)
  finally show ?thesis .
qed

lemma show_nat_zero: "show_nat n = CHR ''0'' # r \<Longrightarrow> n = 0 \<and> r = []"
proof (induction n arbitrary: r rule: show_nat.induct)
  case (1 n)
  show ?case
  proof (cases "n < 10")
    case True
    with 1(2) show ?thesis by (simp add: show_nat.simps[of n] digit_zero)
  next
    case False
    then have "show_nat (n div 10) @ [digit (n mod 10)] = CHR ''0'' # r" using 1(2) by (simp add: show_nat.simps[of n])
    moreover obtain c q where "show_nat (n div 10) = c # q" by (cases "show_nat (n div 10)") auto
    ultimately have "n div 10 = 0" using 1(1)[OF False, of q] by simp
    with False show ?thesis by simp
  qed
qed

lemma digits_end:
  assumes "ends_value t" and "\<forall>c \<in> set ds. is_digit c"
  shows "takeWhile is_digit (ds @ t) = ds" "dropWhile is_digit (ds @ t) = t"
proof -
  have t: "takeWhile is_digit t = []" "dropWhile is_digit t = t"
    using assms(1) by (cases t; force simp: ends_value_def)+
  show "takeWhile is_digit (ds @ t) = ds" using assms(2) t(1) by (simp add: takeWhile_append)
  show "dropWhile is_digit (ds @ t) = t" using assms(2) t(2) by (simp add: dropWhile_append)
qed

lemma lex_int_show_nat: "ends_value t \<Longrightarrow> lex_int (show_nat n @ t) = Some (show_nat n, t)"
proof -
  assume t: "ends_value t"
  obtain c r where c: "show_nat n = c # r" by (cases "show_nat n") auto
  have d: "\<forall>c \<in> set (show_nat n). is_digit c" using is_digit_show_nat by blast
  note s = digits_end[OF t d, unfolded c]
  show ?thesis
  proof (cases "c = CHR ''0''")
    case True
    with show_nat_zero c have "r = []" by blast
    with c True show ?thesis by (simp add: lex_int_def)
  next
    case False
    have "is_digit c" using d c by simp
    with False s show ?thesis by (simp add: lex_int_def c)
  qed
qed

lemma no_fraction: "ends_value t \<Longrightarrow> lex_frac t = Some ([], t)" "ends_value t \<Longrightarrow> lex_exp t = Some ([], t)"
  by (cases t; force simp: lex_frac_def lex_exp_def ends_value_def)+

lemma lex_number_show_int: "ends_value t \<Longrightarrow> lex_number (show_int i @ t) = Some (show_int i, t)"
proof -
  assume t: "ends_value t"
  obtain c r where c: "show_nat (nat i) = c # r" by (cases "show_nat (nat i)") auto
  then have "is_digit c" using is_digit_show_nat[of c "nat i"] by simp
  then have "c \<noteq> CHR ''-''" by auto
  then show ?thesis
    using lex_int_show_nat[OF t, of "nat i"] lex_int_show_nat[OF t, of "nat (- i)"] no_fraction[OF t]
    by (auto simp: lex_number_def show_int_def c)
qed

lemma lex_int_token:
  assumes "ends_value t"
  shows "tokens (show_int i @ t) = ([], show_int i, TScalar (VNum (show_int i))) # tokens t"
proof -
  obtain c r where c: "show_int i = c # r" by (cases "show_int i") (auto simp: show_int_def split: if_splits)
  then have d: "c = CHR ''-'' \<or> is_digit c"
    using is_digit_show_nat[of c "nat i"] by (auto simp: show_int_def split: if_splits)
  then have b: "byte c = 45 \<or> 48 \<le> byte c \<and> byte c \<le> 57" by (auto simp: is_digit_def byte_def)
  then have "\<not> is_ws c" by (auto simp: is_ws_def)
  moreover have "c \<notin> set ''{}[]:,''" "c \<noteq> CHR 0x22" using b by (auto simp: byte_def)
  then have "lex1 c (r @ t) = (TScalar (VNum (show_int i)), show_int i, t)"
    using d lex_number_show_int[OF assms, of i] c by (simp add: lex1_def)
  ultimately show ?thesis using c by (simp add: lex_Cons)
qed


lemma add_raw_Nil [simp]: "add_raw [] st = st"
  by (cases st; cases "hd st") auto

definition reads_value :: "nat \<Rightarrow> json \<Rightarrow> bool" where
  "reads_value n v \<longleftrightarrow>
     (\<forall>m st t. m = NeedValue \<or> m = NeedValueOrEnd \<longrightarrow> length st + n \<le> maxNestingDepth \<longrightarrow> ends_value t \<longrightarrow>
        prun (PRun m st) (tokens (json_write v @ t)) = prun (put (json_write v) (jv_of v) st) (tokens t))"

lemma reads_valueD:
  assumes "reads_value n v" and "m = NeedValue \<or> m = NeedValueOrEnd" and "length st + n \<le> maxNestingDepth" and "ends_value t"
  shows "prun (PRun m st) (tokens (json_write v @ t)) = prun (put (json_write v) (jv_of v) st) (tokens t)"
  using assms unfolding reads_value_def by blast

lemma ends_value_simps [simp]:
  "ends_value []" "ends_value (CHR '','' # t)" "ends_value (CHR '']'' # t)" "ends_value (CHR ''}'' # t)"
  "ends_value (CHR 0x0A # t)"
  by (simp_all add: ends_value_def)

lemma read_elements:
  assumes "\<forall>v \<in> set vs. reads_value n v" and "vs \<noteq> []" and "m = NeedValue \<or> m = NeedValueOrEnd"
    and "length st + Suc n \<le> maxNestingDepth"
  shows "prun (PRun m (FArr r us # st)) (tokens (join_comma (map json_write vs) @ CHR '']'' # t)) =
    prun (put (r @ join_comma (map json_write vs) @ '']'') (VArr (us @ map jv_of vs)) st) (tokens t)"
  using assms
proof (induction vs arbitrary: m r us rule: induct_list012)
  case (2 v)
  then have "reads_value n v" by simp
  from reads_valueD[OF this 2(3), of "FArr r us # st" "CHR '']'' # t"] 2(4)
  show ?case by (simp add: lex_punct pstep_def)
next
  case (3 v v' vs)
  let ?t = "join_comma (map json_write (v' # vs)) @ CHR '']'' # t"
  have v: "reads_value n v" and vs: "\<forall>v \<in> set (v' # vs). reads_value n v" using 3(3) by simp_all
  from reads_valueD[OF v 3(5), of "FArr r us # st" "CHR '','' # ?t"] 3(6)
  have "prun (PRun m (FArr r us # st)) (tokens (json_write v @ CHR '','' # ?t)) =
    prun (PRun NeedValue (FArr (r @ json_write v @ '','') (us @ [jv_of v]) # st)) (tokens ?t)"
    by (simp add: lex_punct(6) pstep_def next_element_def)
  with 3(2)[OF vs, of NeedValue "r @ json_write v @ '',''" "us @ [jv_of v]"] 3(6) show ?case by simp
qed simp

lemma read_members:
  assumes "\<forall>x \<in> set ms. reads_value n (snd x)" and "ms \<noteq> []" and "m = NeedKey \<or> m = NeedKeyOrEnd"
    and "length st + Suc n \<le> maxNestingDepth"
  shows "prun (PRun m (FObj r us k # st)) (tokens (join_comma (map json_member ms) @ CHR ''}'' # t)) =
    prun (put (r @ join_comma (map json_member ms) @ ''}'') (VObj (us @ map jm_of ms)) st) (tokens t)"
proof -
  have member: "prun (PRun m (FObj r us k # st)) (tokens (json_member x @ u)) =
      prun (PRun AfterValue (FObj (r @ json_member x) (us @ [jm_of x]) (to_valid (fst x)) # st)) (tokens u)"
    if "reads_value n (snd x)" and "m = NeedKey \<or> m = NeedKeyOrEnd" and "ends_value u" for m r us k x u
  proof -
    obtain key v where x: "x = (key, v)" by force
    have "tokens (json_member x @ u) = ([], json_string key, TScalar (VStr (to_valid key))) # ([], '':'', TColon) # tokens (json_write v @ u)"
      by (simp add: x lex_string lex_punct)
    moreover have "reads_value n v" using that(1) x by simp
    note reads_valueD[OF this, of NeedValue "FObj (r @ json_string key @ '':'') us (to_valid key) # st" u]
    ultimately show ?thesis using that(2,3) assms(4) x by (auto simp: pstep_def read_key_def)
  qed
  show ?thesis
    using assms(1-3)
  proof (induction ms arbitrary: m r us k rule: induct_list012)
    case (2 x)
    with member[of x m "CHR ''}'' # t"] show ?case by (simp add: lex_punct pstep_def)
  next
    case (3 x x' ms)
    let ?t = "join_comma (map json_member (x' # ms)) @ CHR ''}'' # t"
    have vs: "\<forall>x \<in> set (x' # ms). reads_value n (snd x)" using 3(3) by simp
    from member[of x m "CHR '','' # ?t" r us k] 3(3,5)
    have "prun (PRun m (FObj r us k # st)) (tokens (json_member x @ CHR '','' # ?t)) =
      prun (PRun NeedKey (FObj (r @ json_member x @ '','') (us @ [jm_of x]) (to_valid (fst x)) # st)) (tokens ?t)"
      by (simp add: lex_punct(6) pstep_def next_element_def)
    with 3(2)[OF vs, of NeedKey "r @ json_member x @ '',''" "us @ [jm_of x]"] show ?case by simp
  qed simp
qed

lemma value_is_read:
  "fits n v \<Longrightarrow> reads_value n v"
  "fits_member n x \<Longrightarrow> reads_value n (snd x)"
proof (induction n v and n x rule: fits_fits_member.induct)
  case (1 n vs)
  then obtain n' where n: "n = Suc n'" and vs: "\<forall>v \<in> set vs. reads_value n' v" by (cases n) (auto simp: list_all_iff)
  show ?case
    unfolding reads_value_def
  proof (intro allI impI)
    fix m and st :: "frame list" and t
    assume m: "m = NeedValue \<or> m = NeedValueOrEnd" and d: "length st + n \<le> maxNestingDepth" and "ends_value t"
    have "prun (PRun m st) (tokens (json_write (JArr vs) @ t)) =
        prun (PRun NeedValueOrEnd (FArr ''['' [] # st)) (tokens (join_comma (map json_write vs) @ CHR '']'' # t))"
      using m d n by (auto simp: lex_punct(3) pstep_def open_value_def)
    also have "\<dots> = prun (put (json_write (JArr vs)) (jv_of (JArr vs)) st) (tokens t)"
    proof (cases "vs = []")
      case False
      with read_elements[OF vs False, of NeedValueOrEnd st "''[''" "[]" t] d n show ?thesis by simp
    qed (simp add: lex_punct(4) pstep_def)
    finally show "prun (PRun m st) (tokens (json_write (JArr vs) @ t)) = prun (put (json_write (JArr vs)) (jv_of (JArr vs)) st) (tokens t)" .
  qed
next
  case (2 n ms)
  then obtain n' where n: "n = Suc n'" and ms: "\<forall>x \<in> set ms. reads_value n' (snd x)" by (cases n) (auto simp: list_all_iff)
  show ?case
    unfolding reads_value_def
  proof (intro allI impI)
    fix m and st :: "frame list" and t
    assume m: "m = NeedValue \<or> m = NeedValueOrEnd" and d: "length st + n \<le> maxNestingDepth" and "ends_value t"
    have "prun (PRun m st) (tokens (json_write (JObj ms) @ t)) =
        prun (PRun NeedKeyOrEnd (FObj ''{'' [] [] # st)) (tokens (join_comma (map json_member ms) @ CHR ''}'' # t))"
      using m d n by (auto simp: lex_punct(1) pstep_def open_value_def)
    also have "\<dots> = prun (put (json_write (JObj ms)) (jv_of (JObj ms)) st) (tokens t)"
    proof (cases "ms = []")
      case False
      with read_members[OF ms False, of NeedKeyOrEnd st "''{''" "[]" "[]" t] d n show ?thesis by simp
    qed (simp add: lex_punct(2) pstep_def)
    finally show "prun (PRun m st) (tokens (json_write (JObj ms) @ t)) = prun (put (json_write (JObj ms)) (jv_of (JObj ms)) st) (tokens t)" .
  qed
qed (auto simp: reads_value_def lex_words lex_int_token lex_string pstep_def open_value_def)

lemma json_scan_write:
  assumes "fits maxNestingDepth v" and "ends_value t"
  shows "json_scan (json_write v @ t) = Some (json_write v, jv_of v, tokens t)"
  using reads_valueD[OF value_is_read(1)[OF assms(1)], of NeedValue "[]" t] assms(2) by (simp add: json_scan_def)

lemma lex_Nil [simp]: "tokens [] = []"
  by (subst tokens.simps) simp

lemma lex_newline [simp]: "tokens [CHR 0x0A] = []"
  by (subst tokens.simps) simp

text \<open>What the program writes, with or without the newline of an encoder, is read as one value.\<close>

lemma json_unmarshal_write:
  "fits maxNestingDepth v \<Longrightarrow> json_unmarshal (json_write v) = Some (jv_of v)"
  "fits maxNestingDepth v \<Longrightarrow> json_unmarshal (json_write v @ [CHR 0x0A]) = Some (jv_of v)"
  using json_scan_write[of v "[]"] json_scan_write[of v "[CHR 0x0A]"] by (simp_all add: json_unmarshal_def)

lemma json_decode_write:
  "fits maxNestingDepth v \<Longrightarrow> ends_value t \<Longrightarrow> json_decode (json_write v @ t) = Some (jv_of v)"
  by (simp add: json_decode_def json_scan_write)


end
