(* ===== verification/Kernel_Log.thy ===== *)
theory Kernel_Log
  imports Audit_Chain Go_Json_Roundtrip
begin

text \<open>
  Telemetry and logging, \<open>core/telemetry.go\<close> and \<open>core/logger.go\<close>: the boot latency, the logger that is made once, its
  children, and the lines that the JSON handler of \<open>log/slog\<close> writes for them.
\<close>

section \<open>Telemetry\<close>

record Telemetry =
  StartTime :: instant

definition InitTelemetry :: "instant \<Rightarrow> Telemetry" where
  "InitTelemetry now = \<lparr>StartTime = now\<rparr>"

definition ZeroLatency :: string where "ZeroLatency = ''0ms''"

definition BootLatency :: "Telemetry \<Rightarrow> instant \<Rightarrow> duration" where
  "BootLatency tel now = (if IsZero (StartTime tel) then 0 else Time_Sub now (StartTime tel))"

definition micro_sign :: string where "micro_sign = [CHR 0xC2, CHR 0xB5]"

text \<open>The quotients truncate towards zero, as in Go.\<close>

definition go_div :: "int \<Rightarrow> int \<Rightarrow> int" where
  "go_div a b = sgn a * sgn b * (\<bar>a\<bar> div \<bar>b\<bar>)"

definition FormatBootLatency :: "Telemetry \<Rightarrow> instant \<Rightarrow> string" where
  "FormatBootLatency tel now =
     (let lat = BootLatency tel now in
      if lat = 0 then ZeroLatency
      else if lat < Millisecond then show_int (go_div lat 1000) @ micro_sign @ ''s''
      else show_int (go_div lat Millisecond) @ ''ms'')"

lemma latency_of_a_boot:
  assumes "\<not> IsZero start" and "Millisecond \<le> now - start" and "now - start \<le> int64_max"
  shows "FormatBootLatency (InitTelemetry start) now = show_int ((now - start) div Millisecond) @ ''ms''"
  using assms by (simp add: FormatBootLatency_def BootLatency_def InitTelemetry_def Time_Sub_def Millisecond_def int64_min_def
      int64_max_def go_div_def)

section \<open>Levels\<close>

datatype log_level = LevelDebug | LevelInfo | LevelWarn | LevelError

primrec level_value :: "log_level \<Rightarrow> int" where
  "level_value LevelDebug = -4"
| "level_value LevelInfo = 0"
| "level_value LevelWarn = 4"
| "level_value LevelError = 8"

primrec level_String :: "log_level \<Rightarrow> string" where
  "level_String LevelDebug = ''DEBUG''"
| "level_String LevelInfo = ''INFO''"
| "level_String LevelWarn = ''WARN''"
| "level_String LevelError = ''ERROR''"

lemma level_value_inject: "level_value a = level_value b \<longleftrightarrow> a = b"
  by (cases a; cases b) simp_all

instantiation log_level :: linorder
begin

definition less_eq_log_level :: "log_level \<Rightarrow> log_level \<Rightarrow> bool" where
  "less_eq_log_level a b \<longleftrightarrow> level_value a \<le> level_value b"

definition less_log_level :: "log_level \<Rightarrow> log_level \<Rightarrow> bool" where
  "less_log_level a b \<longleftrightarrow> level_value a < level_value b"

instance
  by standard (auto simp: less_eq_log_level_def less_log_level_def level_value_inject)

end

section \<open>Loggers\<close>

record slog_logger =
  lg_Level :: log_level
  lg_Attrs :: "(string \<times> json) list"

text \<open>The global logger is made once: the level of the first call stays.\<close>

definition InitLogger :: "log_level \<Rightarrow> slog_logger option \<Rightarrow> slog_logger option" where
  "InitLogger level logger =
     (case logger of
        None \<Rightarrow> Some \<lparr>lg_Level = level,
          lg_Attrs = [(''service.name'', JStr ''aethercore''), (''service.version'', JStr ''v0.1.0'')]\<rparr>
      | Some l \<Rightarrow> Some l)"

definition Logger :: "slog_logger option \<Rightarrow> slog_logger \<times> slog_logger option" where
  "Logger logger =
     (case logger of None \<Rightarrow> (the (InitLogger LevelInfo logger), InitLogger LevelInfo logger) | Some l \<Rightarrow> (l, logger))"

definition With :: "(string \<times> json) list \<Rightarrow> slog_logger \<Rightarrow> slog_logger" where
  "With attrs l = l\<lparr>lg_Attrs := lg_Attrs l @ attrs\<rparr>"

definition WithComponent :: "string \<Rightarrow> slog_logger option \<Rightarrow> slog_logger \<times> slog_logger option" where
  "WithComponent component logger = (let (l, g) = Logger logger in (With [(''component'', JStr component)] l, g))"

definition WithTask :: "string \<Rightarrow> slog_logger option \<Rightarrow> slog_logger \<times> slog_logger option" where
  "WithTask taskID logger = (let (l, g) = Logger logger in (With [(''task_id'', JStr taskID)] l, g))"

lemma first_level_stays: "InitLogger b (InitLogger a logger) = InitLogger a logger"
  by (cases logger) (simp_all add: InitLogger_def)

section \<open>Lines\<close>

text \<open>\<open>ReplaceAttr\<close> of the handler, for the built-in attributes and all others.\<close>

definition replaceKey :: "string \<Rightarrow> string" where
  "replaceKey k = (if k = ''time'' then ''timestamp'' else k)"

text \<open>
  The strings of the JSON handler: as \<open>encoding/json\<close> writes them, but without the escapes for HTML, and
  with \<open>\u\<close> for backspace and form feed.
\<close>

definition slog_rune :: "nat \<times> string \<Rightarrow> string" where
  "slog_rune x =
     (let (r, b) = x in
      if r = 34 then [CHR 0x5C, CHR 0x22]
      else if r = 92 then [CHR 0x5C, CHR 0x5C]
      else if r = 10 then CHR 0x5C # ''n''
      else if r = 13 then CHR 0x5C # ''r''
      else if r = 9 then CHR 0x5C # ''t''
      else if r < 32 then json_u r
      else if r = rune_error \<and> length b = 1 then json_u rune_error
      else if r = 8232 \<or> r = 8233 then json_u r
      else b)"

definition slog_body :: "string \<Rightarrow> string" where
  "slog_body s = concat (map slog_rune (chunks s))"

definition slog_string :: "string \<Rightarrow> string" where
  "slog_string s = CHR 0x22 # slog_body s @ [CHR 0x22]"

text \<open>The values that the program logs: strings, numbers and durations, and the time.\<close>

fun slog_value :: "json \<Rightarrow> string" where
  "slog_value (JStr s) = slog_string s"
| "slog_value (JInt i) = show_int i"
| "slog_value (JBool b) = (if b then ''true'' else ''false'')"
| "slog_value _ = ''null''"

definition slog_attr :: "string \<times> json \<Rightarrow> string" where
  "slog_attr a = slog_string (replaceKey (fst a)) @ '':'' @ slog_value (snd a)"

definition slog_time :: "timestamp \<Rightarrow> json" where
  "slog_time ts =
     (case time_json ts of Some v \<Rightarrow> v | None \<Rightarrow> JStr ''!ERROR:time.Time year outside of range [0,9999]'')"

definition log_line :: "slog_logger \<Rightarrow> log_level \<Rightarrow> timestamp \<Rightarrow> string \<Rightarrow> (string \<times> json) list \<Rightarrow> string option" where
  "log_line l level now msg attrs =
     (if level < lg_Level l then None
      else Some (''{'' @ join_comma (map slog_attr
        ((if IsZero (fst now) then [] else [(''time'', slog_time now)])
         @ [(''level'', JStr (level_String level)), (''msg'', JStr msg)] @ lg_Attrs l @ attrs)) @ ''}'' @ [CHR 0x0A]))"

section \<open>A line stays a line\<close>

definition no_control :: "string \<Rightarrow> bool" where
  "no_control s \<longleftrightarrow> (\<forall>c \<in> set s. 32 \<le> byte c)"

lemma no_control_simps [simp]:
  "no_control []" "no_control (c # s) \<longleftrightarrow> 32 \<le> byte c \<and> no_control s" "no_control (s @ t) \<longleftrightarrow> no_control s \<and> no_control t"
  by (auto simp: no_control_def)

lemma no_control_json_u: "no_control (json_u r)"
proof -
  have "32 \<le> byte (hex_digit n)" if "n < 16" for n using that by (simp add: hex_digit_byte)
  then show ?thesis by (simp add: json_u_def byte_def[of "CHR 0x5C"] byte_def[of "CHR ''u''"])
qed

lemma no_control_slog_rune:
  assumes "x \<in> set (chunks s)"
  shows "no_control (slog_rune x)"
  using assms
proof (cases rule: chunks_cases)
  case (1 c)
  then show ?thesis
    by (auto simp: slog_rune_def no_control_json_u byte_def[of "CHR 0x5C"] byte_def[of "CHR 0x22"] byte_def[of "CHR ''n''"]
        byte_def[of "CHR ''r''"] byte_def[of "CHR ''t''"])
next
  case 2
  then obtain b where "x = (rune_error, b)" "length b = 1" by (cases x) (auto simp: invalid_chunk_def)
  then show ?thesis by (simp add: slog_rune_def rune_error_def no_control_json_u)
next
  case (3 c t r)
  have r: "128 \<le> r"
  proof (rule ccontr)
    assume "\<not> 128 \<le> r"
    then have "encode_rune r = [char_of r]" by simp
    with \<open>wide c t r\<close> show False by (auto simp: wide_def)
  qed
  have "no_control (c # t)" using \<open>wide c t r\<close> by (force simp: wide_def no_control_def)
  with r \<open>x = _\<close> show ?thesis by (simp add: slog_rune_def no_control_json_u)
qed

lemma no_control_concat: "\<forall>s \<in> set ss. no_control s \<Longrightarrow> no_control (concat ss)"
  by (induction ss) auto

lemma no_control_join: "\<forall>s \<in> set ss. no_control s \<Longrightarrow> no_control (join_comma ss)"
  by (induction ss rule: join_comma.induct) (auto simp: byte_def[of "CHR '',''"])

lemma no_control_slog_string: "no_control (slog_string s)"
  using no_control_slog_rune by (auto simp: slog_string_def slog_body_def byte_def[of "CHR 0x22"] intro!: no_control_concat)

lemma no_control_show_int: "no_control (show_int i)"
proof -
  have "\<forall>c \<in> set ''0123456789''. 32 \<le> byte c" by (simp add: byte_def)
  then have "no_control (show_nat n)" for n using set_show_nat[of n] by (auto simp: no_control_def)
  then show ?thesis by (simp add: show_int_def byte_def[of "CHR ''-''"])
qed

lemma no_control_slog_attr: "no_control (slog_attr a)"
  by (cases "snd a") (simp_all add: slog_attr_def no_control_slog_string no_control_show_int byte_def)

text \<open>
  Whatever strings a message and its attributes hold, an entry is one line: nothing in it can end the line and start a
  forged one.
\<close>

lemma log_line_is_one_line:
  assumes "log_line l level now msg attrs = Some line"
  shows "\<exists>text. line = text @ [CHR 0x0A] \<and> no_control text"
proof -
  define ms where "ms = map slog_attr ((if IsZero (fst now) then [] else [(''time'', slog_time now)])
    @ [(''level'', JStr (level_String level)), (''msg'', JStr msg)] @ lg_Attrs l @ attrs)"
  have "line = (''{'' @ join_comma ms @ ''}'') @ [CHR 0x0A]" using assms by (simp add: log_line_def ms_def split: if_splits)
  moreover have "\<forall>s \<in> set ms. no_control s" using no_control_slog_attr by (auto simp: ms_def)
  ultimately show ?thesis using no_control_join by (auto simp: byte_def)
qed

section \<open>A string can be read back\<close>

lemma slog_rune_reads_back:
  assumes "x \<in> set (chunks s)"
  shows "str_body (slog_rune x @ t) = cons_body (slog_rune x) (str_body t) \<and> unquote (slog_rune x @ t) = encode_rune (fst x) @ unquote t"
proof (cases "fst x \<in> {8, 12, 60, 62, 38}")
  case False
  then have "slog_rune x = json_rune x" by (cases x) (auto simp: slog_rune_def json_rune_def)
  with json_rune_reads_back[OF assms] show ?thesis by (simp add: reads_back_def)
next
  case True
  from assms show ?thesis
  proof (cases rule: chunks_cases)
    case (1 c)
    show ?thesis
    proof (cases "byte c < 32")
      case True
      then have "slog_rune x = json_u (byte c)" using \<open>fst x \<in> _\<close> \<open>x = _\<close> by (auto simp: slog_rune_def)
      with True \<open>x = _\<close> show ?thesis by (simp add: str_body_json_u unquote_json_u IsSurrogate_def)
    next
      case False
      then have c: "byte c \<in> {60, 62, 38}" using \<open>fst x \<in> _\<close> \<open>x = _\<close> by auto
      then have j: "slog_rune x = [c]" using \<open>x = _\<close> by (auto simp: slog_rune_def rune_error_def)
      have "c \<noteq> CHR 0x5C" using c by (auto simp: byte_def)
      then have "unquote (c # s) = c # unquote s" for s using \<open>byte c < 128\<close> by (simp add: decode_rune_def)
      moreover have "str_body (c # s) = cons_body [c] (str_body s)" for s using str_body_plain[of "[c]" s] c by auto
      moreover have "fst x = byte c" using \<open>x = _\<close> by simp
      ultimately show ?thesis using \<open>byte c < 128\<close> unfolding j by (simp del: unquote.simps)
    qed
  next
    case 2
    with True show ?thesis by (cases x) (auto simp: invalid_chunk_def rune_error_def)
  next
    case (3 c t r)
    then have "r < 128" using True by auto
    then have "encode_rune r = [char_of r]" by simp
    with 3 show ?thesis by (auto simp: wide_def)
  qed
qed

lemma slog_body_reads_back:
  "str_body (slog_body s @ CHR 0x22 # t) = Some (slog_body s, t) \<and> unquote (slog_body s) = to_valid s"
proof -
  have "str_body (concat (map slog_rune xs) @ u) = cons_body (concat (map slog_rune xs)) (str_body u) \<and>
      unquote (concat (map slog_rune xs) @ u) = concat (map (encode_rune \<circ> fst) xs) @ unquote u"
    if "set xs \<subseteq> set (chunks s)" for xs u
    using that
  proof (induction xs)
    case (Cons x xs)
    then show ?case using slog_rune_reads_back[of x s "concat (map slog_rune xs) @ u"] by (simp add: cons_body_append)
  qed simp
  from this[of "chunks s" "CHR 0x22 # t"] this[of "chunks s" "[]"] show ?thesis
    by (simp add: slog_body_def to_valid_def runes_def str_body.simps(2) cons_body_def)
qed

end
