(* ===== verification/Auth_Tokens.thy ===== *)
theory Auth_Tokens
  imports Go_Time Go_Encoding
begin

text \<open>
  The session token of a node (\<open>core/auth.go\<close>) and the commands that obtain and delete it
  (\<open>cmd/aether/auth.go\<close>). The token file is a string that may be absent; beside it stand the requests sent to
  the auth server so far. The parameters are the
  JSON decoder of the claims (given by \<open>Auth_Wire\<close>), RSA and SHA-256, the answers of the auth
  server, and failures of the disk.
\<close>

section \<open>The token file\<close>

record token_disk =
  token_file :: "string option"
  sent :: "string list"
  read_fails :: bool
  writing :: write_outcome
  remove_fails :: bool

definition write_fails :: "token_disk \<Rightarrow> bool" where
  "write_fails d \<longleftrightarrow> writing d \<noteq> WriteOk"

datatype auth_error =
    ErrNoToken
  | ErrInvalidToken
  | ErrTokenExpired
  | ErrSignatureInvalid
  | ErrInvalidIssuer
  | ErrRefreshFailed int
  | DiskError
  | HttpError
  | BadRefreshBody

definition token_Save :: "string \<Rightarrow> token_disk \<Rightarrow> auth_error option \<times> token_disk" where
  "token_Save token d =
     (if writing d = WriteOk then None else Some DiskError,
      d\<lparr>token_file := write_file (writing d) (token_file d) token\<rparr>)"

lemma token_Save_ok: "\<not> write_fails d \<Longrightarrow> token_Save token d = (None, d\<lparr>token_file := Some token\<rparr>)"
  by (simp add: token_Save_def write_fails_def)

definition token_Load :: "token_disk \<Rightarrow> auth_error + string" where
  "token_Load d =
     (case token_file d of
        None \<Rightarrow> Inl ErrNoToken
      | Some data \<Rightarrow> if read_fails d then Inl DiskError else Inr (TrimSpace data))"

definition token_Delete :: "token_disk \<Rightarrow> auth_error option \<times> token_disk" where
  "token_Delete d =
     (if token_file d = None then (None, d)
      else if remove_fails d then (Some DiskError, d) else (None, d\<lparr>token_file := None\<rparr>))"

lemma token_Save_Load:
  assumes "fst (token_Save token d) = None" and "\<not> read_fails d"
  shows "token_Load (snd (token_Save token d)) = Inr (TrimSpace token)"
  using assms by (simp add: token_Save_def token_Load_def split: if_splits)

lemma token_Delete_Load:
  assumes "fst (token_Delete d) = None"
  shows "token_Load (snd (token_Delete d)) = Inl ErrNoToken"
  using assms by (simp add: token_Delete_def token_Load_def split: if_splits)

section \<open>Offline verification\<close>

record JWTPayload =
  Subject :: string
  Email :: string
  IssuedAt :: int
  ExpiresAt :: int
  jwt_Version :: string
  Issuer :: string

definition authDomain :: string where
  "authDomain = ''auth.aethercore.brainexia.com''"

text \<open>
  \<open>pubkey\<close> is the key of the verifier, nil as \<open>None\<close>; \<open>rsa_ok\<close> tells whether a signature of a
  hash is good.
\<close>

definition Verify ::
    "(string \<Rightarrow> JWTPayload option) \<Rightarrow> (string \<Rightarrow> string) \<Rightarrow> ('key \<Rightarrow> string \<Rightarrow> string \<Rightarrow> bool) \<Rightarrow> 'key option
     \<Rightarrow> instant \<Rightarrow> string \<Rightarrow> auth_error + JWTPayload" where
  "Verify unmarshal sha256 rsa_ok pubkey now token =
     (let parts = Split (CHR ''.'') token in
      if length parts \<noteq> 3 then Inl ErrInvalidToken
      else
        (case raw_url_base64_decode (parts ! 1) of
           None \<Rightarrow> Inl ErrInvalidToken
         | Some payloadRaw \<Rightarrow>
             (case unmarshal payloadRaw of
                None \<Rightarrow> Inl ErrInvalidToken
              | Some payload \<Rightarrow>
                  if Unix_seconds now > ExpiresAt payload then Inl ErrTokenExpired
                  else if Issuer payload \<noteq> authDomain then Inl ErrInvalidIssuer
                  else
                    (case pubkey of
                       None \<Rightarrow> Inr payload
                     | Some key \<Rightarrow>
                         (case raw_url_base64_decode (parts ! 2) of
                            None \<Rightarrow> Inl ErrInvalidToken
                          | Some sig \<Rightarrow>
                              if rsa_ok key (sha256 (parts ! 0 @ ''.'' @ parts ! 1)) sig then Inr payload
                              else Inl ErrSignatureInvalid)))))"

text \<open>A token is three dot-free parts; \<open>claims\<close> reads the middle one.\<close>

definition jwt_parts :: "string \<Rightarrow> string \<Rightarrow> string \<Rightarrow> string \<Rightarrow> bool" where
  "jwt_parts token h p s \<longleftrightarrow> token = h @ ''.'' @ p @ ''.'' @ s \<and> CHR ''.'' \<notin> set h \<and> CHR ''.'' \<notin> set p \<and> CHR ''.'' \<notin> set s"

definition claims :: "(string \<Rightarrow> JWTPayload option) \<Rightarrow> string \<Rightarrow> JWTPayload option" where
  "claims unmarshal p = (case raw_url_base64_decode p of None \<Rightarrow> None | Some raw \<Rightarrow> unmarshal raw)"

lemma no_sep_in_Split: "w \<in> set (Split sep s) \<Longrightarrow> sep \<notin> set w"
  by (induction s arbitrary: w) (auto split: if_splits list.splits)

lemma Split_three:
  "Split (CHR ''.'') token = [h, p, s] \<longleftrightarrow> jwt_parts token h p s"
proof
  assume a: "Split (CHR ''.'') token = [h, p, s]"
  then have "token = h @ ''.'' @ p @ ''.'' @ s" using join_with_Split[of "CHR ''.''" token] by simp
  moreover have "\<forall>w \<in> {h, p, s}. CHR ''.'' \<notin> set w" using no_sep_in_Split[of _ "CHR ''.''" token] a by simp
  ultimately show "jwt_parts token h p s" by (simp add: jwt_parts_def)
next
  assume "jwt_parts token h p s"
  then show "Split (CHR ''.'') token = [h, p, s]"
    by (simp add: jwt_parts_def Split_append Split_word)
qed

lemma length_three: "length xs = 3 \<longleftrightarrow> (\<exists>a b c. xs = [a, b, c])"
  by (auto simp: numeral_3_eq_3 length_Suc_conv)

lemma Verify_parts:
  assumes "jwt_parts token h p s"
  shows "Verify unmarshal sha256 rsa_ok pubkey now token =
    (case claims unmarshal p of
       None \<Rightarrow> Inl ErrInvalidToken
     | Some payload \<Rightarrow>
         if Unix_seconds now > ExpiresAt payload then Inl ErrTokenExpired
         else if Issuer payload \<noteq> authDomain then Inl ErrInvalidIssuer
         else case pubkey of None \<Rightarrow> Inr payload
              | Some key \<Rightarrow> (case raw_url_base64_decode s of None \<Rightarrow> Inl ErrInvalidToken
                   | Some sig \<Rightarrow> if rsa_ok key (sha256 (h @ ''.'' @ p)) sig then Inr payload else Inl ErrSignatureInvalid))"
  using assms unfolding Verify_def Let_def Split_three[symmetric] claims_def
  by (simp split: option.split)

lemma Verify_no_parts:
  assumes "\<nexists>h p s. jwt_parts token h p s"
  shows "Verify unmarshal sha256 rsa_ok pubkey now token = Inl ErrInvalidToken"
  using assms unfolding Verify_def Let_def Split_three[symmetric] length_three by simp

text \<open>The claims themselves: a token that is written for given claims reads back as them.\<close>

definition jwt_token :: "string \<Rightarrow> string \<Rightarrow> string \<Rightarrow> string" where
  "jwt_token header body sig = raw_url_base64 header @ ''.'' @ raw_url_base64 body @ ''.'' @ raw_url_base64 sig"

lemma raw_url_base64_no_dot: "CHR ''.'' \<notin> set (raw_url_base64 s)"
proof
  assume "CHR ''.'' \<in> set (raw_url_base64 s)"
  then obtain n where "n < 64" "CHR ''.'' = b64_char 45 95 n"
    using b64_text_encode[of s] by (auto simp: b64_text_def raw_url_base64_def)
  then have "byte (CHR ''.'') = byte (b64_char 45 95 n)" by simp
  with \<open>n < 64\<close> show False by (auto simp: byte_def b64_char_def split: if_splits)
qed

lemma jwt_token_parts: "jwt_parts (jwt_token header body sig) (raw_url_base64 header) (raw_url_base64 body) (raw_url_base64 sig)"
  by (simp add: jwt_parts_def jwt_token_def raw_url_base64_no_dot)

text \<open>
  C22: The verifier accepts a token, with its claims, exactly when the token is three dot-free
  parts, the middle one decodes to the claims, they are not expired at the current second, the
  issuer is the auth domain, and, if the verifier has a key, the third part is a signature of the first
  two under it. The first part (the algorithm) and the time of issue are never looked at.
\<close>

theorem token_accepted_iff:
  "Verify unmarshal sha256 rsa_ok pubkey now token = Inr payload \<longleftrightarrow>
     (\<exists>h p s. jwt_parts token h p s \<and> claims unmarshal p = Some payload
        \<and> Unix_seconds now \<le> ExpiresAt payload \<and> Issuer payload = authDomain
        \<and> (\<forall>key. pubkey = Some key \<longrightarrow>
             (\<exists>sig. raw_url_base64_decode s = Some sig \<and> rsa_ok key (sha256 (h @ ''.'' @ p)) sig)))"
proof (cases "\<exists>h p s. jwt_parts token h p s")
  case True
  then obtain h p s where t: "jwt_parts token h p s" by blast
  have uniq: "jwt_parts token h' p' s' \<longleftrightarrow> h' = h \<and> p' = p \<and> s' = s" for h' p' s'
    using t unfolding Split_three[symmetric] by auto
  show ?thesis
    unfolding Verify_parts[OF t] uniq
    by (cases pubkey) (auto split: option.splits if_splits)
next
  case False
  then show ?thesis unfolding Verify_no_parts[OF False] by auto
qed

lemma token_accepted_iff_witness:
  "let pl = \<lparr>Subject = ''u'', Email = [], IssuedAt = 5, ExpiresAt = 9, jwt_Version = [], Issuer = authDomain\<rparr>
   in Verify (\<lambda>b. Some pl) id (\<lambda>k h s. s = k) (Some ''good'') unix_epoch (jwt_token ''{}'' ''u'' ''good'') = Inr pl"
proof -
  define pl where "pl = \<lparr>Subject = ''u'', Email = [], IssuedAt = 5, ExpiresAt = 9, jwt_Version = [], Issuer = authDomain\<rparr>"
  have pl: "Unix_seconds unix_epoch \<le> ExpiresAt pl" "Issuer pl = authDomain"
    by (simp_all add: pl_def Unix_seconds_def unix_epoch_def Second_def)
  have c: "claims (\<lambda>b. Some pl) (raw_url_base64 ''u'') = Some pl" by (simp add: claims_def raw_url_base64_roundtrip)
  have sig: "\<forall>key. Some ''good'' = Some key \<longrightarrow>
      (\<exists>sg. raw_url_base64_decode (raw_url_base64 ''good'') = Some sg \<and> sg = key)"
    by (simp only: raw_url_base64_roundtrip option.inject) simp
  have "Verify (\<lambda>b. Some pl) id (\<lambda>k h s. s = k) (Some ''good'') unix_epoch (jwt_token ''{}'' ''u'' ''good'') = Inr pl"
    by (rule iffD2[OF token_accepted_iff], intro exI conjI, rule jwt_token_parts, rule c, rule pl(1), rule pl(2), rule sig)
  then show ?thesis unfolding Let_def pl_def[symmetric] .
qed

text \<open>
  A verifier without a key (the one the commands build) accepts any unexpired claims of the
  right issuer under any header and any signature; with a key, it accepts the same token
  exactly if the signature is good.
\<close>

lemma signature_only_counts_with_key:
  assumes "unmarshal body = Some payload" and "Unix_seconds now \<le> ExpiresAt payload" and "Issuer payload = authDomain"
  shows "Verify unmarshal sha256 rsa_ok None now (jwt_token header body sig) = Inr payload \<and>
    Verify unmarshal sha256 rsa_ok (Some key) now (jwt_token header body sig) =
      (if rsa_ok key (sha256 (raw_url_base64 header @ ''.'' @ raw_url_base64 body)) sig then Inr payload
       else Inl ErrSignatureInvalid)"
  using assms by (simp_all add: Verify_parts[OF jwt_token_parts] claims_def raw_url_base64_roundtrip)

lemma signature_only_counts_with_key_witness:
  "Verify (\<lambda>b. Some \<lparr>Subject = b, Email = [], IssuedAt = 0, ExpiresAt = 9, jwt_Version = [], Issuer = authDomain\<rparr>)
     (\<lambda>x. x) (\<lambda>(k :: nat) h s. False) None 0 (jwt_token ''{}'' ''root'' ''forged'')
   = Inr \<lparr>Subject = ''root'', Email = [], IssuedAt = 0, ExpiresAt = 9, jwt_Version = [], Issuer = authDomain\<rparr>"
  by (rule signature_only_counts_with_key[THEN conjunct1]) (simp_all add: Unix_seconds_def Second_def)

section \<open>Refresh and authentication\<close>

text \<open>
  The answer of the auth server: no answer, or a status and a body, which may fail to be read. \<open>decode_body\<close> is
  the token field of a refresh body, the empty string when it is missing.
\<close>

datatype refresh_answer = NoAnswer | Answer int "string option"

definition refresh_body :: "string \<Rightarrow> string" where
  "refresh_body oldToken = ''{'' @ [CHR 0x22] @ ''token'' @ [CHR 0x22] @ '':'' @ [CHR 0x22] @ oldToken @ [CHR 0x22] @ ''}''"

definition SilentRefresh ::
    "(string \<Rightarrow> string option) \<Rightarrow> (string \<Rightarrow> auth_error + JWTPayload) \<Rightarrow> (string \<Rightarrow> refresh_answer) \<Rightarrow> string
     \<Rightarrow> token_disk \<Rightarrow> (auth_error + JWTPayload) \<times> token_disk" where
  "SilentRefresh decode_body verify server oldToken d0 =
     (let d = d0\<lparr>sent := sent d0 @ [refresh_body oldToken]\<rparr> in
      case server (refresh_body oldToken) of
        NoAnswer \<Rightarrow> (Inl HttpError, d)
      | Answer status body \<Rightarrow>
          if status \<noteq> 200 then (Inl (ErrRefreshFailed status), d)
          else
            (case body of
               None \<Rightarrow> (Inl HttpError, d)
             | Some b \<Rightarrow>
                 (case decode_body b of
                    None \<Rightarrow> (Inl BadRefreshBody, d)
                  | Some token \<Rightarrow>
                      (case token_Save token d of
                         (Some e, d') \<Rightarrow> (Inl e, d')
                       | (None, d') \<Rightarrow> (verify token, d')))))"

text \<open>\<open>time.Unix\<close> counts from year 1 on 64 bits.\<close>

definition time_Unix :: "int \<Rightarrow> instant" where
  "time_Unix secs = wrap64 (secs + 62135596800) * Second"

text \<open>
  The result, the disk, and whether a background refresh with the token was started. \<open>verify\<close> is
  \<open>Verify\<close> at the current time with the key of the manager.
\<close>

definition Authenticate ::
    "(string \<Rightarrow> string option) \<Rightarrow> (string \<Rightarrow> auth_error + JWTPayload) \<Rightarrow> (string \<Rightarrow> refresh_answer) \<Rightarrow> instant
     \<Rightarrow> token_disk \<Rightarrow> (auth_error + JWTPayload) \<times> token_disk \<times> string option" where
  "Authenticate decode_body verify server now d =
     (case token_Load d of
        Inl e \<Rightarrow> (Inl e, d, None)
      | Inr token \<Rightarrow>
          (case verify token of
             Inl e \<Rightarrow>
               if e = ErrTokenExpired then
                 (case SilentRefresh decode_body verify server token d of (r, d') \<Rightarrow> (r, d', None))
               else (Inl e, d, None)
           | Inr payload \<Rightarrow>
               if Time_Sub (time_Unix (ExpiresAt payload)) now < 7 * 24 * Hour_d then (Inr payload, d, Some token)
               else (Inr payload, d, None)))"

lemma SilentRefresh_cases:
  "fst (SilentRefresh decode_body verify server old d) = Inr payload \<Longrightarrow>
     \<exists>token. token_file (snd (SilentRefresh decode_body verify server old d)) = Some token \<and> verify token = Inr payload"
  by (auto simp: SilentRefresh_def token_Save_def Let_def split: refresh_answer.splits option.splits if_splits)

text \<open>
  What a refresh leaves on disk: the old file, or what a save of the server's token makes of it, which may be a piece
  of that token. It sends one request.
\<close>

lemma SilentRefresh_disk:
  "let d1 = d\<lparr>sent := sent d @ [refresh_body old]\<rparr>; d' = snd (SilentRefresh decode_body verify server old d)
   in d' = d1 \<or> (\<exists>b token. server (refresh_body old) = Answer 200 (Some b) \<and> decode_body b = Some token \<and> d' = snd (token_Save token d1))"
  by (auto simp: SilentRefresh_def Let_def split: refresh_answer.splits option.splits if_splits prod.splits)

lemma token_Save_disk:
  "token_file (snd (token_Save token d)) = token_file d \<or> (\<exists>n. token_file (snd (token_Save token d)) = Some (take n token))"
  by (cases "writing d") (auto simp: token_Save_def intro: exI[of _ "length token"])

text \<open>
  C28: Nobody is authenticated on an unverified token: whenever \<open>Authenticate\<close> returns claims, they
  are the ones the verifier read from the token now on disk (the stored one, trimmed, or the one the
  auth server sent to replace an expired one). A background refresh is started exactly when these claims
  were accepted from the stored token and expire within seven days, and only such an accepted
  or expired token is ever sent to the server.
\<close>

theorem authenticated_means_verified:
  assumes "Authenticate decode_body verify server now d = (Inr payload, d', refresh)"
  shows "(\<exists>token. token_file d' = Some token \<and> (verify token = Inr payload \<or> verify (TrimSpace token) = Inr payload))
    \<and> (refresh = Some old \<longleftrightarrow>
      d' = d \<and> token_Load d = Inr old \<and> verify old = Inr payload
      \<and> Time_Sub (time_Unix (ExpiresAt payload)) now < 7 * 24 * Hour_d)"
proof -
  obtain token where t: "token_Load d = Inr token"
    using assms by (cases "token_Load d") (auto simp: Authenticate_def)
  then obtain data where data: "token_file d = Some data" "token = TrimSpace data"
    by (auto simp: token_Load_def split: option.splits if_splits)
  have "\<exists>token. token_file d' = Some token \<and> (verify token = Inr payload \<or> verify (TrimSpace token) = Inr payload)"
  proof (cases "verify token")
    case (Inl e)
    with assms t have "e = ErrTokenExpired" "SilentRefresh decode_body verify server token d = (Inr payload, d')"
      by (auto simp: Authenticate_def split: if_splits prod.splits)
    with SilentRefresh_cases(1)[of decode_body verify server token d payload] show ?thesis by auto
  next
    case (Inr pl)
    with assms t have "pl = payload" "d' = d" by (auto simp: Authenticate_def split: if_splits)
    with Inr data show ?thesis by blast
  qed
  moreover have "refresh = Some old \<longleftrightarrow>
      d' = d \<and> token_Load d = Inr old \<and> verify old = Inr payload
      \<and> Time_Sub (time_Unix (ExpiresAt payload)) now < 7 * 24 * Hour_d"
    using assms t by (auto simp: Authenticate_def split: sum.splits if_splits prod.splits)
  ultimately show ?thesis by blast
qed

lemma authenticated_means_verified_witness:
  "let pl = \<lparr>Subject = [], Email = [], IssuedAt = 0, ExpiresAt = 9, jwt_Version = [], Issuer = authDomain\<rparr>;
     verify = (\<lambda>t. if t = ''new'' then Inr pl else Inl ErrTokenExpired);
     d = \<lparr>token_file = Some [], sent = [], read_fails = False, writing = WriteOk, remove_fails = False\<rparr>
   in Authenticate Some verify (\<lambda>b. Answer 200 (Some ''new'')) 0 d = (Inr pl, d\<lparr>token_file := Some ''new'', sent := [refresh_body []]\<rparr>, None)
     \<and> (\<exists>token. token_file (d\<lparr>token_file := Some ''new'', sent := [refresh_body []]\<rparr>) = Some token \<and> (verify token = Inr pl \<or> verify (TrimSpace token) = Inr pl))"
proof -
  define pl where "pl = \<lparr>Subject = [], Email = [], IssuedAt = 0, ExpiresAt = 9, jwt_Version = [], Issuer = authDomain\<rparr>"
  define d where "d = \<lparr>token_file = Some [], sent = [], read_fails = False, writing = WriteOk, remove_fails = False\<rparr>"
  have tr: "TrimSpace [] = []" by (simp add: TrimSpace_def trim_space_chunks_def)
  let ?verify = "\<lambda>t. if t = ''new'' then Inr pl else Inl ErrTokenExpired"
  have a: "Authenticate Some ?verify (\<lambda>b. Answer 200 (Some ''new'')) 0 d = (Inr pl, d\<lparr>token_file := Some ''new'', sent := [refresh_body []]\<rparr>, None)"
    by (simp add: Authenticate_def token_Load_def tr SilentRefresh_def token_Save_def d_def Let_def)
  note authenticated_means_verified[OF a, THEN conjunct1]
  with a show ?thesis unfolding Let_def pl_def[symmetric] d_def[symmetric] by blast
qed

text \<open>
  A refresh can end a valid session: the server's answer is written to disk before it is
  verified, so an answer with status 200 whose token does not verify (an object without a token, say)
  replaces the good token, and every later authentication fails with the verifier's error until the
  next login.
\<close>

lemma bad_refresh_destroys_session:
  assumes "server (refresh_body old) = Answer 200 (Some b)" and "decode_body b = Some token"
    and "\<not> write_fails d" and "\<not> read_fails d"
    and "verify (TrimSpace token) = Inl e" and "e \<noteq> ErrTokenExpired"
  shows "fst (Authenticate decode_body verify server now (snd (SilentRefresh decode_body verify server old d))) = Inl e"
  using assms by (simp add: SilentRefresh_def token_Save_ok Authenticate_def token_Load_def Let_def write_fails_def)

lemma bad_refresh_destroys_session_witness:
  "\<exists>verify d server payload.
     fst (Authenticate (\<lambda>b. Some []) verify server unix_epoch d) = Inr payload \<and>
     (\<exists>old. snd (snd (Authenticate (\<lambda>b. Some []) verify server unix_epoch d)) = Some old \<and>
        fst (Authenticate (\<lambda>b. Some []) verify server unix_epoch (snd (SilentRefresh (\<lambda>b. Some []) verify server old d))) = Inl ErrInvalidToken)"
proof -
  define pl where "pl = \<lparr>Subject = [], Email = [], IssuedAt = 0, ExpiresAt = 9, jwt_Version = [], Issuer = authDomain\<rparr>"
  define verify where "verify t = (if t = ''a'' then Inr pl else Inl ErrInvalidToken)" for t
  define d where "d = \<lparr>token_file = Some ''a'', sent = [], read_fails = False, writing = WriteOk, remove_fails = False\<rparr>"
  define server where "server b = Answer 200 (Some ''{}'')" for b :: string
  have tr: "TrimSpace ''a'' = ''a''" "TrimSpace [] = []"
    by (simp_all add: TrimSpace_def trim_space_chunks_def chunks_ascii decode_rune_def byte_def IsSpace_def)
  have near: "Time_Sub (time_Unix 9) unix_epoch < 7 * 24 * Hour_d"
    by (simp add: Time_Sub_def time_Unix_def wrap64_def unix_epoch_def Second_def Hour_d_def int64_min_def int64_max_def)
  have ok: "Authenticate (\<lambda>b. Some []) verify server unix_epoch d = (Inr pl, d, Some ''a'')"
    using near by (simp add: Authenticate_def token_Load_def d_def tr verify_def pl_def)
  have "fst (Authenticate (\<lambda>b. Some []) verify server unix_epoch
      (snd (SilentRefresh (\<lambda>b. Some []) verify server ''a'' d))) = Inl ErrInvalidToken"
    by (rule bad_refresh_destroys_session[where b = "''{}''" and token = "[]"])
      (simp_all add: server_def d_def tr verify_def write_fails_def)
  with ok show ?thesis
    by (intro exI[of _ verify] exI[of _ d] exI[of _ server] exI[of _ pl]) simp
qed

section \<open>The commands\<close>

text \<open>The redirect handler of the login: the status it answers and the token it passes on.\<close>

definition auth_callback :: "string \<Rightarrow> int \<times> string option" where
  "auth_callback token = (if token = [] then (400, None) else (200, Some token))"

text \<open>
  The login command over the tokens of the callbacks that arrive within five minutes, in their
  order: the first one passed on is saved. \<open>Inl\<close> is the exit of the command with an error.
\<close>

datatype login_failure = LoginTimeout | SaveFailed

fun authCmd :: "string list \<Rightarrow> token_disk \<Rightarrow> (login_failure + unit) \<times> token_disk" where
  "authCmd [] d = (Inl LoginTimeout, d)"
| "authCmd (t # ts) d =
     (case snd (auth_callback t) of
        None \<Rightarrow> authCmd ts d
      | Some token \<Rightarrow>
          (case token_Save token d of (Some e, d') \<Rightarrow> (Inl SaveFailed, d') | (None, d') \<Rightarrow> (Inr (), d')))"

definition login_url :: "string \<Rightarrow> string \<Rightarrow> string" where
  "login_url mode stateBytes =
     ''https://auth.aethercore.brainexia.com/'' @ mode @ ''?redirect_uri=http://localhost:9092/callback&state='' @ url_base64 stateBytes"

text \<open>The random state of the login URL has no part in what is saved.\<close>

lemma login_saves_first_callback:
  "\<not> write_fails d \<Longrightarrow> t \<noteq> [] \<Longrightarrow> token_file (snd (authCmd (replicate n [] @ t # ts) d)) = Some t"
  by (induction n) (simp_all add: auth_callback_def token_Save_ok)

text \<open>Deleting the account: the status printed, or the exit, with the disk.\<close>

definition deleteCmd :: "(string \<Rightarrow> int option) \<Rightarrow> token_disk \<Rightarrow> (auth_error + int) \<times> token_disk" where
  "deleteCmd server d =
     (case token_Load d of
        Inl e \<Rightarrow> (Inl ErrNoToken, d)
      | Inr token \<Rightarrow>
          (case server (''Bearer '' @ token) of
             None \<Rightarrow> (Inl HttpError, d)
           | Some status \<Rightarrow> if status = 200 then (Inr status, snd (token_Delete d)) else (Inr status, d)))"

lemma deleteCmd_keeps_token_unless_ok:
  "snd (deleteCmd server d) \<noteq> d \<Longrightarrow> \<exists>token. token_Load d = Inr token \<and> server (''Bearer '' @ token) = Some 200
     \<and> token_file (snd (deleteCmd server d)) = None"
  by (auto simp: deleteCmd_def token_Delete_def split: sum.splits option.splits if_splits)

end
