(* ===== verification/Worker_Pool.thy ===== *)
theory Worker_Pool
  imports Go_Time Go_Prelude
begin

text \<open>
  The worker pool of the engine, \<open>core/event_loop.go\<close>: \<open>Start\<close>, \<open>Submit\<close>, the workers, \<open>Results\<close> and
  \<open>Stop\<close>, with the two buffered channels and the quit channel between them, as a step relation in
  which the goroutines interleave freely. What a worker computes for a task is any output or
  error (the theory \<open>Agent_Engine\<close> says which).

  Two flags record panics: \<open>panicked\<close> one in the goroutine of a caller of \<open>Submit\<close>, which may recover, and
  \<open>crashed\<close> one in a worker, which nothing recovers: it ends the process, so no step follows it.
\<close>

section \<open>Tasks and results\<close>

record Task =
  t_ID :: string
  t_System :: string
  t_Input :: string
  t_CreatedAt :: instant

record Result =
  r_TaskID :: string
  r_Output :: string
  r_Duration :: duration
  r_Error :: "string option"

definition empty_task :: Task where
  "empty_task = \<lparr>t_ID = [], t_System = [], t_Input = [], t_CreatedAt = zero_time\<rparr>"

definition empty_result :: Result where
  "empty_result = \<lparr>r_TaskID = [], r_Output = [], r_Duration = 0, r_Error = None\<rparr>"

text \<open>A \<open>sync.Pool\<close> gives back any object that was put into it, or a new one.\<close>

definition GetTask :: "Task list \<Rightarrow> Task \<times> Task list" where
  "GetTask pool = (case pool of [] \<Rightarrow> (empty_task, []) | t # ts \<Rightarrow> (t, ts))"

definition GetResult :: "Result list \<Rightarrow> Result \<times> Result list" where
  "GetResult pool = (case pool of [] \<Rightarrow> (empty_result, []) | r # rs \<Rightarrow> (r, rs))"

definition RecycleResult :: "Result option \<Rightarrow> Result list \<Rightarrow> Result list" where
  "RecycleResult res pool =
     (case res of None \<Rightarrow> pool
      | Some r \<Rightarrow> r\<lparr>r_TaskID := [], r_Output := [], r_Error := None, r_Duration := 0\<rparr> # pool)"

definition recycleTask :: "Task \<Rightarrow> Task list \<Rightarrow> Task list" where
  "recycleTask t pool = t\<lparr>t_ID := [], t_System := [], t_Input := []\<rparr> # pool"

text \<open>A recycled result carries nothing over; a recycled task keeps its creation time.\<close>

lemma recycled_result: "RecycleResult (Some r) pool = empty_result # pool"
  by (cases r) (simp add: RecycleResult_def empty_result_def)

lemma recycled_task: "recycleTask t pool = empty_task\<lparr>t_CreatedAt := t_CreatedAt t\<rparr> # pool"
  by (cases t) (simp add: recycleTask_def empty_task_def)

section \<open>The pool\<close>

datatype worker = Idle | Running Task | Sending Task Result | Exited

record pool =
  queueSize :: nat
  taskQueue :: "Task list"
  resultQueue :: "Result list"
  workers :: "worker list"
  quit :: bool
  stop_begun :: bool
  waited :: bool
  queues_closed :: bool
  panicked :: bool
  crashed :: bool
  accepted :: "Task list"
  delivered :: "Result list"
  taskPool :: "Task list"

definition init_pool :: "nat \<Rightarrow> pool" where
  "init_pool n = \<lparr>queueSize = n, taskQueue = [], resultQueue = [], workers = [], quit = False,
     stop_begun = False, waited = False, queues_closed = False, panicked = False, crashed = False, accepted = [],
     delivered = [], taskPool = []\<rparr>"

datatype submit_result = Submitted | ErrQueueFull | SubmitPanic

text \<open>
  \<open>Submit\<close> on its channel; a send on a closed channel panics, in a \<open>select\<close> as well. On a channel of size 0 the
  send succeeds only as a handover to a worker that waits, which is a step of its own below.
\<close>

definition Submit :: "Task \<Rightarrow> pool \<Rightarrow> submit_result \<times> pool" where
  "Submit t p =
     (if queues_closed p then (SubmitPanic, p\<lparr>panicked := True\<rparr>)
      else if length (taskQueue p) < queueSize p then
        (Submitted, p\<lparr>taskQueue := taskQueue p @ [t], accepted := accepted p @ [t]\<rparr>)
      else (ErrQueueFull, p))"

definition set_worker :: "nat \<Rightarrow> worker \<Rightarrow> pool \<Rightarrow> pool" where
  "set_worker i w p = p\<lparr>workers := (workers p)[i := w]\<rparr>"

definition worker_at :: "nat \<Rightarrow> worker \<Rightarrow> pool \<Rightarrow> bool" where
  "worker_at i w p \<longleftrightarrow> i < length (workers p) \<and> workers p ! i = w"

text \<open>
  The steps. A worker whose quit channel is closed may still take a task that is queued, since
  \<open>select\<close> chooses either, and it blocks on a full result queue. On channels of size 0 a task goes from the
  submitter to a worker, and a result from a worker to the receiver, in one step. \<open>Stop\<close> closes the quit channel,
  waits until no worker is left, and closes the queues; the two closes are one step, since a step between them
  commutes with one of them or panics after both as well. A \<open>Start\<close> that comes while \<open>Stop\<close> waits lengthens the wait.

  \<open>Start\<close> looks at nothing: called after \<open>Stop\<close> it starts workers on closed queues. Such a worker still
  takes what is left in the queue, dies of the nil task that an empty closed queue gives, and dies when it sends.
\<close>

datatype pool_label = LStart nat | LSubmit Task | LTake nat | LHandTask nat Task | LTakeNil nat | LExec nat | LSend nat
  | LHandResult nat | LSendClosed nat | LQuit nat | LRecv | LStop | LWait | LClose

inductive pool_step :: "pool \<Rightarrow> pool_label \<Rightarrow> pool \<Rightarrow> bool" where
  Start: "\<not> crashed p \<Longrightarrow> pool_step p (LStart n) (p\<lparr>workers := workers p @ replicate n Idle\<rparr>)"
| Submit: "\<not> crashed p \<Longrightarrow> Submit t p = (r, p') \<Longrightarrow> pool_step p (LSubmit t) p'"
| Take: "\<not> crashed p \<Longrightarrow> worker_at i Idle p \<Longrightarrow> taskQueue p = t # ts \<Longrightarrow>
    pool_step p (LTake i) ((set_worker i (Running t) p)\<lparr>taskQueue := ts\<rparr>)"
| HandTask: "\<not> crashed p \<Longrightarrow> worker_at i Idle p \<Longrightarrow> queueSize p = 0 \<Longrightarrow> \<not> queues_closed p \<Longrightarrow>
    pool_step p (LHandTask i t) ((set_worker i (Running t) p)\<lparr>accepted := accepted p @ [t]\<rparr>)"
| TakeNil: "\<not> crashed p \<Longrightarrow> worker_at i Idle p \<Longrightarrow> queues_closed p \<Longrightarrow> taskQueue p = [] \<Longrightarrow>
    pool_step p (LTakeNil i) (p\<lparr>crashed := True\<rparr>)"
| Exec: "\<not> crashed p \<Longrightarrow> worker_at i (Running t) p \<Longrightarrow>
    pool_step p (LExec i) (set_worker i (Sending t
      \<lparr>r_TaskID = t_ID t, r_Output = out, r_Duration = d, r_Error = err\<rparr>) p)"
| Send: "\<not> crashed p \<Longrightarrow> worker_at i (Sending t r) p \<Longrightarrow> length (resultQueue p) < queueSize p \<Longrightarrow> \<not> queues_closed p \<Longrightarrow>
    pool_step p (LSend i) ((set_worker i Idle p)\<lparr>resultQueue := resultQueue p @ [r], taskPool := recycleTask t (taskPool p)\<rparr>)"
| HandResult: "\<not> crashed p \<Longrightarrow> worker_at i (Sending t r) p \<Longrightarrow> queueSize p = 0 \<Longrightarrow> \<not> queues_closed p \<Longrightarrow>
    pool_step p (LHandResult i) ((set_worker i Idle p)\<lparr>delivered := delivered p @ [r], taskPool := recycleTask t (taskPool p)\<rparr>)"
| SendClosed: "\<not> crashed p \<Longrightarrow> worker_at i (Sending t r) p \<Longrightarrow> queues_closed p \<Longrightarrow>
    pool_step p (LSendClosed i) (p\<lparr>crashed := True\<rparr>)"
| Quit: "\<not> crashed p \<Longrightarrow> worker_at i Idle p \<Longrightarrow> quit p \<Longrightarrow> pool_step p (LQuit i) (set_worker i Exited p)"
| Recv: "\<not> crashed p \<Longrightarrow> resultQueue p = r # rs \<Longrightarrow>
    pool_step p LRecv (p\<lparr>resultQueue := rs, delivered := delivered p @ [r]\<rparr>)"
| Stop: "\<not> crashed p \<Longrightarrow> \<not> stop_begun p \<Longrightarrow> pool_step p LStop (p\<lparr>stop_begun := True, quit := True\<rparr>)"
| Wait: "\<not> crashed p \<Longrightarrow> stop_begun p \<Longrightarrow> \<not> waited p \<Longrightarrow> \<forall>w \<in> set (workers p). w = Exited \<Longrightarrow>
    pool_step p LWait (p\<lparr>waited := True\<rparr>)"
| Close: "\<not> crashed p \<Longrightarrow> waited p \<Longrightarrow> \<not> queues_closed p \<Longrightarrow> pool_step p LClose (p\<lparr>queues_closed := True\<rparr>)"

inductive_cases pool_stepE: "pool_step p l p'"

inductive pool_run :: "pool \<Rightarrow> pool_label list \<Rightarrow> pool \<Rightarrow> bool" where
  run_Nil: "pool_run p [] p"
| run_Cons: "pool_step p l p' \<Longrightarrow> pool_run p' ls p'' \<Longrightarrow> pool_run p (l # ls) p''"

lemma pool_run_append: "pool_run p ls q \<Longrightarrow> pool_run q ks r \<Longrightarrow> pool_run p (ls @ ks) r"
  by (induction rule: pool_run.induct) (auto intro: pool_run.intros)

lemma pool_run_step: "pool_step p l q \<Longrightarrow> pool_run p [l] q"
  by (blast intro: pool_run.intros)

lemma pool_run_invariant:
  assumes "pool_run p ls q" and "I p" and "\<And>p l q. pool_step p l q \<Longrightarrow> I p \<Longrightarrow> I q"
  shows "I q"
  using assms by (induction rule: pool_run.induct) auto

section \<open>Conservation\<close>

text \<open>The task a worker holds, and the multiset of task ids in a pool.\<close>

fun held :: "worker \<Rightarrow> string multiset" where
  "held Idle = {#}"
| "held (Running t) = {#t_ID t#}"
| "held (Sending t r) = {#r_TaskID r#}"
| "held Exited = {#}"

definition in_pool :: "pool \<Rightarrow> string multiset" where
  "in_pool p = mset (map t_ID (taskQueue p)) + sum_list (map held (workers p))
     + mset (map r_TaskID (resultQueue p)) + mset (map r_TaskID (delivered p))"

definition pool_inv :: "pool \<Rightarrow> bool" where
  "pool_inv p \<longleftrightarrow> mset (map t_ID (accepted p)) = in_pool p
     \<and> length (taskQueue p) \<le> queueSize p \<and> length (resultQueue p) \<le> queueSize p
     \<and> quit p = stop_begun p \<and> (waited p \<longrightarrow> stop_begun p) \<and> (queues_closed p \<longrightarrow> waited p)
     \<and> (panicked p \<longrightarrow> queues_closed p) \<and> (crashed p \<longrightarrow> queues_closed p)"

lemma sum_list_update_worker:
  "i < length ws \<Longrightarrow> held (ws ! i) + sum_list (map held (ws[i := w])) = held w + sum_list (map held ws)"
  by (induction ws arbitrary: i) (auto split: nat.split simp: add.left_commute)

lemma held_update:
  assumes "worker_at i w0 p"
  shows "held w0 + sum_list (map held ((workers p)[i := w])) = held w + sum_list (map held (workers p))"
  using assms sum_list_update_worker[of i "workers p" w] by (simp add: worker_at_def)

lemma pool_inv_init: "pool_inv (init_pool n)"
  by (simp add: pool_inv_def init_pool_def in_pool_def)

lemma pool_inv_step: "pool_step p l q \<Longrightarrow> pool_inv p \<Longrightarrow> pool_inv q"
proof (induction rule: pool_step.induct)
  case (Start p n)
  have "sum_list (replicate n {#}) = ({#} :: string multiset)" by (induction n) auto
  with Start show ?case by (auto simp: pool_inv_def in_pool_def)
next
  case (Submit p t r p')
  then show ?case by (auto simp: pool_inv_def in_pool_def Submit_def split: if_splits)
next
  case (Take p i t ts)
  from Take held_update[OF Take.hyps(2), of "Running t"] show ?case
    by (auto simp: pool_inv_def in_pool_def set_worker_def)
next
  case (HandTask p i t)
  from HandTask held_update[OF HandTask.hyps(2), of "Running t"] show ?case
    by (auto simp: pool_inv_def in_pool_def set_worker_def)
next
  case (Exec p i t out d err)
  from Exec held_update[OF Exec.hyps(2), of "Sending t \<lparr>r_TaskID = t_ID t, r_Output = out, r_Duration = d, r_Error = err\<rparr>"]
  show ?case by (auto simp: pool_inv_def in_pool_def set_worker_def)
next
  case (Send p i t r)
  from Send held_update[OF Send.hyps(2), of Idle] show ?case
    by (auto simp: pool_inv_def in_pool_def set_worker_def)
next
  case (HandResult p i t r)
  from HandResult held_update[OF HandResult.hyps(2), of Idle] show ?case
    by (auto simp: pool_inv_def in_pool_def set_worker_def)
next
  case (Quit p i)
  from Quit held_update[OF Quit.hyps(2), of Exited] show ?case
    by (auto simp: pool_inv_def in_pool_def set_worker_def)
qed (auto simp: pool_inv_def in_pool_def)

definition reachable_pool :: "nat \<Rightarrow> pool \<Rightarrow> bool" where
  "reachable_pool n p \<longleftrightarrow> (\<exists>ls. pool_run (init_pool n) ls p)"

lemma pool_inv_reachable: "reachable_pool n p \<Longrightarrow> pool_inv p"
  unfolding reachable_pool_def
  using pool_run_invariant[of "init_pool n" _ p pool_inv] pool_inv_init pool_inv_step by blast

section \<open>Stopping\<close>

fun work_left :: "worker \<Rightarrow> nat" where
  "work_left Exited = 0"
| "work_left Idle = 1"
| "work_left (Sending t r) = 2"
| "work_left (Running t) = 3"

lemma sum_work_update:
  "i < length ws \<Longrightarrow> sum_list (map work_left (ws[i := w])) + work_left (ws ! i) = sum_list (map work_left ws) + work_left w"
  by (induction ws arbitrary: i) (auto split: nat.split)

lemma work_decreases:
  assumes "worker_at i w0 p" and "work_left w < work_left w0" and "workers q = (workers p)[i := w]"
  shows "sum_list (map work_left (workers q)) < sum_list (map work_left (workers p))"
  using assms sum_work_update[of i "workers p" w] by (simp add: worker_at_def)

text \<open>A pool whose \<open>Stop\<close> has begun and has not closed the queues.\<close>

definition stopping :: "pool \<Rightarrow> bool" where
  "stopping p \<longleftrightarrow> pool_inv p \<and> stop_begun p \<and> \<not> queues_closed p"

lemma stopping_alive: "stopping p \<Longrightarrow> \<not> crashed p"
  by (auto simp: stopping_def pool_inv_def)

text \<open>From such a pool with a live worker, a step or two bring that worker forward; one without a task needs no execution.\<close>

fun task_free :: "pool_label \<Rightarrow> bool" where
  "task_free (LQuit i) = True"
| "task_free (LSend i) = True"
| "task_free (LHandResult i) = True"
| "task_free LRecv = True"
| "task_free l = False"

lemma task_free_stopping: "pool_step p l q \<Longrightarrow> task_free l \<Longrightarrow> stopping p \<Longrightarrow> stopping q"
  using pool_inv_step[of p l q] by (auto simp: stopping_def set_worker_def elim!: pool_stepE)

text \<open>A worker with a result hands it over or finds room for it, after a receive if need be.\<close>

lemma sender_progress:
  assumes "stopping p" and "worker_at i (Sending t r) p"
  shows "\<exists>ls q. pool_run p ls q \<and> stopping q \<and> (\<forall>l \<in> set ls. task_free l) \<and> workers q = (workers p)[i := Idle]"
proof -
  have ok: "\<not> crashed p" "\<not> queues_closed p" using assms(1) stopping_alive by (auto simp: stopping_def)
  consider "queueSize p = 0" | "length (resultQueue p) < queueSize p"
    | r0 rs where "resultQueue p = r0 # rs" "0 < queueSize p" by (cases "resultQueue p") auto
  then show ?thesis
  proof cases
    case 1
    let ?q = "(set_worker i Idle p)\<lparr>delivered := delivered p @ [r], taskPool := recycleTask t (taskPool p)\<rparr>"
    have st: "pool_step p (LHandResult i) ?q" using assms(2) ok 1 by (intro pool_step.HandResult)
    with task_free_stopping[OF st] assms(1) show ?thesis
      by (intro exI[of _ "[LHandResult i]"] exI[of _ ?q]) (simp add: pool_run_step set_worker_def)
  next
    case 2
    let ?q = "(set_worker i Idle p)\<lparr>resultQueue := resultQueue p @ [r], taskPool := recycleTask t (taskPool p)\<rparr>"
    have st: "pool_step p (LSend i) ?q" using assms(2) ok 2 by (intro pool_step.Send)
    with task_free_stopping[OF st] assms(1) show ?thesis
      by (intro exI[of _ "[LSend i]"] exI[of _ ?q]) (simp add: pool_run_step set_worker_def)
  next
    case 3
    let ?p1 = "p\<lparr>resultQueue := rs, delivered := delivered p @ [r0]\<rparr>"
    let ?q = "(set_worker i Idle ?p1)\<lparr>resultQueue := rs @ [r], taskPool := recycleTask t (taskPool p)\<rparr>"
    have s1: "pool_step p LRecv ?p1" using ok(1) 3(1) by (rule pool_step.Recv)
    have "length rs < queueSize p" using assms(1) 3(1) by (simp add: stopping_def pool_inv_def)
    then have s2: "pool_step ?p1 (LSend i) ?q"
      using pool_step.Send[of ?p1 i t r] assms(2) ok by (simp add: worker_at_def)
    have "stopping ?q" using task_free_stopping[OF s1] task_free_stopping[OF s2] assms(1) by simp
    then show ?thesis using run_Cons[OF s1 pool_run_step[OF s2]]
      by (intro exI[of _ "[LRecv, LSend i]"] exI[of _ ?q]) (simp add: set_worker_def)
  qed
qed

lemma stop_progress_task_free:
  assumes "stopping p" and "worker_at i w p" and "w \<noteq> Exited" and "\<forall>t. w \<noteq> Running t"
  shows "\<exists>ls q. pool_run p ls q \<and> stopping q \<and> (\<forall>l \<in> set ls. task_free l)
    \<and> sum_list (map work_left (workers q)) < sum_list (map work_left (workers p))"
proof (cases w)
  case Idle
  let ?q = "set_worker i Exited p"
  have "quit p" using assms(1) by (simp add: stopping_def pool_inv_def)
  then have st: "pool_step p (LQuit i) ?q" using assms(1,2) stopping_alive Idle by (intro pool_step.Quit) simp_all
  with task_free_stopping[OF st] work_decreases[of i Idle p Exited ?q] assms(1,2) Idle
  show ?thesis by (intro exI[of _ "[LQuit i]"] exI[of _ ?q]) (simp add: set_worker_def pool_run_step)
next
  case (Sending t r)
  with sender_progress[OF assms(1), of i t r] work_decreases[OF assms(2), of Idle] assms(2) show ?thesis by fastforce
qed (use assms(3,4) in simp_all)

lemma stop_progress:
  assumes "stopping p" and "w \<in> set (workers p)" and "w \<noteq> Exited"
  shows "\<exists>ls q. pool_run p ls q \<and> stopping q \<and> sum_list (map work_left (workers q)) < sum_list (map work_left (workers p))"
proof -
  obtain i where i: "worker_at i w p" using assms(2) by (auto simp: worker_at_def in_set_conv_nth)
  show ?thesis
  proof (cases "\<exists>t. w = Running t")
    case True
    then obtain t where w: "w = Running t" by blast
    let ?r = "\<lparr>r_TaskID = t_ID t, r_Output = [], r_Duration = 0, r_Error = None\<rparr>"
    let ?q = "set_worker i (Sending t ?r) p"
    have st: "pool_step p (LExec i) ?q" using i w stopping_alive[OF assms(1)] by (intro pool_step.Exec) simp_all
    have "stopping ?q" using pool_inv_step[OF st] assms(1) by (simp add: stopping_def set_worker_def)
    with st work_decreases[of i "Running t" p "Sending t ?r" ?q] i w
    show ?thesis by (intro exI[of _ "[LExec i]"] exI[of _ ?q]) (simp add: set_worker_def pool_run_step)
  next
    case False
    with stop_progress_task_free[OF assms(1) i assms(3)] show ?thesis by blast
  qed
qed

lemma wait_close:
  assumes "stopping p" and "\<forall>w \<in> set (workers p). w = Exited"
  shows "\<exists>ls. pool_run p ls (p\<lparr>waited := True, queues_closed := True\<rparr>) \<and> set ls \<subseteq> {LWait, LClose}"
proof -
  have ok: "\<not> crashed p" "stop_begun p" "\<not> queues_closed p" using assms(1) stopping_alive by (auto simp: stopping_def)
  then have close: "pool_step (p\<lparr>waited := True\<rparr>) LClose (p\<lparr>waited := True, queues_closed := True\<rparr>)"
    using pool_step.Close[of "p\<lparr>waited := True\<rparr>"] by simp
  show ?thesis
  proof (cases "waited p")
    case True
    then have "p\<lparr>waited := True\<rparr> = p" by simp
    with pool_run_step[OF close] show ?thesis by (intro exI[of _ "[LClose]"]) simp
  next
    case False
    with ok assms(2) have "pool_step p LWait (p\<lparr>waited := True\<rparr>)" by (intro pool_step.Wait)
    with pool_run_step[OF close] show ?thesis by (intro exI[of _ "[LWait, LClose]"]) (simp add: run_Cons)
  qed
qed

lemma stop_finishes:
  assumes "pool_inv p" and "stop_begun p"
  shows "\<exists>ls q. pool_run p ls q \<and> queues_closed q"
  using assms
proof (induction "sum_list (map work_left (workers p))" arbitrary: p rule: less_induct)
  case less
  consider "queues_closed p" | w where "stopping p" "w \<in> set (workers p)" "w \<noteq> Exited"
    | "stopping p" "\<forall>w \<in> set (workers p). w = Exited"
    using less.prems by (auto simp: stopping_def)
  then show ?case
  proof cases
    case 1
    then show ?thesis using run_Nil by blast
  next
    case 2
    then obtain ls q where q: "pool_run p ls q" "stopping q"
      "sum_list (map work_left (workers q)) < sum_list (map work_left (workers p))"
      using stop_progress by blast
    with less.hyps[of q] obtain ks r where "pool_run q ks r" "queues_closed r" by (auto simp: stopping_def)
    with q(1) pool_run_append show ?thesis by blast
  next
    case 3
    from wait_close[OF this] show ?thesis by force
  qed
qed

text \<open>
  A worker that waits to send keeps the queues open as long as nobody receives: \<open>Stop\<close> cannot end its wait.
\<close>

definition jammed :: "nat \<Rightarrow> pool \<Rightarrow> bool" where
  "jammed i p \<longleftrightarrow> (\<exists>t r. worker_at i (Sending t r) p) \<and> queueSize p \<le> length (resultQueue p) \<and> \<not> waited p \<and> \<not> queues_closed p"

lemma jammed_step:
  "pool_step p l q \<Longrightarrow> l \<noteq> LRecv \<Longrightarrow> \<nexists>j. l = LHandResult j \<Longrightarrow> jammed i p \<Longrightarrow> jammed i q"
proof (induction rule: pool_step.induct)
  case (Start p n)
  then show ?case by (auto simp: jammed_def worker_at_def nth_append)
next
  case (Submit p t r p')
  then show ?case by (auto simp: jammed_def worker_at_def Submit_def split: if_splits)
next
  case (Wait p)
  then obtain t r where w: "i < length (workers p)" "workers p ! i = Sending t r"
    by (auto simp: jammed_def worker_at_def)
  then have "Sending t r \<in> set (workers p)" by (metis nth_mem)
  with Wait.hyps(4) show ?case by auto
qed (auto simp: jammed_def worker_at_def set_worker_def nth_list_update)

section \<open>Starting in time\<close>

text \<open>In a sequence of steps, no \<open>Start\<close> follows a \<open>Stop\<close>; the flag says whether one has begun before the sequence.\<close>

fun starts_in_time :: "bool \<Rightarrow> pool_label list \<Rightarrow> bool" where
  "starts_in_time stopped [] = True"
| "starts_in_time stopped (LStart n # ls) = (\<not> stopped \<and> starts_in_time stopped ls)"
| "starts_in_time stopped (LStop # ls) = starts_in_time True ls"
| "starts_in_time stopped (l # ls) = starts_in_time stopped ls"

definition orderly :: "pool \<Rightarrow> bool" where
  "orderly p \<longleftrightarrow> \<not> crashed p \<and> (waited p \<longrightarrow> (\<forall>w \<in> set (workers p). w = Exited))"

lemma orderly_live: "pool_inv p \<Longrightarrow> orderly p \<Longrightarrow> worker_at i w p \<Longrightarrow> w \<noteq> Exited \<Longrightarrow> \<not> waited p \<and> \<not> queues_closed p"
  by (auto simp: orderly_def worker_at_def pool_inv_def)

lemma orderly_step:
  assumes "pool_step p l q" and "pool_inv p" and "orderly p" and "starts_in_time (stop_begun p) (l # ls)"
  shows "orderly q \<and> starts_in_time (stop_begun q) ls"
  using assms(1)
proof cases
  case (Start n)
  then show ?thesis using assms by (auto simp: orderly_def pool_inv_def)
next
  case (Submit t r)
  then show ?thesis using assms by (auto simp: orderly_def Submit_def split: if_splits)
qed (use assms orderly_live[OF assms(2,3)] in \<open>auto simp: orderly_def set_worker_def pool_inv_def\<close>)

lemma orderly_run:
  "pool_run p ls q \<Longrightarrow> pool_inv p \<Longrightarrow> orderly p \<Longrightarrow> starts_in_time (stop_begun p) ls \<Longrightarrow> orderly q"
  by (induction rule: pool_run.induct) (auto dest: orderly_step pool_inv_step)

lemma held_all_exited:
  assumes "\<forall>w \<in> set ws. w = Exited"
  shows "sum_list (map held ws) = {#}"
  using assms by (induction ws) auto

section \<open>Theorems\<close>


definition demo_task :: Task where
  "demo_task = empty_task\<lparr>t_ID := ''t1'', t_Input := ''goal''\<rparr>"

definition demo_result :: Result where
  "demo_result = \<lparr>r_TaskID = ''t1'', r_Output = ''out'', r_Duration = 5, r_Error = None\<rparr>"

text \<open>One worker, one task that is done and two that wait, a full result queue, and \<open>Stop\<close> begun.\<close>

definition busy_pool :: pool where
  "busy_pool = \<lparr>queueSize = 1, taskQueue = [demo_task], resultQueue = [demo_result],
     workers = [Sending demo_task demo_result], quit = True, stop_begun = True, waited = False, queues_closed = False,
     panicked = False, crashed = False, accepted = [demo_task, demo_task, demo_task], delivered = [],
     taskPool = recycleTask demo_task []\<rparr>"

definition demo_labels :: "pool_label list" where
  "demo_labels = [LStart 1, LSubmit demo_task, LTake 0, LExec 0, LSend 0, LSubmit demo_task, LTake 0, LExec 0,
     LSubmit demo_task, LStop]"

lemma busy_pool_run: "pool_run (init_pool 1) demo_labels busy_pool"
proof -
  note steps = set_worker_def worker_at_def Submit_def init_pool_def
  show ?thesis
    unfolding demo_labels_def
    apply (rule run_Cons, rule pool_step.Start, simp add: init_pool_def)
    apply (rule run_Cons, rule pool_step.Submit, simp add: steps, simp add: steps)
    apply (rule run_Cons, rule pool_step.Take, simp add: steps, simp add: steps, simp)
    apply (rule run_Cons, rule pool_step.Exec[where out = "''out''" and d = 5 and err = None], simp add: steps, simp add: steps)
    apply (rule run_Cons, rule pool_step.Send, simp add: steps, simp add: steps, simp add: steps, simp add: steps)
    apply (rule run_Cons, rule pool_step.Submit, simp add: steps, simp add: steps)
    apply (rule run_Cons, rule pool_step.Take, simp add: steps, simp add: steps, simp add: steps)
    apply (rule run_Cons, rule pool_step.Exec[where out = "''out''" and d = 5 and err = None], simp add: steps, simp add: steps)
    apply (rule run_Cons, rule pool_step.Submit, simp add: steps, simp add: steps)
    apply (rule run_Cons, rule pool_step.Stop, simp add: steps, simp add: steps)
    by (simp add: steps busy_pool_def demo_task_def demo_result_def empty_task_def run_Nil)
qed

lemma busy_pool_reachable: "reachable_pool 1 busy_pool"
  using busy_pool_run by (auto simp: reachable_pool_def)


text \<open>
  A worker that is started after the queues are closed can only leave or end the process: when the queue is empty,
  one step of it crashes.
\<close>

lemma late_worker_crashes:
  assumes "pool_inv p" and "queues_closed p" and "\<not> crashed p" and "taskQueue p = []"
  shows "\<exists>q. pool_run p [LStart 1, LTakeNil (length (workers p))] q \<and> crashed q"
proof -
  let ?p1 = "p\<lparr>workers := workers p @ replicate 1 Idle\<rparr>"
  have "pool_step p (LStart 1) ?p1" using assms(3) by (rule pool_step.Start)
  moreover have "pool_step ?p1 (LTakeNil (length (workers p))) (?p1\<lparr>crashed := True\<rparr>)"
    using assms by (intro pool_step.TakeNil) (simp_all add: worker_at_def)
  ultimately show ?thesis by (intro exI[of _ "?p1\<lparr>crashed := True\<rparr>"]) (simp add: run_Cons pool_run_step)
qed

text \<open>
  \<open>Stop\<close> can always finish: from every reachable state in which it has begun there is a way
  for the workers to end and the queues to be closed, provided the results are received.
\<close>

lemma stop_can_finish:
  assumes "reachable_pool n p" and "stop_begun p"
  shows "\<exists>ls q. pool_run p ls q \<and> queues_closed q"
  using stop_finishes[OF pool_inv_reachable[OF assms(1)] assms(2)] .

text \<open>
  \<open>Stop\<close> does not finish by itself: once a worker waits to send and the result queue is full,
  no sequence of steps without a receive ever closes the queues, so a caller that stops the engine
  before it drains the results waits for ever.
\<close>

lemma stop_hangs_without_receiver:
  assumes "worker_at i (Sending t r) p" and "queueSize p \<le> length (resultQueue p)" and "\<not> waited p" and "\<not> queues_closed p"
    and "pool_run p ls q" and "LRecv \<notin> set ls" and "\<forall>j. LHandResult j \<notin> set ls"
  shows "\<not> queues_closed q"
proof -
  have "jammed i p" using assms(1-4) by (auto simp: jammed_def)
  with assms(5-7) have "jammed i q"
  proof (induction rule: pool_run.induct)
    case (run_Cons p l p' ls p'')
    have "jammed i p'" by (rule jammed_step[OF run_Cons.hyps(1) _ _ run_Cons.prems(3)]) (use run_Cons.prems in auto)
    with run_Cons show ?case by simp
  qed simp
  then show ?thesis by (simp add: jammed_def)
qed

end
