(* ===== verification/Chat_Gateway.thy ===== *)
theory Chat_Gateway
  imports Sdk_Registry Go_Json
begin

text \<open>
  What the two chat gateways share: HTTP requests with their answers, the routing of a message to a
  command handler, the fan-out of a task to the loaded modules and the UTF-8 signs of the replies.
  The parsers of the two gateways keep the contract \<open>command_parser\<close>.
\<close>

section \<open>HTTP\<close>

record http_request =
  req_Method :: string
  req_URL :: string
  req_Header :: "(string \<times> string) list"
  req_Body :: string

text \<open>
  The state of a gateway: the outside world of the modules and the requests made so far. The answer
  to the \<open>n\<close>-th request is a transport error or a status and a body.
\<close>

record 'w chat_state =
  chat_world :: 'w
  http_log :: "http_request list"

type_synonym http_env = "nat \<Rightarrow> http_request \<Rightarrow> string + int \<times> string"

definition http_Do :: "http_env \<Rightarrow> http_request \<Rightarrow> 'w chat_state \<Rightarrow> (string + int \<times> string) \<times> 'w chat_state" where
  "http_Do env req st = (env (length (http_log st)) req, st\<lparr>http_log := http_log st @ [req]\<rparr>)"

text \<open>
  A client with a timeout: the server takes its time for an answer, and a client that waits for
  \<open>limit\<close> gives up before.
\<close>

definition timed_env :: "duration \<Rightarrow> (nat \<Rightarrow> http_request \<Rightarrow> duration \<times> int \<times> string) \<Rightarrow> http_env" where
  "timed_env limit srv n req =
     (case srv n req of (delay, answer) \<Rightarrow> if limit \<le> delay then Inl ''Client.Timeout exceeded'' else Inr answer)"

section \<open>Routing\<close>

text \<open>
  A message is parsed into a command and its arguments; without a command, or with one that nobody
  registered, the whole text goes to the fallback, if there is one.
\<close>

definition route ::
    "(string \<Rightarrow> string \<times> string) \<Rightarrow> (string \<rightharpoonup> 'h) \<Rightarrow> 'h option \<Rightarrow> string \<Rightarrow> ('h \<times> string) option" where
  "route parse cmds fallback t =
     (let (cmd, args) = parse t; other = map_option (\<lambda>h. (h, t)) fallback
      in if cmd = [] then other
         else case cmds cmd of None \<Rightarrow> other | Some h \<Rightarrow> Some (h, args))"

definition command_word :: "string \<Rightarrow> bool" where
  "command_word c \<longleftrightarrow> c \<noteq> [] \<and> ascii c \<and> CHR '' '' \<notin> set c \<and> CHR ''@'' \<notin> set c"

locale command_parser =
  fixes parse :: "string \<Rightarrow> string \<times> string" and pre :: string
  assumes plain_text: "\<not> HasPrefix t pre \<Longrightarrow> fst (parse t) = []"
    and bare_command: "command_word c \<Longrightarrow> parse (pre @ c) = (map lower_ascii c, [])"
    and command_args: "command_word c \<Longrightarrow> parse (pre @ c @ CHR '' '' # a) = (map lower_ascii c, TrimSpace a)"
begin

lemma route_command:
  assumes "command_word c" and "cmds (map lower_ascii c) = Some h"
  shows "route parse cmds fallback (pre @ c) = Some (h, [])"
    and "route parse cmds fallback (pre @ c @ CHR '' '' # a) = Some (h, TrimSpace a)"
  using assms by (simp_all add: route_def bare_command command_args command_word_def)

text \<open>Case does not matter, and what follows the command never changes which handler is chosen.\<close>

lemma route_same_handler:
  assumes "command_word c" and "command_word c'" and "map lower_ascii c = map lower_ascii c'"
    and "cmds (map lower_ascii c) = Some h"
  shows "map_option fst (route parse cmds fallback (pre @ c' @ CHR '' '' # a)) = Some h"
  using route_command(2)[of c' cmds h fallback a] assms by simp

lemma route_plain: "\<not> HasPrefix t pre \<Longrightarrow> route parse cmds fallback t = map_option (\<lambda>h. (h, t)) fallback"
  using plain_text[of t] by (cases "parse t") (simp add: route_def)

lemma route_unknown:
  assumes "command_word c" and "cmds (map lower_ascii c) = None"
  shows "route parse cmds fallback (pre @ c @ CHR '' '' # a) = map_option (\<lambda>h. (h, pre @ c @ CHR '' '' # a)) fallback"
  using assms by (simp add: route_def Let_def command_args)

end

text \<open>A message reaches at most one handler, a registered one or the fallback.\<close>

lemma route_sound:
  "route parse cmds fallback t = Some (h, a) \<Longrightarrow> h \<in> ran cmds \<or> (fallback = Some h \<and> a = t)"
  by (auto simp: route_def Let_def ran_def split: prod.splits if_splits option.splits)

text \<open>The text at the first space, as both parsers split it.\<close>

definition split_space :: "string \<Rightarrow> string \<times> string" where
  "split_space rest =
     (let (n, a, found) = Cut rest (CHR '' '') in if found then (n, TrimSpace a) else (rest, []))"

lemma split_space_word: "CHR '' '' \<notin> set w \<Longrightarrow> split_space w = (w, [])"
  by (simp add: split_space_def Cut_absent)

lemma split_space_args: "CHR '' '' \<notin> set w \<Longrightarrow> split_space (w @ CHR '' '' # a) = (w, TrimSpace a)"
  by (simp add: split_space_def Cut_present)

text \<open>Trimming leaves an ASCII text alone whose ends are not white space.\<close>

lemma TrimSpace_graphic:
  assumes "ascii s" and "s \<noteq> []" and "\<not> IsSpace (byte (hd s))" and "\<not> IsSpace (byte (last s))"
  shows "TrimSpace s = s"
proof -
  let ?f = "\<lambda>c. (byte c, [c])"
  have "dropWhile (IsSpace \<circ> fst) (map ?f s) = map ?f s"
    using assms(2,3) by (cases s) auto
  moreover have "dropWhile (IsSpace \<circ> fst) (rev (map ?f s)) = rev (map ?f s)"
    using assms(2,4) by (cases s rule: rev_cases) auto
  moreover have "concat (map snd (map ?f s)) = s" by (induction s) auto
  ultimately show ?thesis by (simp add: TrimSpace_def trim_space_chunks_def chunks_ascii[OF assms(1)])
qed

section \<open>Asking the modules\<close>

definition warning_sign :: string where
  "warning_sign = [CHR 0xE2, CHR 0x9A, CHR 0xA0, CHR 0xEF, CHR 0xB8, CHR 0x8F]"
definition cross_mark :: string where "cross_mark = [CHR 0xE2, CHR 0x9D, CHR 0x8C]"
definition bullet :: string where "bullet = [CHR 0xE2, CHR 0x80, CHR 0xA2]"
definition em_dash :: string where "em_dash = [CHR 0xE2, CHR 0x80, CHR 0x94]"
definition nl :: string where "nl = [CHR 0x0A]"

text \<open>
  The loop over the manifests: a module that is gone is skipped; \<open>good\<close> and \<open>bad\<close> format the section
  of an output and of an error.
\<close>

fun askModules ::
    "(string \<Rightarrow> string \<Rightarrow> string) \<Rightarrow> (string \<Rightarrow> string \<Rightarrow> string) \<Rightarrow> 'w ModuleRegistry \<Rightarrow> ModuleTask
     \<Rightarrow> ModuleManifest list \<Rightarrow> 'w \<Rightarrow> string \<times> 'w" where
  "askModules good bad r task [] w = ([], w)"
| "askModules good bad r task (mf # mfs) w =
     (case Get (mod_Name mf) r of
        Inl _ \<Rightarrow> askModules good bad r task mfs w
      | Inr md \<Rightarrow>
          (let (result, w1) = HandleTask md task w;
               section = (case result of Inl e \<Rightarrow> bad (mod_Name mf) e | Inr res \<Rightarrow> good (mod_Name mf) (res_Output res));
               (rest, w2) = askModules good bad r task mfs w1
           in (section @ rest, w2)))"

text \<open>Every module in turn, each in the world the one before it left.\<close>

fun module_answers :: "'w ModuleRegistry \<Rightarrow> ModuleTask \<Rightarrow> string list \<Rightarrow> 'w \<Rightarrow> (string \<times> (string + ModuleResult)) list \<times> 'w" where
  "module_answers r task [] w = ([], w)"
| "module_answers r task (n # ns) w =
     (let (result, w1) = HandleTask (the (loaded r n)) task w; (as, w2) = module_answers r task ns w1
      in ((n, result) # as, w2))"

definition answer_text :: "(string \<Rightarrow> string \<Rightarrow> string) \<Rightarrow> (string \<Rightarrow> string \<Rightarrow> string) \<Rightarrow> string \<times> (string + ModuleResult) \<Rightarrow> string" where
  "answer_text good bad x = (case snd x of Inl e \<Rightarrow> bad (fst x) e | Inr res \<Rightarrow> good (fst x) (res_Output res))"

lemma answer_text_simps:
  "answer_text good bad (n, Inl e) = bad n e" "answer_text good bad (n, Inr res) = good n (res_Output res)"
  by (simp_all add: answer_text_def)

lemma map_fst_module_answers: "map fst (fst (module_answers r task ns w)) = ns"
proof (induction ns arbitrary: w)
  case (Cons n ns)
  obtain result w1 where h: "HandleTask (the (loaded r n)) task w = (result, w1)" by force
  obtain as w2 where "module_answers r task ns w1 = (as, w2)" by force
  with h Cons.IH[of w1] show ?case by simp
qed simp

lemma askModules_answers:
  assumes "registry_wf r" and "set ord \<subseteq> dom (loaded r)"
  shows "askModules good bad r task (Manifests r ord) w =
    (concat (map (answer_text good bad) (fst (module_answers r task ord w))), snd (module_answers r task ord w))"
  using assms(2)
proof (induction ord arbitrary: w)
  case Nil
  then show ?case by (simp add: Manifests_def)
next
  case (Cons n ord)
  then obtain md where md: "loaded r n = Some md" by auto
  with assms(1) have nm: "mod_Name (mod_Manifest md) = n" by (auto simp: registry_wf_def name_of_def)
  obtain result w1 where h: "HandleTask md task w = (result, w1)" by force
  have ih: "askModules good bad r task (Manifests r ord) w1 =
      (concat (map (answer_text good bad) (fst (module_answers r task ord w1))), snd (module_answers r task ord w1))"
    using Cons by simp
  obtain as w2 where ma: "module_answers r task ord w1 = (as, w2)" by force
  have ms: "Manifests r (n # ord) = mod_Manifest md # Manifests r ord" by (simp add: Manifests_def md)
  show ?case
    unfolding ms using ma ih by (cases result) (simp_all add: nm Get_def md h answer_text_simps)
qed

text \<open>A registry with a module has a manifest in every order.\<close>

lemma range_order_sub: "range_order m ord \<Longrightarrow> set ord \<subseteq> dom m"
  by (simp add: range_order_def)

lemma Manifests_nonempty:
  assumes "registry_wf r" and "range_order (loaded r) ord" and "loaded r \<noteq> Map.empty"
  shows "length (Manifests r ord) \<noteq> 0"
proof -
  have "ord \<noteq> []"
  proof
    assume "ord = []"
    with assms(2) have "dom (loaded r) = {}" by (simp add: range_order_def)
    with assms(3) show False by (simp add: dom_eq_empty_conv)
  qed
  with Manifests_names[OF assms(1) range_order_sub[OF assms(2)]] show ?thesis by auto
qed

end
