(* ===== verification/Telegram.thy ===== *)
theory Telegram
  imports Chat_Gateway "HOL-Library.Sublist"
begin

text \<open>
  The Telegram gateway, \<open>gateway/telegram\<close>: the API client, the command router, the adapter to the module
  registry, the long-polling loop and the bot that wires them. JSON decoders are parameters (those of \<open>Chat_Wire\<close>), HTTP is
  the environment of \<open>Chat_Gateway\<close>.
\<close>

section \<open>Types\<close>

record tg_User =
  tg_UserID :: int
  tg_IsBot :: bool
  tg_FirstName :: string
  tg_LastName :: string
  tg_Username :: string

record tg_Chat =
  tg_ChatID :: int
  tg_ChatType :: string
  tg_Title :: string

record tg_Message =
  tg_MessageID :: int
  tg_From :: "tg_User option"
  tg_MsgChat :: tg_Chat
  tg_Date :: int
  tg_Text :: string

record Update =
  UpdateID :: int
  upd_Message :: "tg_Message option"

record apiResponse =
  api_OK :: bool
  api_Result :: string
  api_ErrorCode :: int
  api_Description :: string

datatype tg_error =
    TgBuildFailed string
  | TgTransport string string
  | TgDecodeFailed string
  | TgAPIError int string
  | TgResultFailed string
  | TgEmptyToken
  | TgTokenInvalid tg_error

definition tg_error_text :: "int \<Rightarrow> string \<Rightarrow> string" where
  "tg_error_text code description = ''telegram: API error '' @ show_int code @ '': '' @ description"

section \<open>The API client\<close>

definition telegramAPIBase :: string where "telegramAPIBase = ''https://api.telegram.org/bot''"
definition tgHTTPTimeout :: duration where "tgHTTPTimeout = 10 * Second"

record tg_Client =
  tg_token :: string
  tg_baseURL :: string

definition tg_NewClient :: "string \<Rightarrow> tg_Client" where
  "tg_NewClient token = \<lparr>tg_token = token, tg_baseURL = telegramAPIBase @ token\<rparr>"

text \<open>
  The request is built unless its URL does not parse (\<open>url_ok\<close>); \<open>decode_env\<close> reads the envelope and
  \<open>decode\<close> the result in it.
\<close>

definition tg_do ::
    "(string \<Rightarrow> apiResponse option) \<Rightarrow> (string \<Rightarrow> 'r option) \<Rightarrow> http_env \<Rightarrow> http_request \<Rightarrow> string
     \<Rightarrow> 'w chat_state \<Rightarrow> (tg_error + 'r) \<times> 'w chat_state" where
  "tg_do decode_env decode env req meth st =
     (let (answer, st') = http_Do env req st
      in (case answer of
            Inl e \<Rightarrow> Inl (TgTransport meth e)
          | Inr (status, body) \<Rightarrow>
              (case decode_env body of
                 None \<Rightarrow> Inl (TgDecodeFailed meth)
               | Some envelope \<Rightarrow>
                   if \<not> api_OK envelope then Inl (TgAPIError (api_ErrorCode envelope) (api_Description envelope))
                   else (case decode (api_Result envelope) of None \<Rightarrow> Inl (TgResultFailed meth) | Some r \<Rightarrow> Inr r)),
          st'))"

definition tg_url :: "tg_Client \<Rightarrow> string \<Rightarrow> string" where
  "tg_url c meth = tg_baseURL c @ ''/'' @ meth"

definition tg_get ::
    "(string \<Rightarrow> bool) \<Rightarrow> (string \<Rightarrow> apiResponse option) \<Rightarrow> (string \<Rightarrow> 'r option) \<Rightarrow> http_env \<Rightarrow> tg_Client \<Rightarrow> string
     \<Rightarrow> 'w chat_state \<Rightarrow> (tg_error + 'r) \<times> 'w chat_state" where
  "tg_get url_ok decode_env decode env c meth st =
     (if \<not> url_ok (tg_url c meth) then (Inl (TgBuildFailed meth), st)
      else tg_do decode_env decode env
        \<lparr>req_Method = ''GET'', req_URL = tg_url c meth, req_Header = [], req_Body = []\<rparr> meth st)"

definition tg_post_request :: "tg_Client \<Rightarrow> string \<Rightarrow> json \<Rightarrow> http_request" where
  "tg_post_request c meth body =
     \<lparr>req_Method = ''POST'', req_URL = tg_url c meth, req_Header = [(''Content-Type'', ''application/json'')],
      req_Body = json_write body\<rparr>"

definition tg_post ::
    "(string \<Rightarrow> bool) \<Rightarrow> (string \<Rightarrow> apiResponse option) \<Rightarrow> (string \<Rightarrow> 'r option) \<Rightarrow> http_env \<Rightarrow> tg_Client \<Rightarrow> string \<Rightarrow> json
     \<Rightarrow> 'w chat_state \<Rightarrow> (tg_error + 'r) \<times> 'w chat_state" where
  "tg_post url_ok decode_env decode env c meth body st =
     (if \<not> url_ok (tg_url c meth) then (Inl (TgBuildFailed meth), st)
      else tg_do decode_env decode env (tg_post_request c meth body) meth st)"

definition GetMe ::
    "(string \<Rightarrow> bool) \<Rightarrow> (string \<Rightarrow> apiResponse option) \<Rightarrow> (string \<Rightarrow> tg_User option) \<Rightarrow> http_env \<Rightarrow> tg_Client
     \<Rightarrow> 'w chat_state \<Rightarrow> (tg_error + tg_User) \<times> 'w chat_state" where
  "GetMe url_ok decode_env decode env c = tg_get url_ok decode_env decode env c ''getMe''"

text \<open>Fields with \<open>omitempty\<close> are left out when they are zero.\<close>

definition updates_request :: "int \<Rightarrow> int \<Rightarrow> json" where
  "updates_request offset timeout =
     JObj ((if offset = 0 then [] else [(''offset'', JInt offset)]) @ [(''limit'', JInt 100)]
       @ (if timeout = 0 then [] else [(''timeout'', JInt timeout)]))"

definition GetUpdates ::
    "(string \<Rightarrow> bool) \<Rightarrow> (string \<Rightarrow> apiResponse option) \<Rightarrow> (string \<Rightarrow> Update list option) \<Rightarrow> http_env \<Rightarrow> tg_Client
     \<Rightarrow> int \<Rightarrow> int \<Rightarrow> 'w chat_state \<Rightarrow> (tg_error + Update list) \<times> 'w chat_state" where
  "GetUpdates url_ok decode_env decode env c offset pollTimeout =
     tg_post url_ok decode_env decode env c ''getUpdates'' (updates_request offset pollTimeout)"

definition message_request :: "int \<Rightarrow> string \<Rightarrow> json" where
  "message_request chatID t =
     JObj [(''chat_id'', JInt chatID), (''text'', JStr t), (''parse_mode'', JStr ''Markdown'')]"

definition tg_SendMessage ::
    "(string \<Rightarrow> bool) \<Rightarrow> (string \<Rightarrow> apiResponse option) \<Rightarrow> (string \<Rightarrow> tg_Message option) \<Rightarrow> http_env \<Rightarrow> tg_Client
     \<Rightarrow> int \<Rightarrow> string \<Rightarrow> 'w chat_state \<Rightarrow> (tg_error + tg_Message) \<times> 'w chat_state" where
  "tg_SendMessage url_ok decode_env decode env c chatID t =
     tg_post url_ok decode_env decode env c ''sendMessage'' (message_request chatID t)"

lemma tg_do_log [simp]: "http_log (snd (tg_do decode_env decode env req meth st)) = http_log st @ [req]"
  "chat_world (snd (tg_do decode_env decode env req meth st)) = chat_world st"
  by (simp_all add: tg_do_def http_Do_def)

section \<open>Routing commands\<close>

definition tg_parseCommand :: "(nat \<Rightarrow> nat) \<Rightarrow> string \<Rightarrow> string \<times> string" where
  "tg_parseCommand ul t =
     (if \<not> HasPrefix t ''/'' then ([], t)
      else
        (let rest = drop 1 t; (name, args) = split_space rest; (bare, suffix, at) = Cut name (CHR ''@'')
         in (ToLower ul bare, args)))"

record 'h tg_Router =
  tg_commands :: "string \<rightharpoonup> 'h"
  tg_fallback :: "'h option"

definition tg_NewRouter :: "'h tg_Router" where
  "tg_NewRouter = \<lparr>tg_commands = Map.empty, tg_fallback = None\<rparr>"

definition tg_RegisterCommand :: "(nat \<Rightarrow> nat) \<Rightarrow> string \<Rightarrow> 'h \<Rightarrow> 'h tg_Router \<Rightarrow> 'h tg_Router" where
  "tg_RegisterCommand ul command h r = r\<lparr>tg_commands := (tg_commands r)(ToLower ul command \<mapsto> h)\<rparr>"

definition tg_SetFallback :: "'h \<Rightarrow> 'h tg_Router \<Rightarrow> 'h tg_Router" where
  "tg_SetFallback h r = r\<lparr>tg_fallback := Some h\<rparr>"

text \<open>The call that an update leads to: a handler, the chat and the argument.\<close>

definition tg_Handle :: "(nat \<Rightarrow> nat) \<Rightarrow> 'h tg_Router \<Rightarrow> Update \<Rightarrow> ('h \<times> int \<times> string) option" where
  "tg_Handle ul r upd =
     (case upd_Message upd of
        None \<Rightarrow> None
      | Some msg \<Rightarrow>
          if tg_Text msg = [] then None
          else
            (case route (tg_parseCommand ul) (tg_commands r) (tg_fallback r) (TrimSpace (tg_Text msg)) of
               None \<Rightarrow> None
             | Some (h, args) \<Rightarrow> Some (h, tg_ChatID (tg_MsgChat msg), args)))"

lemma tg_parse_split: "tg_parseCommand ul (CHR ''/'' # rest) =
     (ToLower ul (fst (Cut (fst (split_space rest)) (CHR ''@''))), snd (split_space rest))"
  by (simp add: tg_parseCommand_def HasPrefix_def split_def Let_def)

interpretation tg_cmds: command_parser "tg_parseCommand ul" "''/''" for ul
proof
  show "\<not> HasPrefix t ''/'' \<Longrightarrow> fst (tg_parseCommand ul t) = []" for t
    by (simp add: tg_parseCommand_def)
  show "command_word c \<Longrightarrow> tg_parseCommand ul (''/'' @ c) = (map lower_ascii c, [])" for c
    by (simp add: tg_parse_split command_word_def split_space_word Cut_absent ToLower_ascii)
  show "command_word c \<Longrightarrow> tg_parseCommand ul (''/'' @ c @ CHR '' '' # a) = (map lower_ascii c, TrimSpace a)" for c a
    by (simp add: tg_parse_split command_word_def split_space_args Cut_absent ToLower_ascii)
qed

text \<open>A command addressed to the bot by name is the command; the name ends at a space only.\<close>

lemma tg_bot_suffix:
  assumes "command_word c" and "CHR '' '' \<notin> set botname"
  shows "tg_parseCommand ul (''/'' @ c @ CHR ''@'' # botname) = (map lower_ascii c, [])"
  using assms by (simp add: tg_parse_split command_word_def split_space_word Cut_present ToLower_ascii)

lemma tg_newline_is_no_separator:
  "tg_parseCommand ul (''/run'' @ CHR 0x0A # ''hello'') = (''run'' @ CHR 0x0A # ''hello'', [])"
  by (simp add: tg_parse_split split_space_word Cut_absent ToLower_def ascii_def byte_def lower_ascii_def)

section \<open>The adapter\<close>

definition tg_reply ::
    "(string \<Rightarrow> bool) \<Rightarrow> (string \<Rightarrow> apiResponse option) \<Rightarrow> (string \<Rightarrow> tg_Message option) \<Rightarrow> http_env \<Rightarrow> tg_Client
     \<Rightarrow> int \<Rightarrow> string \<Rightarrow> 'w chat_state \<Rightarrow> 'w chat_state" where
  "tg_reply url_ok decode_env decode env c chatID t st =
     snd (tg_SendMessage url_ok decode_env decode env c chatID t st)"

definition tg_good :: "string \<Rightarrow> string \<Rightarrow> string" where
  "tg_good name out = ''*'' @ name @ ''*'' @ nl @ out @ nl @ nl"

definition tg_bad :: "string \<Rightarrow> string \<Rightarrow> string" where
  "tg_bad name err = ''*'' @ name @ ''* '' @ cross_mark @ '' error: '' @ err @ nl @ nl"

definition tg_task :: "int \<Rightarrow> instant \<Rightarrow> string \<Rightarrow> ModuleTask" where
  "tg_task chatID now goal =
     \<lparr>task_ID = ''tg-'' @ show_int chatID @ ''-'' @ show_int (UnixNano now), task_Input = goal,
      task_Metadata = [''source'' \<mapsto> ''telegram'', ''chat_id'' \<mapsto> show_int chatID]\<rparr>"

text \<open>\<open>reply\<close> stands for the adapter's own reply; \<open>ord\<close> is the order of the registry's range.\<close>

definition tg_HandleRun ::
    "(int \<Rightarrow> string \<Rightarrow> 'w chat_state \<Rightarrow> 'w chat_state) \<Rightarrow> 'w ModuleRegistry \<Rightarrow> string list \<Rightarrow> instant
     \<Rightarrow> int \<Rightarrow> string \<Rightarrow> 'w chat_state \<Rightarrow> 'w chat_state" where
  "tg_HandleRun reply r ord now chatID goal st =
     (if TrimSpace goal = [] then reply chatID ''Usage: `/run <your goal>`'' st
      else
        (let task = tg_task chatID now goal; manifests = Manifests r ord in
         if length manifests = 0 then reply chatID (warning_sign @ '' No modules are currently loaded.'') st
         else
           (let (sb, w) = askModules tg_good tg_bad r task manifests (chat_world st)
            in reply chatID (TrimSpace sb) (st\<lparr>chat_world := w\<rparr>))))"

definition tg_help_text :: "ModuleManifest list \<Rightarrow> string" where
  "tg_help_text manifests =
     ''*AetherCore* '' @ em_dash @ '' Minimal Agent Kernel'' @ nl @ nl @ ''*Commands:*'' @ nl
     @ ''`/run <goal>` '' @ em_dash @ '' dispatch a task to all loaded modules'' @ nl
     @ ''`/modules` '' @ em_dash @ '' list loaded modules'' @ nl
     @ ''`/help` '' @ em_dash @ '' show this message'' @ nl
     @ (if manifests = [] then []
        else nl @ ''*Loaded modules:*'' @ nl @ concat (map (\<lambda>mf. bullet @ '' *'' @ mod_Name mf @ ''* v'' @ mod_Version mf
               @ '' '' @ em_dash @ '' '' @ mod_Description mf @ nl) manifests))"

definition tg_HandleHelp ::
    "(int \<Rightarrow> string \<Rightarrow> 'w chat_state \<Rightarrow> 'w chat_state) \<Rightarrow> 'w ModuleRegistry \<Rightarrow> string list
     \<Rightarrow> int \<Rightarrow> string \<Rightarrow> 'w chat_state \<Rightarrow> 'w chat_state" where
  "tg_HandleHelp reply r ord chatID args st = reply chatID (tg_help_text (Manifests r ord)) st"

definition tg_HandleModules ::
    "(int \<Rightarrow> string \<Rightarrow> 'w chat_state \<Rightarrow> 'w chat_state) \<Rightarrow> 'w ModuleRegistry \<Rightarrow> string list
     \<Rightarrow> int \<Rightarrow> string \<Rightarrow> 'w chat_state \<Rightarrow> 'w chat_state" where
  "tg_HandleModules reply r ord chatID args st =
     (let manifests = Manifests r ord in
      if length manifests = 0 then reply chatID ''No modules loaded.'' st
      else reply chatID (TrimSpace (''*Loaded modules:*'' @ nl @ nl @ concat (map (\<lambda>mf. ''*'' @ mod_Name mf @ ''* v'' @ mod_Version mf @ nl
             @ ''_'' @ mod_Description mf @ ''_'' @ nl @ ''Author: '' @ mod_Author mf @ nl @ nl) manifests))) st)"

section \<open>Polling\<close>

definition pollTimeoutSeconds :: int where "pollTimeoutSeconds = 30"
definition tg_backoffBase :: duration where "tg_backoffBase = 2 * Second"
definition tg_backoffMax :: duration where "tg_backoffMax = 60 * Second"

definition minDuration :: "duration \<Rightarrow> duration \<Rightarrow> duration" where
  "minDuration a b = (if a < b then a else b)"

text \<open>
  The loop's variables, with what it has done: the updates for which a handler was started, in
  order, and the waits.
\<close>

record poll_state =
  poll_offset :: int
  poll_backoff :: duration
  handled :: "Update list"
  waits :: "duration list"

definition poll_init :: poll_state where
  "poll_init = \<lparr>poll_offset = 0, poll_backoff = tg_backoffBase, handled = [], waits = []\<rparr>"

text \<open>Where in an iteration the context is cancelled, if it is.\<close>

datatype cancel_point = NotCancelled | AtHead | DuringRequest | DuringWait

text \<open>The \<open>range\<close> over the updates of an answer: each one moves the offset and starts a handler.\<close>

fun dispatch_updates :: "Update list \<Rightarrow> poll_state \<Rightarrow> poll_state" where
  "dispatch_updates [] p = p"
| "dispatch_updates (u # us) p =
     dispatch_updates us (p\<lparr>poll_offset := wrap64 (UpdateID u + 1), handled := handled p @ [u]\<rparr>)"

definition poll_once :: "cancel_point \<Rightarrow> (int \<Rightarrow> tg_error + Update list) \<Rightarrow> poll_state \<Rightarrow> poll_state \<times> bool" where
  "poll_once cancel getUpdates p =
     (if cancel = AtHead then (p, False)
      else case getUpdates (poll_offset p) of
        Inl e \<Rightarrow>
          if cancel = DuringRequest then (p, False)
          else
            (let p' = p\<lparr>waits := waits p @ [poll_backoff p]\<rparr>
             in if cancel = DuringWait then (p', False)
                else (p'\<lparr>poll_backoff := minDuration (poll_backoff p * 2) tg_backoffMax\<rparr>, True))
      | Inr us \<Rightarrow> (dispatch_updates us (p\<lparr>poll_backoff := tg_backoffBase\<rparr>), True))"

text \<open>\<open>n\<close> iterations, or fewer if the context is cancelled; whether the loop still runs.\<close>

primrec poll_run :: "(nat \<Rightarrow> cancel_point) \<Rightarrow> (nat \<Rightarrow> int \<Rightarrow> tg_error + Update list) \<Rightarrow> nat \<Rightarrow> poll_state \<times> bool" where
  "poll_run cancel srv 0 = (poll_init, True)"
| "poll_run cancel srv (Suc n) =
     (let (p, running) = poll_run cancel srv n
      in if running then poll_once (cancel n) (srv n) p else (p, False))"

lemma dispatch_updates_eq:
  "dispatch_updates us p =
     p\<lparr>poll_offset := (if us = [] then poll_offset p else wrap64 (UpdateID (last us) + 1)), handled := handled p @ us\<rparr>"
  by (induction us arbitrary: p) auto

text \<open>
  What Telegram documents of \<open>getUpdates\<close>: \<open>queue n\<close> are all updates that have come in before the
  \<open>n\<close>-th poll, with ascending ids; an answer holds the first hundred that are not below the offset.
\<close>

definition update_queue :: "(nat \<Rightarrow> Update list) \<Rightarrow> bool" where
  "update_queue queue \<longleftrightarrow>
     (\<forall>n. prefix (queue n) (queue (Suc n)) \<and> sorted_wrt (<) (map UpdateID (queue n))
        \<and> (\<forall>u \<in> set (queue n). 0 \<le> UpdateID u \<and> UpdateID u < int64_max))"

definition serves :: "(nat \<Rightarrow> Update list) \<Rightarrow> (nat \<Rightarrow> int \<Rightarrow> tg_error + Update list) \<Rightarrow> bool" where
  "serves queue srv \<longleftrightarrow>
     (\<forall>n off us. srv n off = Inr us \<longrightarrow> us = take 100 (filter (\<lambda>u. off \<le> UpdateID u) (queue n)))"

text \<open>The handled updates are those of the queue below the offset.\<close>

definition poll_inv :: "Update list \<Rightarrow> poll_state \<Rightarrow> bool" where
  "poll_inv q p \<longleftrightarrow> (\<exists>k \<le> length q. handled p = take k q \<and>
     poll_offset p = (if k = 0 then 0 else UpdateID (q ! (k - 1)) + 1))"

lemma poll_inv_extend: "poll_inv q p \<Longrightarrow> poll_inv (q @ ext) p"
proof -
  assume "poll_inv q p"
  then obtain k where k: "k \<le> length q" "handled p = take k q" "poll_offset p = (if k = 0 then 0 else UpdateID (q ! (k - 1)) + 1)"
    by (auto simp: poll_inv_def)
  then have "k \<noteq> 0 \<Longrightarrow> (q @ ext) ! (k - 1) = q ! (k - 1)" by (simp add: nth_append)
  with k show ?thesis unfolding poll_inv_def by (intro exI[of _ k]) auto
qed

lemma filter_from_offset:
  assumes "sorted_wrt (<) (map UpdateID q)" and "\<forall>u \<in> set q. 0 \<le> UpdateID u"
    and "k \<le> length q" and "off = (if k = 0 then 0 else UpdateID (q ! (k - 1)) + 1)"
  shows "filter (\<lambda>u. off \<le> UpdateID u) q = drop k q"
proof -
  have less: "i < j \<Longrightarrow> j < length q \<Longrightarrow> UpdateID (q ! i) < UpdateID (q ! j)" for i j
    using assms(1) by (simp add: sorted_wrt_iff_nth_less)
  have q: "q = take k q @ drop k q" by simp
  have "filter (\<lambda>u. off \<le> UpdateID u) (take k q) = []"
  proof (rule filter_False, rule ballI)
    fix u assume "u \<in> set (take k q)"
    then obtain i where "i < k" "u = q ! i" using assms(3) by (auto simp: in_set_conv_nth)
    moreover from this have "i \<noteq> k - 1 \<Longrightarrow> UpdateID (q ! i) < UpdateID (q ! (k - 1))" using less[of i "k - 1"] assms(3) by simp
    ultimately show "\<not> off \<le> UpdateID u" using assms(4) by (cases "i = k - 1") auto
  qed
  moreover have "filter (\<lambda>u. off \<le> UpdateID u) (drop k q) = drop k q"
  proof (rule filter_True, rule ballI)
    fix u assume u: "u \<in> set (drop k q)"
    then obtain j where "j < length q - k" "u = q ! (k + j)" by (auto simp: in_set_conv_nth)
    then show "off \<le> UpdateID u"
      using less[of "k - 1" "k + j"] assms(2,4) u in_set_dropD[OF u] by (cases "k = 0") force+
  qed
  ultimately show ?thesis by (metis q filter_append append_Nil)
qed

lemma poll_once_inv:
  assumes "sorted_wrt (<) (map UpdateID q)" and "\<forall>u \<in> set q. 0 \<le> UpdateID u \<and> UpdateID u < int64_max"
    and "poll_inv q p"
    and "\<And>us. getUpdates (poll_offset p) = Inr us \<Longrightarrow> us = take 100 (filter (\<lambda>u. poll_offset p \<le> UpdateID u) q)"
  shows "poll_inv q (fst (poll_once cancel getUpdates p))"
    and "getUpdates (poll_offset p) = Inr us \<Longrightarrow> length us < 100 \<Longrightarrow> cancel = NotCancelled \<Longrightarrow>
      handled (fst (poll_once cancel getUpdates p)) = q"
proof -
  obtain k where k: "k \<le> length q" "handled p = take k q" "poll_offset p = (if k = 0 then 0 else UpdateID (q ! (k - 1)) + 1)"
    using assms(3) by (auto simp: poll_inv_def)
  have f: "filter (\<lambda>u. poll_offset p \<le> UpdateID u) q = drop k q"
    using filter_from_offset[OF assms(1) _ k(1,3)] assms(2) by blast
  have got: "us = take 100 (drop k q)" if "getUpdates (poll_offset p) = Inr us" for us
    using assms(4)[OF that] by (simp only: f)
  have inv_us: "poll_inv q (dispatch_updates (take 100 (drop k q)) (p\<lparr>poll_backoff := b\<rparr>))" for b
  proof (cases "k = length q")
    case True
    then show ?thesis using assms(3) by (simp add: poll_inv_def)
  next
    case False
    let ?us = "take 100 (drop k q)"
    define k' where "k' = k + length ?us"
    have ne: "?us \<noteq> []" and k': "0 < k'" "k' \<le> length q" using False k(1) by (auto simp: k'_def)
    have "last ?us = q ! (k' - 1)"
      using ne by (simp add: last_conv_nth k'_def nth_append) 
    moreover have "UpdateID (q ! (k' - 1)) + 1 = wrap64 (UpdateID (q ! (k' - 1)) + 1)"
    proof -
      have "q ! (k' - 1) \<in> set q" using k' by simp
      then have "in_int64 (UpdateID (q ! (k' - 1)) + 1)" using assms(2) by (force simp: in_int64_def int64_min_def)
      then show ?thesis by simp
    qed
    moreover have "take k q @ ?us = take k' q"
    proof (cases "length q - k \<le> 100")
      case True
      then show ?thesis by (simp add: k'_def)
    next
      case False
      then have "length ?us = 100" by simp
      then show ?thesis unfolding k'_def by (simp only: take_add)
    qed
    ultimately show ?thesis
      unfolding poll_inv_def dispatch_updates_eq using ne k' k(2) by (intro exI[of _ k']) simp
  qed
  show "poll_inv q (fst (poll_once cancel getUpdates p))"
  proof (cases "getUpdates (poll_offset p)")
    case (Inl e)
    then have "handled (fst (poll_once cancel getUpdates p)) = handled p"
      "poll_offset (fst (poll_once cancel getUpdates p)) = poll_offset p"
      by (simp_all add: poll_once_def Let_def)
    then show ?thesis using assms(3) by (simp only: poll_inv_def)
  next
    case (Inr us)
    then show ?thesis using assms(3) inv_us got[OF Inr] by (simp add: poll_once_def)
  qed
  show "handled (fst (poll_once cancel getUpdates p)) = q"
    if "getUpdates (poll_offset p) = Inr us" "length us < 100" "cancel = NotCancelled"
  proof -
    have us: "us = take 100 (drop k q)" by (rule got[OF that(1)])
    with that(2) have "us = drop k q" by simp
    then have "handled p @ us = q" using k(2) by simp
    then show ?thesis using that(1,3) by (simp add: poll_once_def dispatch_updates_eq)
  qed
qed

lemma poll_run_inv:
  assumes "update_queue queue" and "serves queue srv"
  shows "poll_inv (queue n) (fst (poll_run cancel srv n))"
proof (induction n)
  case 0
  show ?case unfolding poll_inv_def by (intro exI[of _ 0]) (simp add: poll_init_def)
next
  case (Suc n)
  obtain ext where ext: "queue (Suc n) = queue n @ ext" using assms(1) by (auto simp: update_queue_def prefix_def)
  obtain p running where p: "poll_run cancel srv n = (p, running)" by force
  have "poll_inv (queue n) (fst (poll_once (cancel n) (srv n) p))"
    by (rule poll_once_inv(1)) (use assms Suc p in \<open>auto simp: update_queue_def serves_def\<close>)
  with Suc p show ?case by (simp add: ext poll_inv_extend)
qed

lemma strict_sorted_map: "sorted_wrt (<) (map (f :: 'a \<Rightarrow> int) xs) \<Longrightarrow> distinct xs"
  by (induction xs) auto

text \<open>
  C16: No update is lost, doubled or reordered by the polling loop, whatever errors, waits and
  cancellations happen in between: at any time the updates for which a handler was started are an
  initial part of those that came in, each of them once and in order; and a successful poll with
  fewer than a hundred updates has caught up with all of them.
\<close>

theorem updates_handled_once:
  assumes "update_queue queue" and "serves queue srv" and "poll_run cancel srv n = (p, running)"
  shows "prefix (handled p) (queue n) \<and> distinct (handled p)
    \<and> (running \<and> cancel n = NotCancelled \<and> (\<exists>us. srv n (poll_offset p) = Inr us \<and> length us < 100) \<longrightarrow>
        handled (fst (poll_run cancel srv (Suc n))) = queue n)"
proof -
  have inv: "poll_inv (queue n) p" using poll_run_inv[OF assms(1,2), of n cancel] assms(3) by simp
  then obtain k where "handled p = take k (queue n)" by (auto simp: poll_inv_def)
  moreover have "distinct (queue n)"
    using assms(1) strict_sorted_map by (auto simp: update_queue_def)
  moreover have "handled (fst (poll_run cancel srv (Suc n))) = queue n"
    if "running" "cancel n = NotCancelled" "srv n (poll_offset p) = Inr us" "length us < 100" for us
  proof -
    have "handled (fst (poll_once (cancel n) (srv n) p)) = queue n"
      by (rule poll_once_inv(2)[where getUpdates = "srv n" and p = p and us = us, OF _ _ inv _ that(3,4,2)]) (use assms(1,2) in \<open>auto simp: update_queue_def serves_def\<close>)
    then show ?thesis using assms(3) that(1) by simp
  qed
  ultimately show ?thesis by (auto simp: take_is_prefix)
qed

lemma updates_handled_once_witness:
  "handled (fst (poll_run (\<lambda>_. NotCancelled) (\<lambda>n off. Inr (filter (\<lambda>u. off \<le> UpdateID u) [\<lparr>UpdateID = 7, upd_Message = None\<rparr>])) 2))
     = [\<lparr>UpdateID = 7, upd_Message = None\<rparr>]"
proof -
  let ?q = "[\<lparr>UpdateID = 7, upd_Message = None\<rparr>]"
  let ?srv = "\<lambda>n :: nat. \<lambda>off. Inr (filter (\<lambda>u. off \<le> UpdateID u) ?q) :: tg_error + Update list"
  have q: "update_queue (\<lambda>_. ?q)" by (simp add: update_queue_def int64_max_def)
  have s: "serves (\<lambda>_. ?q) ?srv" by (simp add: serves_def)
  obtain p running where p: "poll_run (\<lambda>_. NotCancelled) ?srv 1 = (p, running)" by force
  have "running" using p by (auto simp: poll_once_def)
  with updates_handled_once[OF q s p] show ?thesis by (simp add: numeral_2_eq_2)
qed

text \<open>The waits between failing polls.\<close>

definition tg_wait :: "nat \<Rightarrow> duration" where
  "tg_wait i = min (2 ^ Suc i * Second) tg_backoffMax"

lemma tg_wait_Suc: "minDuration (tg_wait i * 2) tg_backoffMax = tg_wait (Suc i)"
  by (simp add: tg_wait_def minDuration_def tg_backoffMax_def Second_def min_def)

lemma tg_wait_bounds: "2 * Second \<le> tg_wait i \<and> tg_wait i \<le> tg_backoffMax"
proof -
  have "(2 :: int) \<le> 2 ^ Suc i" by simp
  then have "2 * Second \<le> 2 ^ Suc i * Second" by (simp add: Second_def)
  then show ?thesis by (simp add: tg_wait_def tg_backoffMax_def Second_def)
qed

lemma poll_run_errors:
  assumes "\<And>i off. i < n \<Longrightarrow> \<exists>e. srv i off = Inl e" and "\<And>i. i < n \<Longrightarrow> cancel i = NotCancelled"
  shows "poll_run cancel srv n =
    (\<lparr>poll_offset = 0, poll_backoff = tg_wait n, handled = [], waits = map tg_wait [0..<n]\<rparr>, True)"
  using assms
proof (induction n)
  case 0
  show ?case by (simp add: poll_init_def tg_wait_def tg_backoffBase_def tg_backoffMax_def Second_def)
next
  case (Suc n)
  obtain e where "srv n 0 = Inl e" using Suc.prems(1)[of n 0] by auto
  with Suc show ?case by (simp add: poll_once_def tg_wait_Suc)
qed

text \<open>
  A bot without traffic is always in its error path. The HTTP client gives up after ten seconds,
  its own timeout, while the server holds an empty long poll for the thirty seconds it was asked to;
  so every idle poll fails, nothing is handled, and the waits between the polls grow from two
  seconds to a minute, for which the bot does not listen at all.
\<close>

lemma idle_bot_backs_off:
  assumes "\<And>n req. pollTimeoutSeconds * Second \<le> fst (srv n req)"
    and "\<And>i off. polls i off = fst (GetUpdates url_ok decode_env decode (timed_env tgHTTPTimeout srv) c off pollTimeoutSeconds (st i))"
  shows "\<exists>p. poll_run (\<lambda>_. NotCancelled) polls n = (p, True) \<and> handled p = [] \<and> waits p = map tg_wait [0..<n]
    \<and> (5 \<le> n \<longrightarrow> poll_backoff p = tg_backoffMax)"
proof -
  have "\<exists>e. polls i off = Inl e" for i off
  proof -
    have "timed_env tgHTTPTimeout srv k req = Inl ''Client.Timeout exceeded''" for k req
      using assms(1)[of k req]
      by (cases "srv k req") (simp add: timed_env_def tgHTTPTimeout_def pollTimeoutSeconds_def Second_def)
    then show ?thesis
      by (simp add: assms(2) GetUpdates_def tg_post_def tg_do_def http_Do_def)
  qed
  then have run: "poll_run (\<lambda>_. NotCancelled) polls n =
    (\<lparr>poll_offset = 0, poll_backoff = tg_wait n, handled = [], waits = map tg_wait [0..<n]\<rparr>, True)"
    by (intro poll_run_errors) simp_all
  have "tg_wait n = tg_backoffMax" if "5 \<le> n"
  proof -
    have "(2 :: int) ^ 6 \<le> 2 ^ Suc n" using that by (intro power_increasing) auto
    then show ?thesis by (simp add: tg_wait_def tg_backoffMax_def Second_def)
  qed
  with run show ?thesis by simp
qed

lemma idle_bot_backs_off_witness:
  "waits (fst (poll_run (\<lambda>_. NotCancelled) (\<lambda>i off. fst (GetUpdates (\<lambda>u. True) (\<lambda>b. None) (\<lambda>b. None)
      (timed_env tgHTTPTimeout (\<lambda>n req. (30 * Second, 200, []))) (tg_NewClient ''t'') off pollTimeoutSeconds \<lparr>chat_world = (), http_log = []\<rparr>)) 2))
   = [2 * Second, 4 * Second]"
proof -
  let ?srv = "\<lambda>n :: nat. \<lambda>req :: http_request. (30 * Second, 200 :: int, [] :: string)"
  have "\<And>n req. pollTimeoutSeconds * Second \<le> fst (?srv n req)" by (simp add: pollTimeoutSeconds_def)
  from idle_bot_backs_off[OF this refl, where n = 2 and url_ok = "\<lambda>u. True" and decode_env = "\<lambda>b. None" and decode = "\<lambda>b. None"
      and c = "tg_NewClient ''t''" and st = "\<lambda>i. \<lparr>chat_world = (), http_log = []\<rparr>"]
  show ?thesis by (auto simp: tg_wait_def tg_backoffMax_def Second_def numeral_2_eq_2)
qed

section \<open>The bot\<close>

datatype tg_handler = BotHelp | BotRun | BotModules

definition tg_bot_router :: "(nat \<Rightarrow> nat) \<Rightarrow> tg_handler tg_Router" where
  "tg_bot_router ul =
     tg_RegisterCommand ul ''modules'' BotModules (tg_RegisterCommand ul ''run'' BotRun
       (tg_RegisterCommand ul ''help'' BotHelp (tg_RegisterCommand ul ''start'' BotHelp tg_NewRouter)))"

text \<open>Starting: the token is checked by \<open>GetMe\<close> before the poller runs; \<open>None\<close> is a started bot.\<close>

definition tg_Start ::
    "(string \<Rightarrow> bool) \<Rightarrow> (string \<Rightarrow> apiResponse option) \<Rightarrow> (string \<Rightarrow> tg_User option) \<Rightarrow> http_env \<Rightarrow> string
     \<Rightarrow> 'w chat_state \<Rightarrow> tg_error option \<times> 'w chat_state" where
  "tg_Start url_ok decode_env decode env token st =
     (if token = [] then (Some TgEmptyToken, st)
      else case GetMe url_ok decode_env decode env (tg_NewClient token) st of
        (Inl e, st') \<Rightarrow> (Some (TgTokenInvalid e), st')
      | (Inr me, st') \<Rightarrow> (None, st'))"

definition tg_call ::
    "(int \<Rightarrow> string \<Rightarrow> 'w chat_state \<Rightarrow> 'w chat_state) \<Rightarrow> 'w ModuleRegistry \<Rightarrow> string list \<Rightarrow> instant
     \<Rightarrow> tg_handler \<Rightarrow> int \<Rightarrow> string \<Rightarrow> 'w chat_state \<Rightarrow> 'w chat_state" where
  "tg_call reply r ord now h =
     (case h of BotHelp \<Rightarrow> tg_HandleHelp reply r ord | BotRun \<Rightarrow> tg_HandleRun reply r ord now
      | BotModules \<Rightarrow> tg_HandleModules reply r ord)"

text \<open>What the bot does with one update.\<close>

definition tg_update ::
    "(nat \<Rightarrow> nat) \<Rightarrow> (int \<Rightarrow> string \<Rightarrow> 'w chat_state \<Rightarrow> 'w chat_state) \<Rightarrow> 'w ModuleRegistry \<Rightarrow> string list \<Rightarrow> instant
     \<Rightarrow> Update \<Rightarrow> 'w chat_state \<Rightarrow> 'w chat_state" where
  "tg_update ul reply r ord now upd st =
     (case tg_Handle ul (tg_bot_router ul) upd of None \<Rightarrow> st | Some (h, chatID, args) \<Rightarrow> tg_call reply r ord now h chatID args st)"

lemma tg_bot_commands:
  "tg_commands (tg_bot_router ul) = [''start'' \<mapsto> BotHelp, ''help'' \<mapsto> BotHelp, ''run'' \<mapsto> BotRun, ''modules'' \<mapsto> BotModules]"
  "tg_fallback (tg_bot_router ul) = None"
  by (simp_all add: tg_bot_router_def tg_RegisterCommand_def tg_NewRouter_def ToLower_def ascii_def byte_def lower_ascii_def)

lemma tg_HandleRun_reply:
  assumes "registry_wf r" and "range_order (loaded r) ord" and "loaded r \<noteq> Map.empty" and "TrimSpace goal \<noteq> []"
  shows "tg_HandleRun reply r ord now chatID goal st =
    (let (as, w) = module_answers r (tg_task chatID now goal) ord (chat_world st)
     in reply chatID (TrimSpace (concat (map (answer_text tg_good tg_bad) as))) (st\<lparr>chat_world := w\<rparr>))"
  using Manifests_nonempty[OF assms(1-3)] range_order_sub[OF assms(2)] assms(4)
  by (simp add: tg_HandleRun_def askModules_answers[OF assms(1)] Let_def split_def)



end
