(* ===== verification/Websocket.thy ===== *)
theory Websocket
  imports Go_Encoding
begin

unbundle bit_operations_syntax

text \<open>
  The WebSocket client of the Discord gateway, \<open>gateway/discord/websocket.go\<close>: the opening
  handshake, frames, and the assembly of text messages from fragments with pings between them.

  The bytes that will arrive on a connection are a string; reading past its end is the error of a
  closed connection. What happens to the \<open>n\<close>-th frame written is \<open>env n\<close>: the mask key drawn, if any,
  and \<open>None\<close> for a write that succeeds or \<open>Some k\<close> for one that fails after \<open>k\<close> bytes.
\<close>

section \<open>Bytes\<close>

definition u8_of :: "char \<Rightarrow> u8" where "u8_of c = of_nat (byte c)"
definition c_of :: "u8 \<Rightarrow> char" where "c_of w = char_of (unat w)"

lemma u8_of_c_of [simp]: "u8_of (c_of w) = w"
proof -
  have "unat w < 2 ^ LENGTH(8)" by (rule unsigned_less)
  then have "unat w < 256" by simp
  then show ?thesis by (simp add: u8_of_def c_of_def byte_char_of_mod)
qed

lemma c_of_u8_of [simp]: "c_of (u8_of c) = c"
  using byte_less[of c] by (simp add: u8_of_def c_of_def byte_def unsigned_of_nat take_bit_nat_eq_self)

text \<open>\<open>io.ReadFull\<close> on what is left.\<close>

definition ReadFull :: "nat \<Rightarrow> string \<Rightarrow> (string \<times> string) option" where
  "ReadFull n s = (if length s < n then None else Some (take n s, drop n s))"

lemma ReadFull_append [simp]: "ReadFull (length d) (d @ s) = Some (d, s)"
  by (simp add: ReadFull_def)

lemma ReadFull_append_eq: "n = length d \<Longrightarrow> ReadFull n (d @ s) = Some (d, s)"
  by simp

section \<open>Frames\<close>

definition wsOpContinuation :: u8 where "wsOpContinuation = 0x0"
definition wsOpText :: u8 where "wsOpText = 0x1"
definition wsOpBinary :: u8 where "wsOpBinary = 0x2"
definition wsOpClose :: u8 where "wsOpClose = 0x8"
definition wsOpPing :: u8 where "wsOpPing = 0x9"
definition wsOpPong :: u8 where "wsOpPong = 0xA"

lemmas ws_ops = wsOpContinuation_def wsOpText_def wsOpBinary_def wsOpClose_def wsOpPing_def wsOpPong_def

definition ws_mask :: "string \<Rightarrow> string \<Rightarrow> string" where
  "ws_mask key data = map (\<lambda>(i, c). c_of (u8_of c XOR u8_of (key ! (i mod 4)))) (enumerate 0 data)"

datatype frame_error = ReadHeader0 | ReadHeader1 | ReadLength16 | ReadLength64 | LengthOverflow nat | ReadMaskKey | ReadPayload

datatype frame_result = FrameFailed frame_error | FramePanic | Frame bool u8 string string

text \<open>The length field and its extensions; the 64-bit form is refused above the largest \<open>int64\<close>.\<close>

definition readLength :: "u8 \<Rightarrow> string \<Rightarrow> frame_error + nat \<times> string" where
  "readLength len7 s =
     (if len7 = 126 then
        (case ReadFull 2 s of None \<Rightarrow> Inl ReadLength16 | Some (ext, s') \<Rightarrow> Inr (be_value ext, s'))
      else if len7 = 127 then
        (case ReadFull 8 s of
           None \<Rightarrow> Inl ReadLength64
         | Some (ext, s') \<Rightarrow> if be_value ext > 2 ^ 63 - 1 then Inl (LengthOverflow (be_value ext)) else Inr (be_value ext, s'))
      else Inr (unat len7, s))"

text \<open>
  One frame, with the bytes after it. \<open>make\<close> panics on a slice longer than the runtime's limit,
  \<open>max_slice\<close>.
\<close>

definition readFrame :: "nat \<Rightarrow> string \<Rightarrow> frame_result" where
  "readFrame max_slice s =
     (case s of
        [] \<Rightarrow> FrameFailed ReadHeader0
      | c0 # s1 \<Rightarrow>
          (case s1 of
             [] \<Rightarrow> FrameFailed ReadHeader1
           | c1 # s2 \<Rightarrow>
               (let b0 = u8_of c0; b1 = u8_of c1; fin = (b0 AND 0x80 \<noteq> 0); opcode = b0 AND 0x0F; masked = (b1 AND 0x80 \<noteq> 0)
                in case readLength (b1 AND 0x7F) s2 of
                     Inl e \<Rightarrow> FrameFailed e
                   | Inr (len, s3) \<Rightarrow>
                       (case (if masked then ReadFull 4 s3 else Some (replicate 4 (c_of 0), s3)) of
                          None \<Rightarrow> FrameFailed ReadMaskKey
                        | Some (maskKey, s4) \<Rightarrow>
                            if len = 0 then Frame fin opcode [] s4
                            else if max_slice < len then FramePanic
                            else
                              (case ReadFull len s4 of
                                 None \<Rightarrow> FrameFailed ReadPayload
                               | Some (data, s5) \<Rightarrow>
                                   Frame fin opcode (if masked then ws_mask maskKey data else data) s5)))))"

definition frame_header :: "u8 \<Rightarrow> nat \<Rightarrow> string" where
  "frame_header opcode len =
     c_of (0x80 OR opcode) #
     (if len \<le> 125 then [c_of (0x80 OR of_nat len)]
      else if len \<le> 65535 then c_of (0x80 OR 126) # be_bytes 2 len
      else c_of (0x80 OR 127) # be_bytes 8 len)"

definition frame_bytes :: "u8 \<Rightarrow> string \<Rightarrow> string \<Rightarrow> string" where
  "frame_bytes opcode payload maskKey = frame_header opcode (length payload) @ maskKey @ ws_mask maskKey payload"

record wsConn =
  ws_in :: string
  ws_out :: string
  ws_writes :: nat

datatype write_error = MaskKeyFailed | FrameWriteFailed

type_synonym write_env = "nat \<Rightarrow> string option \<times> nat option"

definition writeFrame :: "write_env \<Rightarrow> u8 \<Rightarrow> string \<Rightarrow> wsConn \<Rightarrow> write_error option \<times> wsConn" where
  "writeFrame env opcode payload c =
     (let c' = c\<lparr>ws_writes := Suc (ws_writes c)\<rparr>
      in case env (ws_writes c) of
           (None, _) \<Rightarrow> (Some MaskKeyFailed, c')
         | (Some key, None) \<Rightarrow> (None, c'\<lparr>ws_out := ws_out c @ frame_bytes opcode payload key\<rparr>)
         | (Some key, Some k) \<Rightarrow> (Some FrameWriteFailed, c'\<lparr>ws_out := ws_out c @ take k (frame_bytes opcode payload key)\<rparr>))"

definition WriteText :: "write_env \<Rightarrow> string \<Rightarrow> wsConn \<Rightarrow> write_error option \<times> wsConn" where
  "WriteText env t = writeFrame env wsOpText t"

definition sendClose :: "write_env \<Rightarrow> wsConn \<Rightarrow> wsConn" where
  "sendClose env c = snd (writeFrame env wsOpClose [] c)"

text \<open>\<open>Close\<close> gives the error of closing the connection, whether or not the frame could be sent.\<close>

definition wsConn_Close :: "write_env \<Rightarrow> string option \<Rightarrow> wsConn \<Rightarrow> string option \<times> wsConn" where
  "wsConn_Close env closed c = (closed, sendClose env c)"

section \<open>Round trip of frames\<close>

lemma length_ws_mask [simp]: "length (ws_mask key d) = length d"
  by (simp add: ws_mask_def)

lemma ws_mask_Nil [simp]: "ws_mask key [] = []"
  by (simp add: ws_mask_def)

lemma ws_mask_mask [simp]: "ws_mask key (ws_mask key d) = d"
  by (rule nth_equalityI) (simp_all add: ws_mask_def nth_enumerate_eq xor.assoc)

text \<open>The encoding of RFC 6455 for either side: fragments and the mask are optional.\<close>

definition ws_encode :: "bool \<Rightarrow> u8 \<Rightarrow> string option \<Rightarrow> string \<Rightarrow> string" where
  "ws_encode fin opcode mk d =
     (let bit = (case mk of None \<Rightarrow> 0 | Some _ \<Rightarrow> 0x80); n = length d
      in c_of ((if fin then 0x80 else 0) OR opcode) #
         (if n \<le> 125 then [c_of (bit OR of_nat n)]
          else if n \<le> 65535 then c_of (bit OR 126) # be_bytes 2 n
          else c_of (bit OR 127) # be_bytes 8 n)
         @ (case mk of None \<Rightarrow> d | Some key \<Rightarrow> key @ ws_mask key d))"

lemma frame_bytes_encode: "frame_bytes opcode d key = ws_encode True opcode (Some key) d"
  by (simp add: frame_bytes_def frame_header_def ws_encode_def Let_def)

definition small_op :: "u8 \<Rightarrow> bool" where
  "small_op opcode \<longleftrightarrow> opcode AND 0x0F = opcode"

lemma small_ops [simp]:
  "small_op wsOpContinuation" "small_op wsOpText" "small_op wsOpBinary" "small_op wsOpClose" "small_op wsOpPing" "small_op wsOpPong"
  by (simp_all add: small_op_def ws_ops)

lemma header_byte:
  assumes "small_op opcode"
  shows "((if fin then 0x80 else 0) OR opcode) AND 0x80 \<noteq> (0 :: u8) \<longleftrightarrow> fin"
    and "((if fin then 0x80 else 0) OR opcode) AND 0x0F = opcode"
proof -
  have o: "opcode AND 0x80 = 0"
  proof -
    have "opcode AND 0x80 = opcode AND (0x0F AND 0x80)" using assms by (metis small_op_def and.assoc)
    then show ?thesis by simp
  qed
  show "((if fin then 0x80 else 0) OR opcode) AND 0x80 \<noteq> (0 :: u8) \<longleftrightarrow> fin"
    by (simp add: bit.conj_disj_distrib2 o)
  show "((if fin then 0x80 else 0) OR opcode) AND 0x0F = opcode"
    using assms by (simp add: bit.conj_disj_distrib2 small_op_def)
qed

lemma length_byte:
  fixes n :: nat and b :: u8
  assumes "n < 128" and "b = 0 \<or> b = 0x80"
  shows "(b OR of_nat n) AND 0x80 = b" and "(b OR of_nat n) AND 0x7F = of_nat n"
proof -
  have t: "of_nat n AND 0x7F = (of_nat n :: u8)"
  proof -
    have "(0x7F :: u8) = mask 7" by (simp add: mask_eq_exp_minus_1)
    then have "of_nat n AND 0x7F = (take_bit 7 (of_nat n) :: u8)" by (simp add: take_bit_eq_mask)
    also have "\<dots> = of_nat (take_bit 7 n)" by (simp add: take_bit_of_nat)
    also have "take_bit 7 n = n" using assms(1) by (simp add: take_bit_nat_eq_self)
    finally show ?thesis .
  qed
  have o: "of_nat n AND 0x80 = (0 :: u8)"
  proof -
    have "(of_nat n :: u8) AND 0x80 = of_nat n AND (0x7F AND 0x80)" by (metis t and.assoc)
    then show ?thesis by simp
  qed
  show "(b OR of_nat n) AND 0x80 = b" using assms(2) by (auto simp: bit.conj_disj_distrib2 o)
  show "(b OR of_nat n) AND 0x7F = of_nat n" using assms(2) by (auto simp: bit.conj_disj_distrib2 t)
qed

lemmas length_byte_ext = length_byte[of 126, simplified] length_byte[of 127, simplified]

lemma readLength_short:
  assumes "n \<le> 125"
  shows "readLength (of_nat n) s = Inr (n, s)"
proof -
  have u: "unat (of_nat n :: u8) = n"
    using assms by (simp add: unsigned_of_nat take_bit_nat_eq_self)
  then have "of_nat n \<noteq> (126 :: u8)" and "of_nat n \<noteq> (127 :: u8)" using assms by auto
  with u show ?thesis by (simp add: readLength_def)
qed

lemma readLength_16: "n < 256 ^ 2 \<Longrightarrow> readLength 126 (be_bytes 2 n @ s) = Inr (n, s)"
  by (simp add: readLength_def ReadFull_append_eq be_value_bytes)

lemma readLength_64: "n \<le> 2 ^ 63 - 1 \<Longrightarrow> readLength 127 (be_bytes 8 n @ s) = Inr (n, s)"
  by (simp add: readLength_def ReadFull_append_eq be_value_bytes)

lemma read_encode:
  assumes "small_op opcode" and "length d \<le> 2 ^ 63 - 1" and "length d \<le> max_slice"
    and "\<forall>key. mk = Some key \<longrightarrow> length key = 4"
  shows "readFrame max_slice (ws_encode fin opcode mk d @ rest) = Frame fin opcode d rest"
proof -
  define bit :: u8 where "bit = (case mk of None \<Rightarrow> 0 | Some _ \<Rightarrow> 0x80)"
  define n where "n = length d"
  define tail where "tail = (case mk of None \<Rightarrow> d | Some key \<Rightarrow> key @ ws_mask key d) @ rest"
  have bit: "bit = 0 \<or> bit = 0x80" "bit \<noteq> 0 \<longleftrightarrow> mk \<noteq> None" by (simp_all add: bit_def split: option.splits)
  obtain b1 ext where hd: "ws_encode fin opcode mk d @ rest = c_of ((if fin then 0x80 else 0) OR opcode) # c_of b1 # ext @ tail"
    and b1: "b1 AND 0x80 = bit" and len: "readLength (b1 AND 0x7F) (ext @ tail) = Inr (n, tail)"
  proof -
    consider "n \<le> 125" | "125 < n" "n \<le> 65535" | "65535 < n" by linarith
    then show ?thesis
    proof cases
      case 1
      show ?thesis
        by (rule that[of "bit OR of_nat n" "[]"])
          (use 1 length_byte[of n bit] bit(1) in \<open>simp_all add: ws_encode_def Let_def bit_def[symmetric] n_def[symmetric] tail_def readLength_short\<close>)
    next
      case 2
      show ?thesis
        by (rule that[of "bit OR 126" "be_bytes 2 n"])
          (use 2 length_byte_ext bit(1) in \<open>simp_all add: ws_encode_def Let_def bit_def[symmetric] n_def[symmetric] tail_def readLength_16\<close>)
    next
      case 3
      show ?thesis
        by (rule that[of "bit OR 127" "be_bytes 8 n"])
          (use 3 length_byte_ext bit(1) assms(2) in \<open>simp_all add: ws_encode_def Let_def bit_def[symmetric] n_def[symmetric] tail_def readLength_64\<close>)
    qed
  qed
  show ?thesis
  proof (cases mk)
    case None
    then show ?thesis
      unfolding hd readFrame_def using len b1 bit(2) assms(3) header_byte[OF assms(1)]
      by (simp add: tail_def n_def)
  next
    case (Some key)
    with assms(4) have "length key = 4" by simp
    with Some show ?thesis
      unfolding hd readFrame_def using len b1 bit(2) assms(3) header_byte[OF assms(1)]
      by (simp add: tail_def n_def ReadFull_append_eq)
  qed
qed

text \<open>
  C20: What is written is what is read: a frame in the encoding of RFC 6455, masked or not, final or
  not, is read back as its flag, opcode and payload, and the reader stops exactly at its end, for
  every payload up to \<open>2^63 - 1\<close> bytes that the runtime can hold; so all three length forms agree
  at their boundaries. The frames the client writes are such frames.
\<close>

theorem frame_roundtrip:
  assumes "small_op opcode" and "length d \<le> 2 ^ 63 - 1" and "length d \<le> max_slice"
    and "\<forall>key. mk = Some key \<longrightarrow> length key = 4"
  shows "readFrame max_slice (ws_encode fin opcode mk d @ rest) = Frame fin opcode d rest
    \<and> frame_bytes opcode d key' = ws_encode True opcode (Some key') d"
  using read_encode[OF assms] by (simp add: frame_bytes_encode)

lemma frame_roundtrip_witness:
  "readFrame 1000 (frame_bytes wsOpText (replicate 126 (CHR ''a'')) ''kkkk'' @ ''rest'') = Frame True wsOpText (replicate 126 (CHR ''a'')) ''rest''"
proof -
  have "frame_bytes wsOpText (replicate 126 (CHR ''a'')) ''kkkk'' = ws_encode True wsOpText (Some ''kkkk'') (replicate 126 (CHR ''a''))"
    by (rule frame_bytes_encode)
  then show ?thesis
    using frame_roundtrip[of wsOpText "replicate 126 (CHR ''a'')" 1000 "Some ''kkkk''" True "''rest''"] by simp
qed

text \<open>
  The runtime's limit: a server can end the whole program with ten bytes, the header of a frame whose
  announced length is below \<open>2^63\<close> but more than the runtime can allocate.
\<close>

lemma huge_length_panics:
  assumes "max_slice < n" and "n \<le> 2 ^ 63 - 1"
  shows "readFrame max_slice (c_of 0x82 # c_of 127 # be_bytes 8 n) = FramePanic"
proof -
  have "readLength 127 (be_bytes 8 n) = Inr (n, [])" using readLength_64[OF assms(2), of "[]"] by simp
  with assms(1) show ?thesis by (simp add: readFrame_def)
qed

section \<open>Messages\<close>

datatype read_result = ReadMessage string | ReadEOF | ReadFailed frame_error | PongFailed write_error | ReadPanic

lemma ReadFull_le: "ReadFull n s = Some (d, s') \<Longrightarrow> length s' \<le> length s"
  by (auto simp: ReadFull_def split: if_splits)

lemma readLength_le: "readLength l s = Inr (n, s') \<Longrightarrow> length s' \<le> length s"
  by (auto simp: readLength_def split: if_splits option.splits dest: ReadFull_le)

lemma readFrame_shorter:
  assumes "readFrame max_slice s = Frame fin opcode d rest"
  shows "length rest < length s"
proof -
  obtain c0 c1 s2 where s: "s = c0 # c1 # s2" using assms by (auto simp: readFrame_def split: list.splits)
  obtain len s3 where l: "readLength (u8_of c1 AND 0x7F) s2 = Inr (len, s3)"
    using assms by (auto simp: s readFrame_def Let_def split: sum.splits)
  then have "length s3 \<le> length s2" by (rule readLength_le)
  moreover have "length rest \<le> length s3"
    using assms by (auto simp: s readFrame_def l Let_def split: if_splits option.splits dest!: ReadFull_le)
  ultimately show ?thesis by (simp add: s)
qed

lemma writeFrame_in [simp]: "ws_in (snd (writeFrame env opcode d c)) = ws_in c"
  by (simp add: writeFrame_def Let_def split: prod.splits option.splits)

text \<open>The loop of \<open>ReadText\<close>, with the payload gathered so far.\<close>

function readLoop :: "write_env \<Rightarrow> nat \<Rightarrow> string \<Rightarrow> wsConn \<Rightarrow> read_result \<times> wsConn" where
  "readLoop env max_slice payload c =
     (case readFrame max_slice (ws_in c) of
        FrameFailed e \<Rightarrow> (ReadFailed e, c)
      | FramePanic \<Rightarrow> (ReadPanic, c)
      | Frame fin opcode data rest \<Rightarrow>
          if opcode = wsOpClose then (ReadEOF, sendClose env (c\<lparr>ws_in := rest\<rparr>))
          else if opcode = wsOpPing then
            (if fst (writeFrame env wsOpPong data (c\<lparr>ws_in := rest\<rparr>)) \<noteq> None
             then (PongFailed (the (fst (writeFrame env wsOpPong data (c\<lparr>ws_in := rest\<rparr>)))),
                   snd (writeFrame env wsOpPong data (c\<lparr>ws_in := rest\<rparr>)))
             else readLoop env max_slice payload (snd (writeFrame env wsOpPong data (c\<lparr>ws_in := rest\<rparr>))))
          else if opcode = wsOpPong then readLoop env max_slice payload (c\<lparr>ws_in := rest\<rparr>)
          else if opcode = wsOpText \<or> opcode = wsOpBinary \<or> opcode = wsOpContinuation then
            (if fin then (ReadMessage (payload @ data), c\<lparr>ws_in := rest\<rparr>)
             else readLoop env max_slice (payload @ data) (c\<lparr>ws_in := rest\<rparr>))
          else readLoop env max_slice payload (c\<lparr>ws_in := rest\<rparr>))"
  by pat_completeness auto
termination
  by (relation "measure (\<lambda>(env, m, p, c). length (ws_in c))") (auto dest: readFrame_shorter)

declare readLoop.simps [simp del]

definition ReadText :: "write_env \<Rightarrow> nat \<Rightarrow> wsConn \<Rightarrow> read_result \<times> wsConn" where
  "ReadText env max_slice c = readLoop env max_slice [] c"

text \<open>What a server may send before the last fragment of a message.\<close>

datatype server_item = Fragment u8 string | Ping string | Pong string

fun item_frame :: "server_item \<Rightarrow> string" where
  "item_frame (Fragment opcode d) = ws_encode False opcode None d"
| "item_frame (Ping d) = ws_encode True wsOpPing None d"
| "item_frame (Pong d) = ws_encode True wsOpPong None d"

fun item_data :: "server_item \<Rightarrow> string" where
  "item_data (Fragment opcode d) = d"
| "item_data i = []"

fun pings :: "server_item list \<Rightarrow> string list" where
  "pings [] = []"
| "pings (Ping d # is) = d # pings is"
| "pings (i # is) = pings is"

definition data_op :: "u8 \<Rightarrow> bool" where
  "data_op opcode \<longleftrightarrow> opcode = wsOpText \<or> opcode = wsOpBinary \<or> opcode = wsOpContinuation"

fun item_ok :: "nat \<Rightarrow> server_item \<Rightarrow> bool" where
  "item_ok m (Fragment opcode d) \<longleftrightarrow> data_op opcode \<and> length d \<le> m"
| "item_ok m (Ping d) \<longleftrightarrow> length d \<le> m"
| "item_ok m (Pong d) \<longleftrightarrow> length d \<le> m"

text \<open>The pongs with the keys of \<open>env\<close>, from the \<open>n\<close>-th write on.\<close>

fun pong_bytes :: "write_env \<Rightarrow> nat \<Rightarrow> string list \<Rightarrow> string" where
  "pong_bytes env n [] = []"
| "pong_bytes env n (d # ds) = frame_bytes wsOpPong d (the (fst (env n))) @ pong_bytes env (Suc n) ds"

lemma data_op_facts:
  assumes "data_op opcode"
  shows "small_op opcode" "opcode \<noteq> wsOpClose" "opcode \<noteq> wsOpPing" "opcode \<noteq> wsOpPong"
  using assms by (auto simp: data_op_def) (simp_all add: ws_ops)

lemma read_unmasked:
  assumes "small_op opcode" and "length d \<le> m" and "m \<le> 2 ^ 63 - 1"
  shows "readFrame m (ws_encode fin opcode None d @ rest) = Frame fin opcode d rest"
  using assms read_encode[of opcode d m None fin rest] by simp

lemma writeFrame_ok:
  assumes "env (ws_writes c) = (Some key, None)"
  shows "writeFrame env opcode d c =
    (None, c\<lparr>ws_out := ws_out c @ frame_bytes opcode d key, ws_writes := Suc (ws_writes c)\<rparr>)"
  using assms by (simp add: writeFrame_def)

lemma readLoop_items:
  assumes "\<forall>i \<in> set is. item_ok m i" and "m \<le> 2 ^ 63 - 1" and "\<forall>n. \<exists>key. env n = (Some key, None)"
    and "ws_in c = concat (map item_frame is) @ rest"
  shows "readLoop env m payload c = readLoop env m (payload @ concat (map item_data is))
    (c\<lparr>ws_in := rest, ws_out := ws_out c @ pong_bytes env (ws_writes c) (pings is), ws_writes := ws_writes c + length (pings is)\<rparr>)"
  using assms(1,4)
proof (induction "is" arbitrary: payload c)
  case Nil
  then have "c = c\<lparr>ws_in := rest\<rparr>" by simp
  then show ?case by simp
next
  case (Cons i "is")
  let ?rest = "concat (map item_frame is) @ rest"
  have ok: "\<forall>i \<in> set is. item_ok m i" using Cons.prems by simp
  show ?case
  proof (cases i)
    case (Fragment opcode d)
    then have op: "data_op opcode" and fr: "readFrame m (ws_in c) = Frame False opcode d ?rest"
      using Cons.prems assms(2) data_op_facts(1) by (simp_all add: read_unmasked)
    have "readLoop env m payload c = readLoop env m (payload @ d) (c\<lparr>ws_in := ?rest\<rparr>)"
      using fr op data_op_facts[OF op] by (simp add: readLoop.simps[of env m payload c] data_op_def)
    then show ?thesis using Fragment Cons.IH[OF ok, of "c\<lparr>ws_in := ?rest\<rparr>"] by simp
  next
    case (Ping d)
    then have fr: "readFrame m (ws_in c) = Frame True wsOpPing d ?rest"
      using Cons.prems assms(2) by (simp add: read_unmasked)
    obtain key where key: "env (ws_writes c) = (Some key, None)" using assms(3) by blast
    have w: "writeFrame env wsOpPong d (c\<lparr>ws_in := ?rest\<rparr>) =
        (None, c\<lparr>ws_in := ?rest, ws_out := ws_out c @ frame_bytes wsOpPong d key, ws_writes := Suc (ws_writes c)\<rparr>)"
      using key by (simp add: writeFrame_ok)
    have ne: "wsOpPing \<noteq> wsOpClose" by (simp add: ws_ops)
    have "readLoop env m payload c = readLoop env m payload
        (c\<lparr>ws_in := ?rest, ws_out := ws_out c @ frame_bytes wsOpPong d key, ws_writes := Suc (ws_writes c)\<rparr>)"
      using fr w ne by (simp add: readLoop.simps[of env m payload c])
    then show ?thesis
      using Ping key Cons.IH[OF ok, of "c\<lparr>ws_in := ?rest, ws_out := ws_out c @ frame_bytes wsOpPong d key, ws_writes := Suc (ws_writes c)\<rparr>"]
      by simp
  next
    case (Pong d)
    then have fr: "readFrame m (ws_in c) = Frame True wsOpPong d ?rest"
      using Cons.prems assms(2) by (simp add: read_unmasked)
    have "wsOpPong \<noteq> wsOpClose" "wsOpPong \<noteq> wsOpPing" by (simp_all add: ws_ops)
    then have "readLoop env m payload c = readLoop env m payload (c\<lparr>ws_in := ?rest\<rparr>)"
      using fr by (simp add: readLoop.simps[of env m payload c])
    then show ?thesis using Pong Cons.IH[OF ok, of "c\<lparr>ws_in := ?rest\<rparr>"] by simp
  qed
qed

lemma ReadText_message:
  assumes "\<forall>i \<in> set is. item_ok m i" and "m \<le> 2 ^ 63 - 1" and "\<forall>n. \<exists>key. env n = (Some key, None)"
    and "data_op opcode" and "length d \<le> m"
    and "ws_in c = concat (map item_frame is) @ ws_encode True opcode None d @ rest"
  shows "ReadText env m c = (ReadMessage (concat (map item_data is) @ d),
    c\<lparr>ws_in := rest, ws_out := ws_out c @ pong_bytes env (ws_writes c) (pings is), ws_writes := ws_writes c + length (pings is)\<rparr>)"
proof -
  let ?c = "c\<lparr>ws_in := ws_encode True opcode None d @ rest, ws_out := ws_out c @ pong_bytes env (ws_writes c) (pings is),
    ws_writes := ws_writes c + length (pings is)\<rparr>"
  have fr: "readFrame m (ws_encode True opcode None d @ rest) = Frame True opcode d rest"
    using assms(2,4,5) data_op_facts(1) by (simp add: read_unmasked)
  have "readLoop env m (concat (map item_data is)) ?c = (ReadMessage (concat (map item_data is) @ d), ?c\<lparr>ws_in := rest\<rparr>)"
    using fr assms(4) data_op_facts[OF assms(4)] by (simp add: readLoop.simps[of env m _ ?c] data_op_def)
  with readLoop_items[OF assms(1-3,6), of "[]"] show ?thesis by (simp add: ReadText_def)
qed

text \<open>
  C21: A message is put together from its fragments in order, whatever pings and pongs come between
  them: \<open>ReadText\<close> returns the concatenated data up to the end of the final fragment and leaves what
  follows unread, and every ping has been answered with its own data, in order, each answer under the
  next mask key; nothing else is written.
\<close>

theorem message_reassembled:
  assumes "\<forall>i \<in> set is. item_ok m i" and "m \<le> 2 ^ 63 - 1" and "\<forall>n. \<exists>key. env n = (Some key, None)"
    and "data_op opcode" and "length d \<le> m"
    and "ws_in c = concat (map item_frame is) @ ws_encode True opcode None d @ rest"
  shows "ReadText env m c = (ReadMessage (concat (map item_data is) @ d),
    c\<lparr>ws_in := rest, ws_out := ws_out c @ pong_bytes env (ws_writes c) (pings is), ws_writes := ws_writes c + length (pings is)\<rparr>)"
  by (rule ReadText_message[OF assms])

lemma message_reassembled_witness:
  "fst (ReadText (\<lambda>n. (Some ''kkkk'', None)) 100
     \<lparr>ws_in = ws_encode False wsOpText None ''ab'' @ ws_encode True wsOpPing None ''p'' @ ws_encode True wsOpContinuation None ''c'',
      ws_out = [], ws_writes = 0\<rparr>) = ReadMessage ''abc''"
  using message_reassembled[of "[Fragment wsOpText ''ab'', Ping ''p'']" 100 "\<lambda>n. (Some ''kkkk'', None)" wsOpContinuation "''c''"
      "\<lparr>ws_in = ws_encode False wsOpText None ''ab'' @ ws_encode True wsOpPing None ''p'' @ ws_encode True wsOpContinuation None ''c'',
      ws_out = [], ws_writes = 0\<rparr>" "[]"]
  by (simp add: data_op_def)

text \<open>A close frame ends the stream, and is answered by an empty one.\<close>

lemma close_frame_ends:
  assumes "length d \<le> m" and "m \<le> 2 ^ 63 - 1" and "ws_in c = ws_encode True wsOpClose None d @ rest"
  shows "readLoop env m payload c = (ReadEOF, sendClose env (c\<lparr>ws_in := rest\<rparr>))"
  using assms by (simp add: readLoop.simps[of env m payload c] read_unmasked)

section \<open>The opening handshake\<close>

definition wsGUID :: string where "wsGUID = ''258EAFA5-E914-47DA-95CA-C5AB0DC85B11''"

record ws_url =
  url_Scheme :: string
  url_Host :: string
  url_Hostname :: string
  url_RequestURI :: string

text \<open>The random bytes are \<open>None\<close> when the source fails; the key and the answer it must get.\<close>

definition generateWSKey :: "(string \<Rightarrow> string) \<Rightarrow> string option \<Rightarrow> (string \<times> string) option" where
  "generateWSKey sha1 random =
     (case random of None \<Rightarrow> None | Some b \<Rightarrow> (let key = std_base64 b in Some (key, std_base64 (sha1 (key @ wsGUID)))))"

definition crlf :: string where "crlf = [CHR 0x0D, CHR 0x0A]"

definition upgradeReq :: "ws_url \<Rightarrow> string \<Rightarrow> string" where
  "upgradeReq u wsKey =
     ''GET '' @ url_RequestURI u @ '' HTTP/1.1'' @ crlf @ ''Host: '' @ url_Hostname u @ crlf
     @ ''Upgrade: websocket'' @ crlf @ ''Connection: Upgrade'' @ crlf
     @ ''Sec-WebSocket-Key: '' @ wsKey @ crlf @ ''Sec-WebSocket-Version: 13'' @ crlf @ crlf"

datatype dial_error =
    BadURL | NotWSS string | TLSDialFailed string | KeyFailed | RequestFailed | ResponseFailed
  | UpgradeFailed int | AcceptMismatch string string

definition ws_address :: "ws_url \<Rightarrow> string" where
  "ws_address u = (if CHR '':'' \<in> set (url_Host u) then url_Host u else url_Host u @ '':443'')"

text \<open>
  The parameters: the URL parser, the TLS dial (an error, or a connection), whether the request can be
  sent, and the server: the status, the accept header and the bytes after the response.
\<close>

definition dialWS ::
    "(string \<Rightarrow> ws_url option) \<Rightarrow> (string \<Rightarrow> string option) \<Rightarrow> (string \<Rightarrow> string) \<Rightarrow> string option \<Rightarrow> bool
     \<Rightarrow> (string \<Rightarrow> (int \<times> string \<times> string) option) \<Rightarrow> string \<Rightarrow> dial_error + wsConn" where
  "dialWS parse_url dial sha1 random write_ok server rawURL =
     (case parse_url rawURL of
        None \<Rightarrow> Inl BadURL
      | Some u \<Rightarrow>
          if url_Scheme u \<noteq> ''wss'' then Inl (NotWSS (url_Scheme u))
          else case dial (ws_address u) of
            Some e \<Rightarrow> Inl (TLSDialFailed e)
          | None \<Rightarrow>
              (case generateWSKey sha1 random of
                 None \<Rightarrow> Inl KeyFailed
               | Some (wsKey, wsAccept) \<Rightarrow>
                   if \<not> write_ok then Inl RequestFailed
                   else case server (upgradeReq u wsKey) of
                     None \<Rightarrow> Inl ResponseFailed
                   | Some (status, accept_header, rest) \<Rightarrow>
                       if status \<noteq> 101 then Inl (UpgradeFailed status)
                       else if accept_header \<noteq> wsAccept then Inl (AcceptMismatch accept_header wsAccept)
                       else Inr \<lparr>ws_in = rest, ws_out = [], ws_writes = 0\<rparr>))"

text \<open>A connection is only made over TLS, to a server that answered this very key.\<close>

lemma dialWS_checked:
  assumes "dialWS parse_url dial sha1 random write_ok server rawURL = Inr c"
  shows "\<exists>u b. parse_url rawURL = Some u \<and> url_Scheme u = ''wss'' \<and> random = Some b \<and>
    server (upgradeReq u (std_base64 b)) = Some (101, std_base64 (sha1 (std_base64 b @ wsGUID)), ws_in c)"
  using assms by (auto simp: dialWS_def generateWSKey_def Let_def split: option.splits if_splits prod.splits)

end
