(* ===== verification/Discord.thy ===== *)
theory Discord
  imports Chat_Gateway Websocket
begin

unbundle bit_operations_syntax

text \<open>
  The Discord gateway, \<open>gateway/discord\<close>, above the WebSocket: the REST client, the command router, the
  adapter to the module registry, the gateway session with its payloads, the reconnecting loop and
  the bot. JSON decoders are parameters (those of \<open>Chat_Wire\<close>); a connection is that of \<open>Websocket\<close>.
\<close>

section \<open>Types\<close>

definition OpcodeDispatch :: int where "OpcodeDispatch = 0"
definition OpcodeHeartbeat :: int where "OpcodeHeartbeat = 1"
definition OpcodeIdentify :: int where "OpcodeIdentify = 2"
definition OpcodeReconnect :: int where "OpcodeReconnect = 7"
definition OpcodeInvalidSession :: int where "OpcodeInvalidSession = 9"
definition OpcodeHello :: int where "OpcodeHello = 10"
definition OpcodeHeartbeatACK :: int where "OpcodeHeartbeatACK = 11"

lemmas opcodes = OpcodeDispatch_def OpcodeHeartbeat_def OpcodeIdentify_def OpcodeReconnect_def
  OpcodeInvalidSession_def OpcodeHello_def OpcodeHeartbeatACK_def

definition DefaultIntents :: int where
  "DefaultIntents = push_bit 0 1 OR push_bit 9 1 OR push_bit 12 1 OR push_bit 15 1"

record dc_User =
  dc_UserID :: string
  dc_Username :: string
  dc_Discriminator :: string
  dc_GlobalName :: string
  dc_Bot :: bool

record dc_Message =
  dc_MessageID :: string
  dc_ChannelID :: string
  dc_Author :: "dc_User option"
  dc_Content :: string
  dc_Timestamp :: string

record GatewayPayload =
  gp_Op :: int
  gp_Data :: string
  gp_Seq :: "int option"
  gp_Type :: string

record dc_APIError =
  dc_Code :: int
  dc_ErrMessage :: string

definition dc_error_text :: "dc_APIError \<Rightarrow> string" where
  "dc_error_text e = ''discord: API error '' @ show_int (dc_Code e) @ '': '' @ dc_ErrMessage e"

datatype dc_error =
    DcBuildFailed string
  | DcTransport string string
  | DcAPIError int string
  | DcStatus string int
  | DcDecodeFailed string
  | DcEmptyToken
  | DcTokenInvalid dc_error

section \<open>The REST client\<close>

definition discordAPIBase :: string where "discordAPIBase = ''https://discord.com/api/v10''"

record dc_Client =
  dc_token :: string
  dc_baseURL :: string

definition dc_NewClient :: "string \<Rightarrow> dc_Client" where
  "dc_NewClient token = \<lparr>dc_token = token, dc_baseURL = discordAPIBase\<rparr>"

definition dc_do ::
    "(string \<Rightarrow> dc_APIError option) \<Rightarrow> (string \<Rightarrow> 'r option) \<Rightarrow> http_env \<Rightarrow> dc_Client \<Rightarrow> http_request \<Rightarrow> string
     \<Rightarrow> 'w chat_state \<Rightarrow> (dc_error + 'r) \<times> 'w chat_state" where
  "dc_do decode_err decode env c req path st =
     (let req' = req\<lparr>req_Header := req_Header req @ [(''Authorization'', ''Bot '' @ dc_token c),
            (''User-Agent'', ''AetherCore (https://github.com/fzihak/aethercore, v0.1.0)'')]\<rparr>;
          (answer, st') = http_Do env req' st
      in (case answer of
            Inl e \<Rightarrow> Inl (DcTransport path e)
          | Inr (status, raw) \<Rightarrow>
              if status \<ge> 400 then
                (case decode_err raw of
                   Some e \<Rightarrow> if dc_ErrMessage e \<noteq> [] then Inl (DcAPIError (dc_Code e) (dc_ErrMessage e)) else Inl (DcStatus path status)
                 | None \<Rightarrow> Inl (DcStatus path status))
              else (case decode raw of None \<Rightarrow> Inl (DcDecodeFailed path) | Some r \<Rightarrow> Inr r),
          st'))"

definition dc_get ::
    "(string \<Rightarrow> bool) \<Rightarrow> (string \<Rightarrow> dc_APIError option) \<Rightarrow> (string \<Rightarrow> 'r option) \<Rightarrow> http_env \<Rightarrow> dc_Client \<Rightarrow> string
     \<Rightarrow> 'w chat_state \<Rightarrow> (dc_error + 'r) \<times> 'w chat_state" where
  "dc_get url_ok decode_err decode env c path st =
     (if \<not> url_ok (dc_baseURL c @ path) then (Inl (DcBuildFailed path), st)
      else dc_do decode_err decode env c
        \<lparr>req_Method = ''GET'', req_URL = dc_baseURL c @ path, req_Header = [], req_Body = []\<rparr> path st)"

definition dc_post ::
    "(string \<Rightarrow> bool) \<Rightarrow> (string \<Rightarrow> dc_APIError option) \<Rightarrow> (string \<Rightarrow> 'r option) \<Rightarrow> http_env \<Rightarrow> dc_Client \<Rightarrow> string \<Rightarrow> json
     \<Rightarrow> 'w chat_state \<Rightarrow> (dc_error + 'r) \<times> 'w chat_state" where
  "dc_post url_ok decode_err decode env c path body st =
     (if \<not> url_ok (dc_baseURL c @ path) then (Inl (DcBuildFailed path), st)
      else dc_do decode_err decode env c
        \<lparr>req_Method = ''POST'', req_URL = dc_baseURL c @ path, req_Header = [(''Content-Type'', ''application/json'')],
         req_Body = json_write body\<rparr> path st)"

definition GetGatewayURL ::
    "(string \<Rightarrow> bool) \<Rightarrow> (string \<Rightarrow> dc_APIError option) \<Rightarrow> (string \<Rightarrow> string option) \<Rightarrow> http_env \<Rightarrow> dc_Client
     \<Rightarrow> 'w chat_state \<Rightarrow> (dc_error + string) \<times> 'w chat_state" where
  "GetGatewayURL url_ok decode_err decode env c = dc_get url_ok decode_err decode env c ''/gateway/bot''"

definition dc_SendMessage ::
    "(string \<Rightarrow> bool) \<Rightarrow> (string \<Rightarrow> dc_APIError option) \<Rightarrow> (string \<Rightarrow> dc_Message option) \<Rightarrow> http_env \<Rightarrow> dc_Client
     \<Rightarrow> string \<Rightarrow> string \<Rightarrow> 'w chat_state \<Rightarrow> (dc_error + dc_Message) \<times> 'w chat_state" where
  "dc_SendMessage url_ok decode_err decode env c channelID t =
     dc_post url_ok decode_err decode env c (''/channels/'' @ channelID @ ''/messages'') (JObj [(''content'', JStr t)])"

section \<open>Routing commands\<close>

record 'h dc_Router =
  dc_prefix :: string
  dc_commands :: "string \<rightharpoonup> 'h"
  dc_fallback :: "'h option"

definition dc_NewRouter :: "string \<Rightarrow> 'h dc_Router" where
  "dc_NewRouter pre = \<lparr>dc_prefix = pre, dc_commands = Map.empty, dc_fallback = None\<rparr>"

definition dc_RegisterCommand :: "(nat \<Rightarrow> nat) \<Rightarrow> string \<Rightarrow> 'h \<Rightarrow> 'h dc_Router \<Rightarrow> 'h dc_Router" where
  "dc_RegisterCommand ul command h r = r\<lparr>dc_commands := (dc_commands r)(ToLower ul command \<mapsto> h)\<rparr>"

definition dc_SetFallback :: "'h \<Rightarrow> 'h dc_Router \<Rightarrow> 'h dc_Router" where
  "dc_SetFallback h r = r\<lparr>dc_fallback := Some h\<rparr>"

definition dc_parseCommand :: "(nat \<Rightarrow> nat) \<Rightarrow> string \<Rightarrow> string \<Rightarrow> string \<times> string" where
  "dc_parseCommand ul pre t =
     (if \<not> HasPrefix t pre then ([], t)
      else (let (name, args) = split_space (TrimPrefix t pre) in (ToLower ul name, args)))"

definition dc_Handle :: "(nat \<Rightarrow> nat) \<Rightarrow> 'h dc_Router \<Rightarrow> dc_Message option \<Rightarrow> ('h \<times> string \<times> string) option" where
  "dc_Handle ul r m =
     (case m of
        None \<Rightarrow> None
      | Some msg \<Rightarrow>
          if TrimSpace (dc_Content msg) = [] then None
          else
            (case route (dc_parseCommand ul (dc_prefix r)) (dc_commands r) (dc_fallback r) (TrimSpace (dc_Content msg)) of
               None \<Rightarrow> None
             | Some (h, args) \<Rightarrow> Some (h, dc_ChannelID msg, args)))"

interpretation dc_cmds: command_parser "dc_parseCommand ul pre" pre for ul pre
proof
  show "\<not> HasPrefix t pre \<Longrightarrow> fst (dc_parseCommand ul pre t) = []" for t
    by (simp add: dc_parseCommand_def)
  show "command_word c \<Longrightarrow> dc_parseCommand ul pre (pre @ c) = (map lower_ascii c, [])" for c
    by (simp add: dc_parseCommand_def TrimPrefix_def command_word_def split_space_word ToLower_ascii)
  show "command_word c \<Longrightarrow> dc_parseCommand ul pre (pre @ c @ CHR '' '' # a) = (map lower_ascii c, TrimSpace a)" for c a
    by (simp add: dc_parseCommand_def TrimPrefix_def command_word_def split_space_args ToLower_ascii)
qed

section \<open>The adapter\<close>

definition dc_reply ::
    "(string \<Rightarrow> bool) \<Rightarrow> (string \<Rightarrow> dc_APIError option) \<Rightarrow> (string \<Rightarrow> dc_Message option) \<Rightarrow> http_env \<Rightarrow> dc_Client
     \<Rightarrow> string \<Rightarrow> string \<Rightarrow> 'w chat_state \<Rightarrow> 'w chat_state" where
  "dc_reply url_ok decode_err decode env c channelID t st =
     snd (dc_SendMessage url_ok decode_err decode env c channelID t st)"

definition dc_good :: "string \<Rightarrow> string \<Rightarrow> string" where
  "dc_good name out = ''**'' @ name @ ''**'' @ nl @ out @ nl @ nl"

definition dc_bad :: "string \<Rightarrow> string \<Rightarrow> string" where
  "dc_bad name err = ''**'' @ name @ ''** '' @ cross_mark @ '' error: '' @ err @ nl @ nl"

definition dc_task :: "string \<Rightarrow> instant \<Rightarrow> string \<Rightarrow> ModuleTask" where
  "dc_task channelID now goal =
     \<lparr>task_ID = ''dc-'' @ channelID @ ''-'' @ show_int (UnixNano now), task_Input = goal,
      task_Metadata = [''source'' \<mapsto> ''discord'', ''channel_id'' \<mapsto> channelID]\<rparr>"

definition dc_HandleRun ::
    "(string \<Rightarrow> string \<Rightarrow> 'w chat_state \<Rightarrow> 'w chat_state) \<Rightarrow> 'w ModuleRegistry \<Rightarrow> string list \<Rightarrow> instant
     \<Rightarrow> string \<Rightarrow> string \<Rightarrow> 'w chat_state \<Rightarrow> 'w chat_state" where
  "dc_HandleRun reply r ord now channelID goal st =
     (if TrimSpace goal = [] then reply channelID ''Usage: `!run <your goal>`'' st
      else
        (let task = dc_task channelID now goal; manifests = Manifests r ord in
         if length manifests = 0 then reply channelID (warning_sign @ '' No modules are currently loaded.'') st
         else
           (let (sb, w) = askModules dc_good dc_bad r task manifests (chat_world st)
            in reply channelID (TrimSpace sb) (st\<lparr>chat_world := w\<rparr>))))"

definition dc_module_line :: "ModuleManifest \<Rightarrow> string" where
  "dc_module_line mf = bullet @ '' **'' @ mod_Name mf @ ''** v'' @ mod_Version mf @ '' '' @ em_dash @ '' '' @ mod_Description mf @ nl"

definition dc_help_text :: "ModuleManifest list \<Rightarrow> string" where
  "dc_help_text manifests =
     ''**AetherCore** '' @ em_dash @ '' Minimal Agent Kernel'' @ nl @ nl @ ''**Commands:**'' @ nl
     @ ''`!run <goal>` '' @ em_dash @ '' dispatch a task to all loaded modules'' @ nl
     @ ''`!modules` '' @ em_dash @ '' list loaded modules'' @ nl
     @ ''`!help` '' @ em_dash @ '' show this message'' @ nl
     @ (if manifests = [] then [] else nl @ ''**Loaded modules:**'' @ nl @ concat (map dc_module_line manifests))"

definition dc_HandleHelp ::
    "(string \<Rightarrow> string \<Rightarrow> 'w chat_state \<Rightarrow> 'w chat_state) \<Rightarrow> 'w ModuleRegistry \<Rightarrow> string list
     \<Rightarrow> string \<Rightarrow> string \<Rightarrow> 'w chat_state \<Rightarrow> 'w chat_state" where
  "dc_HandleHelp reply r ord channelID args st = reply channelID (dc_help_text (Manifests r ord)) st"

definition dc_HandleModules ::
    "(string \<Rightarrow> string \<Rightarrow> 'w chat_state \<Rightarrow> 'w chat_state) \<Rightarrow> 'w ModuleRegistry \<Rightarrow> string list
     \<Rightarrow> string \<Rightarrow> string \<Rightarrow> 'w chat_state \<Rightarrow> 'w chat_state" where
  "dc_HandleModules reply r ord channelID args st =
     (let manifests = Manifests r ord in
      if length manifests = 0 then reply channelID ''No modules are currently loaded.'' st
      else reply channelID (''**Loaded modules:**'' @ nl @ concat (map dc_module_line manifests)) st)"

section \<open>The gateway session\<close>

record Gateway =
  gw_token :: string
  gw_intents :: int
  gw_handler :: bool

definition NewGateway :: "string \<Rightarrow> int \<Rightarrow> bool \<Rightarrow> Gateway" where
  "NewGateway token intents handler = \<lparr>gw_token = token, gw_intents = intents, gw_handler = handler\<rparr>"

datatype payload_error = ReconnectRequested | InvalidSession | BadReady | BadMessageCreate

text \<open>A dispatch event: an error, and the message for which the handler is started, if any.\<close>

definition handleDispatch ::
    "(string \<Rightarrow> dc_Message option) \<Rightarrow> (string \<Rightarrow> bool) \<Rightarrow> Gateway \<Rightarrow> GatewayPayload \<Rightarrow> payload_error option \<times> dc_Message list" where
  "handleDispatch decode_msg ready_ok g p =
     (if gp_Type p = ''READY'' then (if ready_ok (gp_Data p) then (None, []) else (Some BadReady, []))
      else if gp_Type p = ''MESSAGE_CREATE'' then
        (case decode_msg (gp_Data p) of
           None \<Rightarrow> (Some BadMessageCreate, [])
         | Some msg \<Rightarrow>
             (case dc_Author msg of
                Some a \<Rightarrow> if dc_Bot a then (None, []) else if gw_handler g then (None, [msg]) else (None, [])
              | None \<Rightarrow> if gw_handler g then (None, [msg]) else (None, [])))
      else (None, []))"

definition handlePayload ::
    "(string \<Rightarrow> dc_Message option) \<Rightarrow> (string \<Rightarrow> bool) \<Rightarrow> Gateway \<Rightarrow> GatewayPayload \<Rightarrow> payload_error option \<times> dc_Message list" where
  "handlePayload decode_msg ready_ok g p =
     (if gp_Op p = OpcodeDispatch then handleDispatch decode_msg ready_ok g p
      else if gp_Op p = OpcodeHeartbeatACK then (None, [])
      else if gp_Op p = OpcodeReconnect then (Some ReconnectRequested, [])
      else if gp_Op p = OpcodeInvalidSession then (Some InvalidSession, [])
      else (None, []))"

datatype gw_error =
    GwDial dial_error
  | GwHelloRecv read_result
  | GwHelloEnvelope
  | GwNotHello int
  | GwHelloData
  | GwIdentify write_error
  | GwRecv read_result
  | GwCancelled

datatype session_end = SessionClean | SessionFailed gw_error | SessionCrashed

lemma readLoop_shorter: "fst (readLoop env m payload c) = ReadMessage t \<Longrightarrow> length (ws_in (snd (readLoop env m payload c))) < length (ws_in c)"
proof (induction env m payload c rule: readLoop.induct)
  case (1 env m payload c)
  show ?case
  proof (cases "readFrame m (ws_in c)")
    case (Frame fin opcode data rest)
    note sh = readFrame_shorter[OF Frame]
    let ?c = "c\<lparr>ws_in := rest\<rparr>"
    let ?w = "writeFrame env wsOpPong data ?c"
    have step: "length (ws_in (snd (readLoop env m payload c))) < length (ws_in c)"
      if "readLoop env m payload c = readLoop env m p' c'" "ws_in c' = rest"
        "fst (readLoop env m p' c') = ReadMessage t \<Longrightarrow> length (ws_in (snd (readLoop env m p' c'))) < length (ws_in c')" for p' c'
      using that "1.prems" sh by simp
    consider "opcode = wsOpClose" | "opcode \<noteq> wsOpClose" "opcode = wsOpPing" "fst ?w \<noteq> None"
      | "opcode \<noteq> wsOpClose" "opcode = wsOpPing" "fst ?w = None"
      | "opcode \<noteq> wsOpClose" "opcode \<noteq> wsOpPing" "opcode = wsOpPong"
      | "opcode \<noteq> wsOpClose" "opcode \<noteq> wsOpPing" "opcode \<noteq> wsOpPong" "data_op opcode" "fin"
      | "opcode \<noteq> wsOpClose" "opcode \<noteq> wsOpPing" "opcode \<noteq> wsOpPong" "data_op opcode" "\<not> fin"
      | "opcode \<noteq> wsOpClose" "opcode \<noteq> wsOpPing" "opcode \<noteq> wsOpPong" "\<not> data_op opcode" by blast
    then show ?thesis
    proof cases
      case 3
      show ?thesis
        by (rule step[of payload "snd ?w"]) (use 3 Frame "1.IH"(1)[OF Frame 3(1,2)] in \<open>simp_all add: readLoop.simps[of env m payload c]\<close>)
    next
      case 4
      show ?thesis
        by (rule step[of payload ?c]) (use 4 Frame "1.IH"(2)[OF Frame 4] in \<open>simp_all add: readLoop.simps[of env m payload c]\<close>)
    next
      case 6
      show ?thesis
        by (rule step[of "payload @ data" ?c])
          (use 6 Frame "1.IH"(3)[OF Frame 6(1-3)] in \<open>simp_all add: readLoop.simps[of env m payload c] data_op_def\<close>)
    next
      case 7
      show ?thesis
        by (rule step[of payload ?c])
          (use 7 Frame "1.IH"(4)[OF Frame 7(1-3)] in \<open>simp_all add: readLoop.simps[of env m payload c] data_op_def\<close>)
    qed (use "1.prems" sh Frame in \<open>simp_all add: readLoop.simps[of env m payload c] data_op_def sendClose_def\<close>)
  qed (use "1.prems" in \<open>simp_all add: readLoop.simps[of env m payload c]\<close>)
qed

lemma readLoop_message_shorter: "(ReadMessage t, c') = readLoop env m payload c \<Longrightarrow> length (ws_in c') < length (ws_in c)"
  using readLoop_shorter[of env m payload c t] by (metis fst_conv snd_conv)

text \<open>
  The receive loop: how the session ends, the connection, and the messages for which a handler was
  started. \<open>cancelled k\<close> tells whether the context is done at the \<open>k\<close>-th look, at the head of an
  iteration and after a failed read. A payload that does not decode, or whose handling fails, is
  logged and skipped.
\<close>

function receiveLoop ::
    "write_env \<Rightarrow> nat \<Rightarrow> (string \<Rightarrow> GatewayPayload option) \<Rightarrow> (string \<Rightarrow> dc_Message option) \<Rightarrow> (string \<Rightarrow> bool) \<Rightarrow> (nat \<Rightarrow> bool)
     \<Rightarrow> Gateway \<Rightarrow> nat \<Rightarrow> wsConn \<Rightarrow> session_end \<times> wsConn \<times> dc_Message list" where
  "receiveLoop env m decode decode_msg ready_ok cancelled g k c =
     (if cancelled k then (SessionClean, c, [])
      else
        (case ReadText env m c of
           (ReadMessage t, c') \<Rightarrow>
             (let new = (case decode t of None \<Rightarrow> [] | Some p \<Rightarrow> snd (handlePayload decode_msg ready_ok g p));
                  (e, c'', started) = receiveLoop env m decode decode_msg ready_ok cancelled g (Suc k) c'
              in (e, c'', new @ started))
         | (ReadPanic, c') \<Rightarrow> (SessionCrashed, c', [])
         | (r, c') \<Rightarrow> (SessionFailed (if cancelled (Suc k) then GwCancelled else GwRecv r), c', [])))"
  by pat_completeness auto
termination
  by (relation "measure (\<lambda>(env, m, d, dm, r, ca, g, k, c). length (ws_in c))")
     (auto simp: ReadText_def dest!: readLoop_message_shorter)

declare receiveLoop.simps [simp del]

section \<open>What a session dispatches\<close>

text \<open>A message on the wire: what comes before its last fragment, and that fragment.\<close>

type_synonym wire_message = "server_item list \<times> u8 \<times> string"

fun wire_bytes :: "wire_message \<Rightarrow> string" where
  "wire_bytes (is, opcode, d) = concat (map item_frame is) @ ws_encode True opcode None d"

fun wire_text :: "wire_message \<Rightarrow> string" where
  "wire_text (is, opcode, d) = concat (map item_data is) @ d"

fun wire_pings :: "wire_message \<Rightarrow> string list" where
  "wire_pings (is, opcode, d) = pings is"

fun wire_ok :: "nat \<Rightarrow> wire_message \<Rightarrow> bool" where
  "wire_ok m (is, opcode, d) \<longleftrightarrow> (\<forall>i \<in> set is. item_ok m i) \<and> data_op opcode \<and> length d \<le> m"

text \<open>The specification: the new messages, other than those of bots.\<close>

definition by_human :: "dc_Message \<Rightarrow> bool" where
  "by_human msg \<longleftrightarrow> (case dc_Author msg of None \<Rightarrow> True | Some a \<Rightarrow> \<not> dc_Bot a)"

definition new_message :: "(string \<Rightarrow> GatewayPayload option) \<Rightarrow> (string \<Rightarrow> dc_Message option) \<Rightarrow> string \<Rightarrow> dc_Message option" where
  "new_message decode decode_msg t =
     (case decode t of
        None \<Rightarrow> None
      | Some p \<Rightarrow> if gp_Op p = OpcodeDispatch \<and> gp_Type p = ''MESSAGE_CREATE'' then decode_msg (gp_Data p) else None)"

definition human_messages :: "(string \<Rightarrow> GatewayPayload option) \<Rightarrow> (string \<Rightarrow> dc_Message option) \<Rightarrow> string list \<Rightarrow> dc_Message list" where
  "human_messages decode decode_msg ts = filter by_human (List.map_filter (new_message decode decode_msg) ts)"

lemma human_messages_simps [simp]:
  "human_messages decode decode_msg [] = []"
  "human_messages decode decode_msg (t # ts) =
     (case new_message decode decode_msg t of None \<Rightarrow> [] | Some msg \<Rightarrow> if by_human msg then [msg] else []) @
     human_messages decode decode_msg ts"
  by (simp_all add: human_messages_def List.map_filter_simps split: option.splits)

lemma handlePayload_new_message:
  assumes "gw_handler g"
  shows "(case decode t of None \<Rightarrow> [] | Some p \<Rightarrow> snd (handlePayload decode_msg ready_ok g p)) =
    (case new_message decode decode_msg t of None \<Rightarrow> [] | Some msg \<Rightarrow> if by_human msg then [msg] else [])"
proof (cases "decode t")
  case (Some p)
  have "OpcodeDispatch \<noteq> OpcodeHeartbeatACK" by (simp add: OpcodeDispatch_def OpcodeHeartbeatACK_def)
  with Some assms show ?thesis
    by (simp add: new_message_def handlePayload_def handleDispatch_def by_human_def split: option.splits)
qed (simp add: new_message_def)

lemma receiveLoop_message:
  assumes "\<not> cancelled k" and "ReadText env m c = (ReadMessage t, c')"
  shows "receiveLoop env m decode decode_msg ready_ok cancelled g k c =
    (let (e, c'', started) = receiveLoop env m decode decode_msg ready_ok cancelled g (Suc k) c'
     in (e, c'', (case decode t of None \<Rightarrow> [] | Some p \<Rightarrow> snd (handlePayload decode_msg ready_ok g p)) @ started))"
  using assms by (simp add: receiveLoop.simps[of env m decode decode_msg ready_ok cancelled g k c] Let_def)

lemma ReadText_at_end: "ws_in c = [] \<Longrightarrow> ReadText env m c = (ReadFailed ReadHeader0, c)"
  by (simp add: ReadText_def readLoop.simps[of env m _ c] readFrame_def)

text \<open>What the loop writes: the pongs to the pings of the stream.\<close>

definition after_stream :: "write_env \<Rightarrow> wire_message list \<Rightarrow> wsConn \<Rightarrow> wsConn" where
  "after_stream env ws c =
     (let ds = concat (map wire_pings ws)
      in c\<lparr>ws_in := [], ws_out := ws_out c @ pong_bytes env (ws_writes c) ds, ws_writes := ws_writes c + length ds\<rparr>)"

lemma pong_bytes_append: "pong_bytes env n (xs @ ys) = pong_bytes env n xs @ pong_bytes env (n + length xs) ys"
  by (induction env n xs rule: pong_bytes.induct) simp_all

definition after_message :: "write_env \<Rightarrow> wire_message \<Rightarrow> string \<Rightarrow> wsConn \<Rightarrow> wsConn" where
  "after_message env w rest c =
     c\<lparr>ws_in := rest, ws_out := ws_out c @ pong_bytes env (ws_writes c) (wire_pings w),
       ws_writes := ws_writes c + length (wire_pings w)\<rparr>"

lemma after_stream_simps:
  "ws_in c = [] \<Longrightarrow> after_stream env [] c = c"
  "after_stream env ws (after_message env w rest c) = after_stream env (w # ws) c"
  by (simp_all add: after_stream_def after_message_def Let_def pong_bytes_append add.assoc)

lemma ReadText_wire:
  assumes "wire_ok m w" and "m \<le> 2 ^ 63 - 1" and "\<forall>n. \<exists>key. env n = (Some key, None)" and "ws_in c = wire_bytes w @ rest"
  shows "ReadText env m c = (ReadMessage (wire_text w), after_message env w rest c)"
proof -
  obtain "is" opcode d where w: "w = (is, opcode, d)" by (cases w)
  with assms(1,4) have ok: "\<forall>i \<in> set is. item_ok m i" "data_op opcode" "length d \<le> m"
    and cin: "ws_in c = concat (map item_frame is) @ ws_encode True opcode None d @ rest" by simp_all
  show ?thesis using ReadText_message[OF ok(1) assms(2,3) ok(2,3) cin] w by (simp add: after_message_def)
qed

lemma receiveLoop_stream:
  assumes "\<forall>w \<in> set ws. wire_ok m w" and "m \<le> 2 ^ 63 - 1" and "\<forall>n. \<exists>key. env n = (Some key, None)"
    and "gw_handler g" and "\<forall>k. \<not> cancelled k" and "ws_in c = concat (map wire_bytes ws)"
  shows "receiveLoop env m decode decode_msg ready_ok cancelled g k c =
    (SessionFailed (GwRecv (ReadFailed ReadHeader0)), after_stream env ws c, human_messages decode decode_msg (map wire_text ws))"
  using assms(1,6)
proof (induction ws arbitrary: c k)
  case Nil
  then have "ReadText env m c = (ReadFailed ReadHeader0, c)" by (simp add: ReadText_at_end)
  moreover have "\<not> cancelled k" "\<not> cancelled (Suc k)" using assms(5) by simp_all
  ultimately show ?case using Nil
    by (simp only: receiveLoop.simps[of env m decode decode_msg ready_ok cancelled g k c]) (simp add: after_stream_simps)
next
  case (Cons w ws)
  let ?rest = "concat (map wire_bytes ws)"
  have "wire_ok m w" "ws_in c = wire_bytes w @ ?rest" using Cons.prems by simp_all
  note read = ReadText_wire[OF this(1) assms(2,3) this(2)]
  have "\<forall>w \<in> set ws. wire_ok m w" and "ws_in (after_message env w ?rest c) = ?rest"
    using Cons.prems by (simp_all add: after_message_def)
  note ih = Cons.IH[OF this, of "Suc k"]
  have nc: "\<not> cancelled k" using assms(5) by simp
  have
    "receiveLoop env m decode decode_msg ready_ok cancelled g k c =
      (SessionFailed (GwRecv (ReadFailed ReadHeader0)), after_stream env (w # ws) c,
       (case decode (wire_text w) of None \<Rightarrow> [] | Some p \<Rightarrow> snd (handlePayload decode_msg ready_ok g p))
        @ human_messages decode decode_msg (map wire_text ws))"
    by (simp add: receiveLoop_message[of cancelled k, OF nc read] ih after_stream_simps)
  then show ?case by (simp add: handlePayload_new_message[OF assms(4)])
qed

section \<open>Connecting\<close>

definition identify_text :: "Gateway \<Rightarrow> string" where
  "identify_text g = json_write (JObj [(''op'', JInt OpcodeIdentify),
     (''d'', JObj [(''token'', JStr (gw_token g)), (''intents'', JInt (gw_intents g)),
        (''properties'', JObj [(''browser'', JStr ''aethercore''), (''device'', JStr ''aethercore''), (''os'', JStr ''linux'')])])])"

definition sendIdentify :: "write_env \<Rightarrow> Gateway \<Rightarrow> wsConn \<Rightarrow> write_error option \<times> wsConn" where
  "sendIdentify env g = WriteText env (identify_text g)"

definition heartbeat_text :: string where
  "heartbeat_text = ''{'' @ [CHR 0x22] @ ''op'' @ [CHR 0x22] @ '':1,'' @ [CHR 0x22] @ ''d'' @ [CHR 0x22] @ '':null}''"

text \<open>
  The heartbeat beside the loop, on the events of its \<open>select\<close>, \<open>True\<close> for a tick and \<open>False\<close> for the
  end of the context. It panics at its start on an interval that is not positive.
\<close>

fun heartbeat :: "write_env \<Rightarrow> bool list \<Rightarrow> wsConn \<Rightarrow> wsConn" where
  "heartbeat env [] c = c"
| "heartbeat env (tick # es) c =
     (if tick then
        (case WriteText env heartbeat_text c of
           (Some e, c') \<Rightarrow> c'
         | (None, c') \<Rightarrow> heartbeat env es c')
      else c)"

definition heartbeat_interval :: "int \<Rightarrow> duration" where
  "heartbeat_interval ms = wrap64 (ms * Millisecond)"

text \<open>
  A session: how it ends, what this goroutine wrote (every frame is one write, so the heartbeats come
  between its frames), and the messages for which the handler was started. The program ends when the
  heartbeat or the reader panics; what was started by then is not determined, and none is reported.
\<close>

definition connect_gateway ::
    "write_env \<Rightarrow> nat \<Rightarrow> (string \<Rightarrow> GatewayPayload option) \<Rightarrow> (string \<Rightarrow> int option) \<Rightarrow> (string \<Rightarrow> dc_Message option)
     \<Rightarrow> (string \<Rightarrow> bool) \<Rightarrow> (nat \<Rightarrow> bool) \<Rightarrow> Gateway \<Rightarrow> (string \<Rightarrow> dial_error + wsConn) \<Rightarrow> string
     \<Rightarrow> session_end \<times> string \<times> dc_Message list" where
  "connect_gateway env m decode decode_hello decode_msg ready_ok cancelled g dial wsURL =
     (case dial wsURL of
        Inl e \<Rightarrow> (SessionFailed (GwDial e), [], [])
      | Inr c0 \<Rightarrow>
          (case ReadText env m c0 of
             (ReadMessage helloRaw, c) \<Rightarrow>
               (let failed = (\<lambda>e c. (SessionFailed e, ws_out (sendClose env c), []))
                in case decode helloRaw of
                     None \<Rightarrow> failed GwHelloEnvelope c
                   | Some p \<Rightarrow>
                       if gp_Op p \<noteq> OpcodeHello then failed (GwNotHello (gp_Op p)) c
                       else
                         (case decode_hello (gp_Data p) of
                            None \<Rightarrow> failed GwHelloData c
                          | Some ms \<Rightarrow>
                              (case sendIdentify env g c of
                                 (Some e, c1) \<Rightarrow> failed (GwIdentify e) c1
                               | (None, c1) \<Rightarrow>
                                   if heartbeat_interval ms \<le> 0 then (SessionCrashed, ws_out c1, [])
                                   else
                                     (let (e, c2, started) = receiveLoop env m decode decode_msg ready_ok cancelled g 0 c1
                                      in if e = SessionCrashed then (SessionCrashed, ws_out c2, [])
                                         else (e, ws_out (sendClose env c2), started)))))
           | (ReadPanic, c) \<Rightarrow> (SessionCrashed, ws_out c, [])
           | (r, c) \<Rightarrow> (SessionFailed (GwHelloRecv r), ws_out (sendClose env c), [])))"

lemma connect_hello:
  assumes "wire_ok m hello" and "m \<le> 2 ^ 63 - 1" and "\<forall>n. \<exists>key. env n = (Some key, None)"
    and "dial wsURL = Inr c" and "ws_in c = wire_bytes hello @ rest"
    and "decode (wire_text hello) = Some p" and "gp_Op p = OpcodeHello" and "decode_hello (gp_Data p) = Some ms"
  shows "connect_gateway env m decode decode_hello decode_msg ready_ok cancelled g dial wsURL =
    (let c1 = snd (sendIdentify env g (after_message env hello rest c))
     in if heartbeat_interval ms \<le> 0 then (SessionCrashed, ws_out c1, [])
        else
          (let (e, c2, started) = receiveLoop env m decode decode_msg ready_ok cancelled g 0 c1
           in if e = SessionCrashed then (SessionCrashed, ws_out c2, []) else (e, ws_out (sendClose env c2), started)))"
proof -
  have "fst (sendIdentify env g (after_message env hello rest c)) = None"
    using assms(3) by (metis sendIdentify_def WriteText_def writeFrame_ok fst_conv)
  then obtain c1 where "sendIdentify env g (after_message env hello rest c) = (None, c1)" by (metis prod.collapse)
  then show ?thesis
    using ReadText_wire[OF assms(1-3,5)] assms(4,6-8) by (simp add: connect_gateway_def Let_def)
qed

text \<open>
  A gateway that announces no interval, or one of zero, ends the whole program, by the panic of
  \<open>NewTicker\<close> in the heartbeat.
\<close>

lemma zero_interval_crashes:
  assumes "wire_ok m hello" and "m \<le> 2 ^ 63 - 1" and "\<forall>n. \<exists>key. env n = (Some key, None)"
    and "dial wsURL = Inr c" and "ws_in c = wire_bytes hello @ rest"
    and "decode (wire_text hello) = Some p" and "gp_Op p = OpcodeHello" and "decode_hello (gp_Data p) = Some 0"
  shows "fst (connect_gateway env m decode decode_hello decode_msg ready_ok cancelled g dial wsURL) = SessionCrashed"
  using connect_hello[where cancelled = cancelled and g = g and dial = dial and wsURL = wsURL and decode = decode and decode_hello = decode_hello, OF assms] by (simp add: heartbeat_interval_def wrap64_def Let_def)


text \<open>
  A session identifies itself once, after the hello, and then starts the handler exactly for the
  messages that are not from bots, its own included, in the order in which the gateway announced
  them, however the payloads are cut into fragments and whatever pings come between; besides the
  identification it writes only the pongs to these pings, and the close. No payload ends the session:
  one that does not decode is skipped, and so are the gateway's requests to reconnect and its notice
  that the session is invalid, so that the session then waits until the server closes it.
\<close>

lemma session_dispatches_human_messages:
  assumes "\<forall>w \<in> set (hello # ws). wire_ok m w" and "m \<le> 2 ^ 63 - 1" and "\<forall>n. env n = (Some (key n), None)"
    and "gw_handler g" and "\<forall>k. \<not> cancelled k"
    and "dial wsURL = Inr \<lparr>ws_in = concat (map wire_bytes (hello # ws)), ws_out = [], ws_writes = 0\<rparr>"
    and "decode (wire_text hello) = Some p" and "gp_Op p = OpcodeHello" and "decode_hello (gp_Data p) = Some ms"
    and "0 < heartbeat_interval ms"
  shows "connect_gateway env m decode decode_hello decode_msg ready_ok cancelled g dial wsURL =
    (let j = length (wire_pings hello); ds = concat (map wire_pings ws)
     in (SessionFailed (GwRecv (ReadFailed ReadHeader0)),
         pong_bytes env 0 (wire_pings hello) @ frame_bytes wsOpText (identify_text g) (key j)
         @ pong_bytes env (Suc j) ds @ frame_bytes wsOpClose [] (key (Suc j + length ds)),
         human_messages decode decode_msg (map wire_text ws)))"
proof -
  let ?rest = "concat (map wire_bytes ws)"
  let ?c = "\<lparr>ws_in = wire_bytes hello @ ?rest, ws_out = [], ws_writes = 0\<rparr>"
  have env: "\<forall>n. \<exists>key. env n = (Some key, None)" using assms(3) by blast
  have ok: "wire_ok m hello" "\<forall>w \<in> set ws. wire_ok m w" using assms(1) by simp_all
  have c: "dial wsURL = Inr ?c" "ws_in ?c = wire_bytes hello @ ?rest" using assms(6) by simp_all
  note hello = connect_hello[where cancelled = cancelled and g = g and dial = dial and wsURL = wsURL and decode = decode
      and decode_hello = decode_hello, OF ok(1) assms(2) env c assms(7-9)]
  let ?c1 = "snd (sendIdentify env g (after_message env hello ?rest ?c))"
  have c1: "?c1 = \<lparr>ws_in = ?rest, ws_out = pong_bytes env 0 (wire_pings hello) @
      frame_bytes wsOpText (identify_text g) (key (length (wire_pings hello))), ws_writes = Suc (length (wire_pings hello))\<rparr>"
    using assms(3) by (simp add: sendIdentify_def WriteText_def after_message_def writeFrame_ok)
  have "ws_in ?c1 = ?rest" by (simp add: c1)
  note loop = receiveLoop_stream[where cancelled = cancelled, OF ok(2) assms(2) env assms(4,5) this]
  have close: "ws_out (sendClose env c) = ws_out c @ frame_bytes wsOpClose [] (key (ws_writes c))" for c
    using assms(3) by (simp add: sendClose_def writeFrame_ok)
  have pos: "\<not> heartbeat_interval ms \<le> 0" using assms(10) by simp
  show ?thesis
    by (simp add: hello Let_def pos loop close) (simp add: c1 after_stream_def Let_def)
qed

definition dc_message :: "string \<Rightarrow> dc_Message" where
  "dc_message t = \<lparr>dc_MessageID = ''1'', dc_ChannelID = ''c'', dc_Author = None, dc_Content = t, dc_Timestamp = []\<rparr>"

lemma session_dispatches_human_messages_witness:
  "let payload = (\<lambda>op t. Some \<lparr>gp_Op = op, gp_Data = t, gp_Seq = None, gp_Type = ''MESSAGE_CREATE''\<rparr>);
     s = wire_bytes ([], wsOpText, ''hello'') @ wire_bytes ([], wsOpText, ''re'') @ wire_bytes ([Ping ''p'', Fragment wsOpText ''h''], wsOpContinuation, ''i'')
   in snd (snd (connect_gateway (\<lambda>n. (Some ''kkkk'', None)) 100
      (\<lambda>t. if t = ''hello'' then payload OpcodeHello t else if t = ''re'' then payload OpcodeReconnect t else payload OpcodeDispatch t)
      (\<lambda>t. Some 41250) (\<lambda>t. Some (dc_message t)) (\<lambda>_. True) (\<lambda>_. False) (NewGateway ''t'' DefaultIntents True)
      (\<lambda>u. Inr \<lparr>ws_in = s, ws_out = [], ws_writes = 0\<rparr>) ''wss://gw'')) = [dc_message ''hi'']"
proof -
  let ?payload = "\<lambda>op t. Some \<lparr>gp_Op = op, gp_Data = t, gp_Seq = None, gp_Type = ''MESSAGE_CREATE''\<rparr>"
  let ?decode = "\<lambda>t. if t = ''hello'' then ?payload OpcodeHello t else if t = ''re'' then ?payload OpcodeReconnect t else ?payload OpcodeDispatch t"
  let ?hello = "([] :: server_item list, wsOpText, ''hello'')"
  let ?ws = "[([], wsOpText, ''re''), ([Ping ''p'', Fragment wsOpText ''h''], wsOpContinuation, ''i'')]"
  let ?s = "concat (map wire_bytes (?hello # ?ws))"
  have hm: "human_messages ?decode (\<lambda>t. Some (dc_message t)) (map wire_text ?ws) = [dc_message ''hi'']"
    by (simp add: new_message_def by_human_def dc_message_def OpcodeReconnect_def OpcodeDispatch_def)
  have s: "wire_bytes ([], wsOpText, ''hello'') @ wire_bytes ([], wsOpText, ''re'') @
      wire_bytes ([Ping ''p'', Fragment wsOpText ''h''], wsOpContinuation, ''i'') = ?s" by simp
  have "connect_gateway (\<lambda>n. (Some ''kkkk'', None)) 100 ?decode (\<lambda>t. Some 41250) (\<lambda>t. Some (dc_message t)) (\<lambda>_. True) (\<lambda>_. False)
      (NewGateway ''t'' DefaultIntents True) (\<lambda>u. Inr \<lparr>ws_in = ?s, ws_out = [], ws_writes = 0\<rparr>) ''wss://gw'' =
    (let j = length (wire_pings ?hello); ds = concat (map wire_pings ?ws)
     in (SessionFailed (GwRecv (ReadFailed ReadHeader0)),
         pong_bytes (\<lambda>n. (Some ''kkkk'', None)) 0 (wire_pings ?hello) @ frame_bytes wsOpText (identify_text (NewGateway ''t'' DefaultIntents True)) ''kkkk''
         @ pong_bytes (\<lambda>n. (Some ''kkkk'', None)) (Suc j) ds @ frame_bytes wsOpClose [] ''kkkk'',
         human_messages ?decode (\<lambda>t. Some (dc_message t)) (map wire_text ?ws)))"
    by (rule session_dispatches_human_messages[where key = "\<lambda>_. ''kkkk''" and ms = 41250 and p = "the (?payload OpcodeHello ''hello'')"])
       (simp_all add: data_op_def NewGateway_def heartbeat_interval_def Millisecond_def wrap64_def)
  then show ?thesis unfolding Let_def s by (simp only: snd_conv hm)
qed

section \<open>Reconnecting\<close>

definition gw_backoffBase :: duration where "gw_backoffBase = 2 * Second"
definition gw_backoffMax :: duration where "gw_backoffMax = 60 * Second"

record gw_run =
  run_backoff :: duration
  run_waits :: "duration list"
  run_started :: "dc_Message list"

datatype run_status = GwRunning | GwReturned | GwCrashed

definition run_init :: gw_run where
  "run_init = \<lparr>run_backoff = gw_backoffBase, run_waits = [], run_started = []\<rparr>"

text \<open>Where in an iteration the context is cancelled, if it is.\<close>

datatype gw_cancel = GwNotCancelled | GwAtHead | GwInSession | GwInWait

definition session_url :: "string \<Rightarrow> string" where
  "session_url gatewayURL = gatewayURL @ ''?v=10&encoding=json''"

definition run_once ::
    "gw_cancel \<Rightarrow> (string \<Rightarrow> session_end \<times> dc_Message list) \<Rightarrow> string \<Rightarrow> gw_run \<Rightarrow> gw_run \<times> run_status" where
  "run_once cancel connect gatewayURL s =
     (if cancel = GwAtHead then (s, GwReturned)
      else
        (let (e, started) = connect (session_url gatewayURL);
             s' = s\<lparr>run_started := run_started s @ started\<rparr>
         in if e = SessionCrashed then (s', GwCrashed)
            else if e = SessionClean \<or> cancel = GwInSession then (s', GwReturned)
            else
              (let s'' = s'\<lparr>run_waits := run_waits s' @ [run_backoff s']\<rparr>
               in if cancel = GwInWait then (s'', GwReturned)
                  else if run_backoff s'' < gw_backoffMax then (s''\<lparr>run_backoff := wrap64 (run_backoff s'' * 2)\<rparr>, GwRunning)
                  else (s'', GwRunning))))"

primrec run_gateway ::
    "(nat \<Rightarrow> gw_cancel) \<Rightarrow> (nat \<Rightarrow> string \<Rightarrow> session_end \<times> dc_Message list) \<Rightarrow> string \<Rightarrow> nat \<Rightarrow> gw_run \<times> run_status" where
  "run_gateway cancel connect gatewayURL 0 = (run_init, GwRunning)"
| "run_gateway cancel connect gatewayURL (Suc n) =
     (let (s, status) = run_gateway cancel connect gatewayURL n
      in if status = GwRunning then run_once (cancel n) (connect n) gatewayURL s else (s, status))"

definition gw_wait :: "nat \<Rightarrow> duration" where
  "gw_wait i = 2 ^ Suc (min i 5) * Second"

lemma gw_wait_le: "gw_wait i \<le> 64 * Second"
proof -
  have "(2 :: int) ^ Suc (min i 5) \<le> 2 ^ 6" by (rule power_increasing) auto
  then show ?thesis by (simp add: gw_wait_def Second_def)
qed

lemma gw_wait_Suc: "(if gw_wait i < gw_backoffMax then wrap64 (gw_wait i * 2) else gw_wait i) = gw_wait (Suc i)"
proof (cases "i < 5")
  case True
  have "(2 :: int) ^ Suc i \<le> 2 ^ 5" using True by (intro power_increasing) auto
  then have lt: "gw_wait i < gw_backoffMax" using True by (simp add: gw_wait_def gw_backoffMax_def Second_def)
  have "0 \<le> gw_wait i" by (simp add: gw_wait_def Second_def)
  with gw_wait_le[of i] have "in_int64 (gw_wait i * 2)" by (simp add: in_int64_def int64_min_def int64_max_def Second_def)
  with lt True show ?thesis by (simp add: gw_wait_def)
qed (simp add: gw_wait_def gw_backoffMax_def Second_def)

text \<open>
  The reconnecting loop over \<open>n\<close> failed sessions: it starts the handlers of all of them and waits
  after each. The waits double up to 64 seconds, which is more than \<open>backoffMax\<close>, and no session, however
  long it served, makes them small again.
\<close>

lemma failed_sessions_back_off:
  assumes "\<And>i. i < n \<Longrightarrow> \<exists>e ms. connect i (session_url u) = (SessionFailed e, ms)" and "\<And>i. i < n \<Longrightarrow> cancel i = GwNotCancelled"
  shows "run_gateway cancel connect u n =
    (\<lparr>run_backoff = gw_wait n, run_waits = map gw_wait [0..<n], run_started = concat (map (\<lambda>i. snd (connect i (session_url u))) [0..<n])\<rparr>,
     GwRunning)"
  using assms
proof (induction n)
  case 0
  show ?case by (simp add: run_init_def gw_wait_def gw_backoffBase_def)
next
  case (Suc n)
  obtain e ms where "connect n (session_url u) = (SessionFailed e, ms)" using Suc.prems(1)[of n] by auto
  with Suc show ?case using gw_wait_Suc[of n] by (simp add: run_once_def split: if_splits)
qed

lemma backoff_passes_maximum: "gw_backoffMax < gw_wait 5"
  by (simp add: gw_wait_def gw_backoffMax_def Second_def)

section \<open>The bot\<close>

definition DefaultCommandPrefix :: string where "DefaultCommandPrefix = ''!''"

datatype dc_handler = DcHelp | DcRun | DcModules

definition dc_bot_router :: "(nat \<Rightarrow> nat) \<Rightarrow> dc_handler dc_Router" where
  "dc_bot_router ul =
     dc_RegisterCommand ul ''modules'' DcModules (dc_RegisterCommand ul ''run'' DcRun
       (dc_RegisterCommand ul ''help'' DcHelp (dc_RegisterCommand ul ''start'' DcHelp (dc_NewRouter DefaultCommandPrefix))))"

text \<open>Starting: an error, or the session loop on the URL that the REST interface names.\<close>

definition dc_Start ::
    "(string \<Rightarrow> bool) \<Rightarrow> (string \<Rightarrow> dc_APIError option) \<Rightarrow> (string \<Rightarrow> string option) \<Rightarrow> http_env
     \<Rightarrow> (nat \<Rightarrow> gw_cancel) \<Rightarrow> (Gateway \<Rightarrow> nat \<Rightarrow> string \<Rightarrow> session_end \<times> dc_Message list) \<Rightarrow> string \<Rightarrow> nat
     \<Rightarrow> 'w chat_state \<Rightarrow> (dc_error + gw_run \<times> run_status) \<times> 'w chat_state" where
  "dc_Start url_ok decode_err decode env cancel connect token n st =
     (if token = [] then (Inl DcEmptyToken, st)
      else case GetGatewayURL url_ok decode_err decode env (dc_NewClient token) st of
        (Inl e, st') \<Rightarrow> (Inl (DcTokenInvalid e), st')
      | (Inr gatewayURL, st') \<Rightarrow>
          (Inr (run_gateway cancel (connect (NewGateway token DefaultIntents True)) gatewayURL n), st'))"

definition dc_call ::
    "(string \<Rightarrow> string \<Rightarrow> 'w chat_state \<Rightarrow> 'w chat_state) \<Rightarrow> 'w ModuleRegistry \<Rightarrow> string list \<Rightarrow> instant
     \<Rightarrow> dc_handler \<Rightarrow> string \<Rightarrow> string \<Rightarrow> 'w chat_state \<Rightarrow> 'w chat_state" where
  "dc_call reply r ord now h =
     (case h of DcHelp \<Rightarrow> dc_HandleHelp reply r ord | DcRun \<Rightarrow> dc_HandleRun reply r ord now
      | DcModules \<Rightarrow> dc_HandleModules reply r ord)"

definition dc_on_message ::
    "(nat \<Rightarrow> nat) \<Rightarrow> (string \<Rightarrow> string \<Rightarrow> 'w chat_state \<Rightarrow> 'w chat_state) \<Rightarrow> 'w ModuleRegistry \<Rightarrow> string list \<Rightarrow> instant
     \<Rightarrow> dc_Message \<Rightarrow> 'w chat_state \<Rightarrow> 'w chat_state" where
  "dc_on_message ul reply r ord now msg st =
     (case dc_Handle ul (dc_bot_router ul) (Some msg) of
        None \<Rightarrow> st
      | Some (h, channelID, args) \<Rightarrow> dc_call reply r ord now h channelID args st)"

lemma dc_bot_commands:
  "dc_commands (dc_bot_router ul) = [''start'' \<mapsto> DcHelp, ''help'' \<mapsto> DcHelp, ''run'' \<mapsto> DcRun, ''modules'' \<mapsto> DcModules]"
  "dc_fallback (dc_bot_router ul) = None"
  "dc_prefix (dc_bot_router ul) = ''!''"
  by (simp_all add: dc_bot_router_def dc_RegisterCommand_def dc_NewRouter_def ToLower_def ascii_def byte_def lower_ascii_def DefaultCommandPrefix_def)

lemma dc_HandleRun_reply:
  assumes "registry_wf r" and "range_order (loaded r) ord" and "loaded r \<noteq> Map.empty" and "TrimSpace goal \<noteq> []"
  shows "dc_HandleRun reply r ord now channelID goal st =
    (let (as, w) = module_answers r (dc_task channelID now goal) ord (chat_world st)
     in reply channelID (TrimSpace (concat (map (answer_text dc_good dc_bad) as))) (st\<lparr>chat_world := w\<rparr>))"
  using Manifests_nonempty[OF assms(1-3)] range_order_sub[OF assms(2)] assms(4)
  by (simp add: dc_HandleRun_def askModules_answers[OF assms(1)] Let_def split_def)

text \<open>The run command on Discord, as on Telegram; a message without the prefix is not answered.\<close>

lemma discord_run_asks_every_module:
  assumes "registry_wf r" and "range_order (loaded r) ord" and "loaded r \<noteq> Map.empty"
    and "TrimSpace (dc_Content msg) = CHR ''!'' # cmd @ CHR '' '' # a"
    and "command_word cmd" and "map lower_ascii cmd = ''run''" and "TrimSpace (TrimSpace a) \<noteq> []"
  shows "dc_on_message ul reply r ord now msg st =
    (let (as, w) = module_answers r (dc_task (dc_ChannelID msg) now (TrimSpace a)) ord (chat_world st)
     in reply (dc_ChannelID msg) (TrimSpace (concat (map (answer_text dc_good dc_bad) as))) (st\<lparr>chat_world := w\<rparr>))"
proof -
  have "route (dc_parseCommand ul ''!'') (dc_commands (dc_bot_router ul)) None (TrimSpace (dc_Content msg)) = Some (DcRun, TrimSpace a)"
    using dc_cmds.route_command(2)[where pre = "''!''" and ul = ul and cmds = "dc_commands (dc_bot_router ul)" and h = DcRun and fallback = None and a = a, OF assms(5)] assms(4,6)
    by (simp add: dc_bot_commands)
  then have "dc_Handle ul (dc_bot_router ul) (Some msg) = Some (DcRun, dc_ChannelID msg, TrimSpace a)"
    using assms(4) by (simp add: dc_Handle_def dc_bot_commands(2,3))
  then show ?thesis
    by (simp add: dc_on_message_def dc_call_def dc_HandleRun_reply[OF assms(1-3,7)])
qed

lemma no_prefix_no_answer:
  assumes "\<not> HasPrefix (TrimSpace (dc_Content msg)) ''!''"
  shows "dc_on_message ul reply r ord now msg st = st"
proof -
  have "route (dc_parseCommand ul ''!'') (dc_commands (dc_bot_router ul)) None (TrimSpace (dc_Content msg)) = None"
    by (subst dc_cmds.route_plain[OF assms]) simp
  then show ?thesis by (simp add: dc_on_message_def dc_Handle_def dc_bot_commands(2,3))
qed

end
