(* ===== verification/Go_Disk.thy ===== *)
theory Go_Disk
  imports Go_Strings "HOL-Library.AList"
begin

text \<open>
  A disk of files and directories under their absolute paths, and the calls of \<open>os\<close> on it: \<open>Stat\<close>, \<open>MkdirAll\<close>,
  \<open>ReadDir\<close> and \<open>Create\<close> with a write. A path is the list of its elements; a path string is resolved
  element by element, as the system does, and every intermediate directory must exist. There are no symbolic
  links. What the system refuses is in the environment.
\<close>

type_synonym path = "string list"

datatype node = FileNode string | DirNode

type_synonym disk = "(path \<times> node) list"

definition lookup :: "disk \<Rightarrow> path \<Rightarrow> node option" where
  "lookup d p = (if p = [] then Some DirNode else map_of d p)"

text \<open>
  What is allowed: to look at a path, to list a directory, to make one, to create a file, and how many
  bytes of a file can be written before an error, if there is one.
\<close>

record disk_env =
  cwd :: path
  can_stat :: "path \<Rightarrow> bool"
  can_list :: "path \<Rightarrow> bool"
  can_mkdir :: "path \<Rightarrow> bool"
  can_create :: "path \<Rightarrow> bool"
  write_limit :: "path \<Rightarrow> nat option"

definition benign :: "disk_env \<Rightarrow> bool" where
  "benign env \<longleftrightarrow> (\<forall>p. can_stat env p \<and> can_list env p \<and> can_mkdir env p \<and> can_create env p \<and> write_limit env p = None)"

text \<open>The paths that a path string visits from \<open>p\<close> on, the last of which it names.\<close>

fun walk :: "path \<Rightarrow> string list \<Rightarrow> path list" where
  "walk p [] = []"
| "walk p (c # cs) =
     (if c = [] then walk p cs
      else let q = (if c = ''.'' then p else if c = ''..'' then butlast p else p @ [c]) in q # walk q cs)"

definition start_of :: "disk_env \<Rightarrow> string \<Rightarrow> path" where
  "start_of env s = (if s \<noteq> [] \<and> hd s = CHR ''/'' then [] else cwd env)"

definition path_steps :: "disk_env \<Rightarrow> string \<Rightarrow> path list" where
  "path_steps env s = walk (start_of env s) (Split (CHR ''/'') s)"

definition target :: "disk_env \<Rightarrow> string \<Rightarrow> path" where
  "target env s = last (start_of env s # path_steps env s)"

datatype stat_result = NotExist | StatFails | Found node

fun stat_steps :: "disk \<Rightarrow> node \<Rightarrow> path list \<Rightarrow> stat_result" where
  "stat_steps d n [] = Found n"
| "stat_steps d (FileNode c) (p # ps) = StatFails"
| "stat_steps d DirNode (p # ps) = (case lookup d p of None \<Rightarrow> NotExist | Some n \<Rightarrow> stat_steps d n ps)"

definition Stat :: "disk_env \<Rightarrow> disk \<Rightarrow> string \<Rightarrow> stat_result" where
  "Stat env d s =
     (if list_all (can_stat env) (path_steps env s) then stat_steps d DirNode (path_steps env s) else StatFails)"

text \<open>\<open>MkdirAll\<close> makes every directory on the way that is missing; it says whether all are directories then.\<close>

fun mkdirs :: "disk_env \<Rightarrow> path list \<Rightarrow> disk \<Rightarrow> bool \<times> disk" where
  "mkdirs env [] d = (True, d)"
| "mkdirs env (p # ps) d =
     (case lookup d p of
        Some DirNode \<Rightarrow> mkdirs env ps d
      | Some (FileNode c) \<Rightarrow> (False, d)
      | None \<Rightarrow> if can_mkdir env p then mkdirs env ps ((p, DirNode) # d) else (False, d))"

definition MkdirAll :: "disk_env \<Rightarrow> string \<Rightarrow> disk \<Rightarrow> bool \<times> disk" where
  "MkdirAll env s d = mkdirs env (path_steps env s) d"

definition dir_entries :: "disk \<Rightarrow> path \<Rightarrow> path list" where
  "dir_entries d p = filter (\<lambda>q. q \<noteq> [] \<and> butlast q = p) (map fst d)"

definition ReadDir :: "disk_env \<Rightarrow> disk \<Rightarrow> path \<Rightarrow> path list option" where
  "ReadDir env d p = (if can_list env p then Some (dir_entries d p) else None)"

text \<open>A disk on which every file and directory is in a directory.\<close>

definition wf_disk :: "disk \<Rightarrow> bool" where
  "wf_disk d \<longleftrightarrow> (\<forall>p \<in> fst ` set d. p \<noteq> [] \<and> lookup d (butlast p) = Some DirNode)"

section \<open>Lookups\<close>

lemma lookup_root [simp]: "lookup d [] = Some DirNode"
  by (simp add: lookup_def)

lemma lookup_None_entry: "p \<noteq> [] \<Longrightarrow> lookup d p = None \<longleftrightarrow> p \<notin> fst ` set d"
  by (simp add: lookup_def map_of_eq_None_iff)

lemma lookup_Cons: "lookup ((p, n) # d) q = (if q = [] then Some DirNode else if q = p then Some n else lookup d q)"
  by (simp add: lookup_def)

lemma lookup_update: "lookup (AList.update p n d) q = (if q = [] then Some DirNode else if q = p then Some n else lookup d q)"
  by (auto simp: lookup_def update_conv')

lemma wf_disk_below: "wf_disk d \<Longrightarrow> lookup d (p @ r) \<noteq> None \<Longrightarrow> r \<noteq> [] \<Longrightarrow> lookup d p = Some DirNode"
proof (induction r arbitrary: p rule: rev_induct)
  case (snoc c r)
  then have "p @ r @ [c] \<in> fst ` set d" using lookup_None_entry[of "p @ r @ [c]" d] by auto
  then have "lookup d (butlast (p @ r @ [c])) = Some DirNode" using snoc.prems(1) unfolding wf_disk_def by blast
  then have dir: "lookup d (p @ r) = Some DirNode" by (simp add: butlast_append)
  show ?case
  proof (cases "r = []")
    case False
    with snoc.IH[OF snoc.prems(1)] dir show ?thesis by simp
  qed (use dir in simp)
qed simp

lemma dir_entries_lookup: "dir_entries d p = [] \<longleftrightarrow> (\<forall>c. lookup d (p @ [c]) = None)"
proof -
  have "(\<exists>q \<in> fst ` set d. q \<noteq> [] \<and> butlast q = p) \<longleftrightarrow> (\<exists>c. p @ [c] \<in> fst ` set d)"
    by (metis append_butlast_last_id butlast_snoc snoc_eq_iff_butlast)
  moreover have "lookup d (p @ [c]) = None \<longleftrightarrow> p @ [c] \<notin> fst ` set d" for c by (simp add: lookup_None_entry)
  ultimately show ?thesis unfolding dir_entries_def filter_empty_conv by auto
qed

section \<open>Making directories\<close>

lemma mkdirs_lookup:
  "mkdirs env ps d = (True, d') \<Longrightarrow>
     lookup d' p = (if p \<in> set ps \<and> lookup d p = None then Some DirNode else lookup d p)"
proof (induction env ps d arbitrary: d' rule: mkdirs.induct)
  case (2 env q ps d)
  then show ?case
    by (cases "lookup d q"; cases "the (lookup d q)")
      (auto simp: lookup_Cons lookup_def[of _ "[]"] split: if_splits option.splits)
qed simp

lemma no_dotdot_walk: "''..'' \<notin> set cs \<Longrightarrow> q \<in> set (walk p cs) \<Longrightarrow> \<exists>r. last (p # walk p cs) = q @ r \<and> (\<exists>r'. q = p @ r')"
proof (induction cs arbitrary: p q)
  case (Cons c cs)
  show ?case
  proof (cases "c = []")
    case False
    let ?q = "if c = ''.'' then p else p @ [c]"
    have w: "walk p (c # cs) = ?q # walk ?q cs" using False Cons.prems(1) by (auto simp: Let_def)
    have ext: "\<exists>r. last (x # walk x cs) = x @ r" for x
    proof (cases "walk x cs = []")
      case False
      then have "last (walk x cs) \<in> set (walk x cs)" by simp
      with Cons.IH[where p = x and q = "last (walk x cs)"] Cons.prems(1) False show ?thesis by auto
    qed simp
    from Cons.prems(2) w have "q = ?q \<or> q \<in> set (walk ?q cs)" by auto
    then show ?thesis
    proof
      assume "q = ?q"
      with ext[of ?q] show ?thesis unfolding w by (auto split: if_splits)
    next
      assume q: "q \<in> set (walk ?q cs)"
      with Cons.IH[OF _ q] Cons.prems(1) show ?thesis unfolding w by (auto split: if_splits)
    qed
  qed (use Cons in auto)
qed simp

lemma mkdirs_missing:
  assumes "benign env" and "''..'' \<notin> set cs" and "lookup d p = Some DirNode" and "\<forall>r. r \<noteq> [] \<longrightarrow> lookup d (p @ r) = None"
  shows "fst (mkdirs env (walk p cs) d)"
  using assms(2-4)
proof (induction cs arbitrary: p d)
  case (Cons c cs)
  consider "c = []" | "c = ''.''" | "c \<noteq> []" "c \<noteq> ''.''" "c \<noteq> ''..''" using Cons.prems(1) by auto
  then show ?case
  proof cases
    case 3
    have "lookup d (p @ [c]) = None" using Cons.prems(3) by simp
    moreover have "\<forall>r. r \<noteq> [] \<longrightarrow> lookup ((p @ [c], DirNode) # d) ((p @ [c]) @ r) = None"
      using Cons.prems(3) by (auto simp: lookup_Cons)
    moreover have "lookup ((p @ [c], DirNode) # d) (p @ [c]) = Some DirNode" by (simp add: lookup_Cons)
    ultimately show ?thesis
      using Cons.IH[of "(p @ [c], DirNode) # d" "p @ [c]"] Cons.prems(1) 3 assms(1) by (simp add: benign_def Let_def)
  qed (use Cons in \<open>auto simp: Let_def\<close>)
qed simp

text \<open>A path string without \<open>..\<close> that names nothing: its directories can be made, and there is nothing below it.\<close>

lemma not_exist_missing:
  assumes "stat_steps d DirNode (walk p cs) = NotExist" and "''..'' \<notin> set cs" and "wf_disk d" and "benign env"
    and "lookup d p = Some DirNode"
  shows "fst (mkdirs env (walk p cs) d)" and "\<forall>r. lookup d (last (p # walk p cs) @ r) = None"
proof -
  have "fst (mkdirs env (walk p cs) d) \<and> (\<exists>q \<in> set (walk p cs). lookup d q = None)"
    using assms(1,2,5)
  proof (induction cs arbitrary: p)
    case (Cons c cs)
    show ?case
    proof (cases "c = []")
      case False
      let ?q = "if c = ''.'' then p else p @ [c]"
      have w: "walk p (c # cs) = ?q # walk ?q cs" using False Cons.prems(2) by (auto simp: Let_def)
      show ?thesis
      proof (cases "lookup d ?q")
        case None
        then have q: "?q = p @ [c]" using Cons.prems(3) by (auto split: if_splits)
        have below: "\<forall>r. r \<noteq> [] \<longrightarrow> lookup d ((p @ [c]) @ r) = None" using wf_disk_below[OF assms(3)] None q by (metis option.distinct(1))
        have "fst (mkdirs env (walk (p @ [c]) cs) ((p @ [c], DirNode) # d))"
          using Cons.prems(2) below by (intro mkdirs_missing[OF assms(4)]) (auto simp: lookup_Cons)
        with None q assms(4) show ?thesis unfolding w by (simp add: benign_def)
      next
        case (Some n)
        have st: "stat_steps d n (walk ?q cs) = NotExist" using Cons.prems(1) Some unfolding w by simp
        then have "n = DirNode" by (cases n; cases "walk ?q cs") auto
        with Cons.IH[of ?q] st Some Cons.prems(2) show ?thesis unfolding w by auto
      qed
    qed (use Cons in auto)
  qed simp
  then obtain q where q: "fst (mkdirs env (walk p cs) d)" "q \<in> set (walk p cs)" "lookup d q = None" by blast
  obtain r' where r': "last (p # walk p cs) = q @ r'" using no_dotdot_walk[OF assms(2) q(2)] by blast
  show "fst (mkdirs env (walk p cs) d)" by (rule q(1))
  show "\<forall>r. lookup d (last (p # walk p cs) @ r) = None"
  proof
    fix r
    show "lookup d (last (p # walk p cs) @ r) = None"
    proof (cases "r' @ r = []")
      case False
      with wf_disk_below[OF assms(3), of q "r' @ r"] q(3) show ?thesis unfolding r' by (metis append.assoc option.distinct(1))
    next
      case True
      with q(3) show ?thesis unfolding r' by simp
    qed
  qed
qed

end
