(* ===== verification/Module_Scaffold.thy ===== *)
theory Module_Scaffold
  imports Go_Encoding Go_Disk
begin

text \<open>
  The generator of module projects, \<open>sdk/scaffold/scaffold.go\<close>: the checks of the configuration and
  of the output directory, the names it derives, and the rendering of the embedded templates. Of
  \<open>text/template\<close> the model has what the embedded templates use, text and field actions.

  The output directory is a path string on a disk of \<open>Go_Disk\<close>, on which a missing directory is made with
  all its parents. The case tables of \<open>unicode\<close> beyond ASCII are arguments.
\<close>

section \<open>Names\<close>

definition toPackageName :: "(nat \<Rightarrow> nat) \<Rightarrow> string \<Rightarrow> string" where
  "toPackageName ul name = ToLower ul (RemoveChar (CHR ''-'') name)"

definition upper_rune :: "(nat \<Rightarrow> nat) \<Rightarrow> nat \<Rightarrow> nat" where
  "upper_rune uu r = (if r < 128 then byte (upper_ascii (char_of r)) else uu r)"

fun type_name_from :: "(nat \<Rightarrow> nat) \<Rightarrow> bool \<Rightarrow> nat list \<Rightarrow> string" where
  "type_name_from uu capitaliseNext [] = []"
| "type_name_from uu capitaliseNext (r # rs) =
     (if r = 45 then type_name_from uu True rs
      else encode_rune (if capitaliseNext then upper_rune uu r else r) @ type_name_from uu False rs)"

definition toGoTypeName :: "(nat \<Rightarrow> nat) \<Rightarrow> string \<Rightarrow> string" where
  "toGoTypeName uu name = type_name_from uu True (runes name)"

lemma ascii_rune_bytes: "n < 128 \<Longrightarrow> encode_rune n = [char_of n]"
  by (simp add: encode_rune_def)

lemma byte_dash: "byte c = 45 \<longleftrightarrow> c = CHR ''-''"
  using byte_inject[of c "CHR ''-''"] by (simp add: byte_def)

lemma byte_lower: "byte (lower_ascii c) = (if 65 \<le> byte c \<and> byte c \<le> 90 then byte c + 32 else byte c)"
  by (simp add: lower_ascii_def byte_def)

lemma byte_upper_less: "byte c < 128 \<Longrightarrow> byte (upper_ascii c) < 128"
  by (auto simp: upper_ascii_def byte_def)

lemma lower_upper_ascii [simp]: "lower_ascii (upper_ascii c) = lower_ascii c"
  by (auto simp: lower_ascii_def upper_ascii_def byte_def)

lemma type_name_lower:
  assumes "ascii s"
  shows "map lower_ascii (type_name_from uu cap (map byte s)) = map lower_ascii (RemoveChar (CHR ''-'') s)"
    and "ascii (type_name_from uu cap (map byte s))"
proof -
  have "map lower_ascii (type_name_from uu cap (map byte s)) = map lower_ascii (RemoveChar (CHR ''-'') s)
    \<and> ascii (type_name_from uu cap (map byte s))" for cap
    using assms
  proof (induction s arbitrary: cap)
    case (Cons c s)
    then show ?case
      by (auto simp: RemoveChar_def byte_dash upper_rune_def ascii_rune_bytes byte_upper_less char_of_byte)
  qed (simp add: RemoveChar_def)
  then show "map lower_ascii (type_name_from uu cap (map byte s)) = map lower_ascii (RemoveChar (CHR ''-'') s)"
    and "ascii (type_name_from uu cap (map byte s))" by blast+
qed

text \<open>
  The two names that a module gets are one: the package name is the type name in lower case, for
  every name in ASCII, whatever its dashes and capitals; and neither holds a dash.
\<close>

lemma package_is_lowered_type:
  assumes "ascii name"
  shows "toPackageName ul name = ToLower ul (toGoTypeName uu name) \<and> CHR ''-'' \<notin> set (toPackageName ul name)"
proof -
  have a: "ascii (RemoveChar (CHR ''-'') name)" using assms by (auto simp: ascii_def RemoveChar_def)
  have dash: "lower_ascii c = CHR ''-'' \<longleftrightarrow> c = CHR ''-''" for c
  proof -
    have "byte (lower_ascii c) = 45 \<longleftrightarrow> byte c = 45" by (simp add: byte_lower)
    then show ?thesis by (simp only: byte_dash)
  qed
  have nd: "CHR ''-'' \<notin> set (map lower_ascii (RemoveChar (CHR ''-'') name))"
  proof
    assume "CHR ''-'' \<in> set (map lower_ascii (RemoveChar (CHR ''-'') name))"
    then obtain c where c: "c \<in> set (RemoveChar (CHR ''-'') name)" "CHR ''-'' = lower_ascii c" by (auto simp only: set_map image_iff)
    from c(1) have "c \<noteq> CHR ''-''" by (simp add: RemoveChar_def)
    then show False by (rule notE) (rule iffD1[OF dash c(2)[symmetric]])
  qed
  have "ToLower ul (toGoTypeName uu name) = map lower_ascii (RemoveChar (CHR ''-'') name)"
    using type_name_lower[OF assms, of uu True] by (simp add: toGoTypeName_def runes_ascii[OF assms] ToLower_ascii)
  then show ?thesis using nd a by (simp add: toPackageName_def ToLower_ascii)
qed

lemma package_is_lowered_type_witness:
  "toPackageName id ''web-search'' = ToLower id (toGoTypeName id ''web-search'') \<and> toPackageName id ''web-search'' = ''websearch''
    \<and> toGoTypeName id ''web-search'' = ''WebSearch''"
  using package_is_lowered_type[of "''web-search''" id id]
  by (simp add: ascii_def byte_def toPackageName_def ToLower_def RemoveChar_def lower_ascii_def toGoTypeName_def runes_ascii upper_rune_def
      upper_ascii_def ascii_rune_bytes char_of_def bit_0)

section \<open>Checks\<close>

record Config =
  cfg_ModuleName :: string
  cfg_Author :: string
  cfg_Version :: string
  cfg_OutputDir :: string

record templateData =
  td_ModuleName :: string
  td_PackageName :: string
  td_GoTypeName :: string
  td_Author :: string
  td_Version :: string

datatype scaffold_error =
    EmptyModuleName
  | NotKebabCase string
  | StatFailed string
  | MkdirFailed string
  | NotADirectory string
  | ReadDirFailed string
  | OutputNotEmpty string
  | TemplatesUnreadable
  | TemplateUnreadable string
  | TemplateUnparsable string
  | CreateFailed path
  | ExecuteFailed string

definition validateConfig :: "Config \<Rightarrow> scaffold_error option" where
  "validateConfig cfg =
     (if TrimSpace (cfg_ModuleName cfg) = [] then Some EmptyModuleName
      else if ContainsAny (cfg_ModuleName cfg) [CHR '' '', CHR 0x09, CHR 0x0A, CHR ''/'', CHR 0x5C] then Some (NotKebabCase (cfg_ModuleName cfg))
      else None)"

text \<open>A missing directory is made with its parents, which stay when a deeper one cannot be made.\<close>

definition checkOutputDir :: "disk_env \<Rightarrow> string \<Rightarrow> disk \<Rightarrow> scaffold_error option \<times> disk" where
  "checkOutputDir env dir d =
     (case Stat env d dir of
        NotExist \<Rightarrow> (case MkdirAll env dir d of (ok, d') \<Rightarrow> (if ok then None else Some (MkdirFailed dir), d'))
      | StatFails \<Rightarrow> (Some (StatFailed dir), d)
      | Found (FileNode c) \<Rightarrow> (Some (NotADirectory dir), d)
      | Found DirNode \<Rightarrow>
          (case ReadDir env d (target env dir) of
             None \<Rightarrow> (Some (ReadDirFailed dir), d)
           | Some entries \<Rightarrow> if length entries > 0 then (Some (OutputNotEmpty dir), d) else (None, d)))"

definition outputFileName :: "path \<Rightarrow> string \<Rightarrow> string \<Rightarrow> path" where
  "outputFileName dir tmplName pkgName =
     (let name = TrimSuffix tmplName ''.tmpl''; name = (if name = ''module.go'' then pkgName @ ''.go'' else name)
      in dir @ [name])"

section \<open>Templates\<close>

datatype template_node = TText string | TField string

fun cut :: "string \<Rightarrow> string \<Rightarrow> (string \<times> string) option" where
  "cut sep [] = None"
| "cut sep (c # s) =
     (if HasPrefix (c # s) sep then Some ([], drop (length sep) (c # s))
      else map_option (\<lambda>(a, b). (c # a, b)) (cut sep s))"

lemma cut_shorter: "sep \<noteq> [] \<Longrightarrow> cut sep s = Some (a, b) \<Longrightarrow> length b < length s"
  by (induction s arbitrary: a) (auto split: if_splits simp: less_SucI length_greater_0_conv[symmetric] simp del: length_greater_0_conv)

definition ident_char :: "char \<Rightarrow> bool" where
  "ident_char c \<longleftrightarrow> (let b = byte c in (48 \<le> b \<and> b \<le> 57) \<or> (65 \<le> b \<and> b \<le> 90) \<or> (97 \<le> b \<and> b \<le> 122) \<or> b = 95)"

text \<open>Actions are those of the embedded templates, a dot and a field; any other is refused.\<close>

definition field_action :: "string \<Rightarrow> string option" where
  "field_action s =
     (case s of c # f \<Rightarrow> if c = CHR ''.'' \<and> f \<noteq> [] \<and> list_all ident_char f then Some f else None | [] \<Rightarrow> None)"

function parse_template :: "string \<Rightarrow> template_node list option" where
  "parse_template s =
     (case cut ''{{'' s of
        None \<Rightarrow> Some [TText s]
      | Some (t, r) \<Rightarrow>
          (case cut ''}}'' r of
             None \<Rightarrow> None
           | Some (action, r') \<Rightarrow>
               (case field_action action of
                  None \<Rightarrow> None
                | Some f \<Rightarrow> map_option (\<lambda>ns. TText t # TField f # ns) (parse_template r'))))"
  by pat_completeness auto
termination
  by (relation "measure length") (auto dest!: cut_shorter[rotated])

declare parse_template.simps [simp del]

definition td_field :: "templateData \<Rightarrow> string \<Rightarrow> string option" where
  "td_field td f =
     (if f = ''ModuleName'' then Some (td_ModuleName td)
      else if f = ''PackageName'' then Some (td_PackageName td)
      else if f = ''GoTypeName'' then Some (td_GoTypeName td)
      else if f = ''Author'' then Some (td_Author td)
      else if f = ''Version'' then Some (td_Version td)
      else None)"

text \<open>Execution stops at a field that there is not, with the output so far.\<close>

fun execute_template :: "templateData \<Rightarrow> template_node list \<Rightarrow> string \<times> bool" where
  "execute_template td [] = ([], True)"
| "execute_template td (TText t # ns) = (let (out, ok) = execute_template td ns in (t @ out, ok))"
| "execute_template td (TField f # ns) =
     (case td_field td f of
        None \<Rightarrow> ([], False)
      | Some v \<Rightarrow> let (out, ok) = execute_template td ns in (v @ out, ok))"

definition renderTemplate ::
    "disk_env \<Rightarrow> string \<Rightarrow> string option \<Rightarrow> path \<Rightarrow> templateData \<Rightarrow> disk \<Rightarrow> scaffold_error option \<times> disk" where
  "renderTemplate env src raw dst td d =
     (case raw of
        None \<Rightarrow> (Some (TemplateUnreadable src), d)
      | Some s \<Rightarrow>
          (case parse_template s of
             None \<Rightarrow> (Some (TemplateUnparsable src), d)
           | Some ns \<Rightarrow>
               if \<not> can_create env dst \<or> lookup d dst = Some DirNode then (Some (CreateFailed dst), d)
               else
                 (let (out, ok) = execute_template td ns
                  in case write_limit env dst of
                       None \<Rightarrow> (if ok then None else Some (ExecuteFailed src), AList.update dst (FileNode out) d)
                     | Some k \<Rightarrow>
                         if k < length out then (Some (ExecuteFailed src), AList.update dst (FileNode (take k out)) d)
                         else (if ok then None else Some (ExecuteFailed src), AList.update dst (FileNode out) d))))"

text \<open>The embedded directory: its entries with their contents, if these can be read.\<close>

datatype embed_entry = EmbedDir string | EmbedFile string "string option"

fun render_all :: "disk_env \<Rightarrow> templateData \<Rightarrow> path \<Rightarrow> embed_entry list \<Rightarrow> disk \<Rightarrow> scaffold_error option \<times> disk" where
  "render_all env td dir [] d = (None, d)"
| "render_all env td dir (EmbedDir name # es) d = render_all env td dir es d"
| "render_all env td dir (EmbedFile name raw # es) d =
     (case renderTemplate env (''templates/'' @ name) raw (outputFileName dir name (td_PackageName td)) td d of
        (Some e, d') \<Rightarrow> (Some e, d')
      | (None, d') \<Rightarrow> render_all env td dir es d')"

definition output_dir :: "Config \<Rightarrow> string" where
  "output_dir cfg = (if cfg_OutputDir cfg = [] then cfg_ModuleName cfg else cfg_OutputDir cfg)"

definition template_data :: "(nat \<Rightarrow> nat) \<Rightarrow> (nat \<Rightarrow> nat) \<Rightarrow> Config \<Rightarrow> templateData" where
  "template_data ul uu cfg =
     \<lparr>td_ModuleName = cfg_ModuleName cfg, td_PackageName = toPackageName ul (cfg_ModuleName cfg),
      td_GoTypeName = toGoTypeName uu (cfg_ModuleName cfg), td_Author = cfg_Author cfg, td_Version = cfg_Version cfg\<rparr>"

definition Generate ::
    "(nat \<Rightarrow> nat) \<Rightarrow> (nat \<Rightarrow> nat) \<Rightarrow> disk_env \<Rightarrow> embed_entry list option \<Rightarrow> Config \<Rightarrow> disk \<Rightarrow> scaffold_error option \<times> disk" where
  "Generate ul uu env templateFS cfg d =
     (case validateConfig cfg of
        Some e \<Rightarrow> (Some e, d)
      | None \<Rightarrow>
          (case checkOutputDir env (output_dir cfg) d of
             (Some e, d') \<Rightarrow> (Some e, d')
           | (None, d') \<Rightarrow>
               (case templateFS of
                  None \<Rightarrow> (Some TemplatesUnreadable, d')
                | Some entries \<Rightarrow> render_all env (template_data ul uu cfg) (target env (output_dir cfg)) entries d')))"

section \<open>What is generated\<close>

text \<open>The specification: the files that the templates give, if all of them parse and have their fields.\<close>

definition expand :: "templateData \<Rightarrow> string \<Rightarrow> string option" where
  "expand td s =
     (case parse_template s of
        None \<Rightarrow> None
      | Some ns \<Rightarrow> (let (out, ok) = execute_template td ns in if ok then Some out else None))"

text \<open>The files by their names in the output directory.\<close>

definition output_name :: "templateData \<Rightarrow> string \<Rightarrow> string" where
  "output_name td tmpl = last (outputFileName [] tmpl (td_PackageName td))"

fun rendered :: "templateData \<Rightarrow> embed_entry list \<Rightarrow> (string \<times> string) list option" where
  "rendered td [] = Some []"
| "rendered td (EmbedDir name # es) = rendered td es"
| "rendered td (EmbedFile name raw # es) =
     (case raw of
        None \<Rightarrow> None
      | Some s \<Rightarrow>
          (case expand td s of
             None \<Rightarrow> None
           | Some out \<Rightarrow> map_option (\<lambda>fs. (output_name td name, out) # fs) (rendered td es)))"

text \<open>What is at a path afterwards: a new file, the last of its name, a new directory on the way, or what was there.\<close>

definition generated :: "path \<Rightarrow> path list \<Rightarrow> (string \<times> string) list \<Rightarrow> disk \<Rightarrow> path \<Rightarrow> node option" where
  "generated dir steps fs d p =
     (case (if p \<noteq> [] \<and> butlast p = dir then map_of (rev fs) (last p) else None) of
        Some out \<Rightarrow> Some (FileNode out)
      | None \<Rightarrow> if p \<in> set steps \<and> lookup d p = None then Some DirNode else lookup d p)"

definition fresh :: "disk_env \<Rightarrow> disk \<Rightarrow> string \<Rightarrow> bool" where
  "fresh env d dir \<longleftrightarrow> Stat env d dir = NotExist \<or> Stat env d dir = Found DirNode \<and> dir_entries d (target env dir) = []"

definition put_files :: "path \<Rightarrow> (string \<times> string) list \<Rightarrow> disk \<Rightarrow> disk" where
  "put_files dir fs d = fold (\<lambda>(k, v). AList.update (dir @ [k]) (FileNode v)) fs d"

lemma outputFileName_dir: "outputFileName dir tmpl pkg = dir @ [last (outputFileName [] tmpl pkg)]"
  by (simp add: outputFileName_def Let_def)

lemma renderTemplate_ok:
  assumes "benign env" and "lookup d dst \<noteq> Some DirNode"
  shows "renderTemplate env src raw dst td d = (None, d') \<longleftrightarrow>
    (\<exists>s out. raw = Some s \<and> expand td s = Some out \<and> d' = AList.update dst (FileNode out) d)"
  using assms by (auto simp: renderTemplate_def expand_def benign_def split: option.splits prod.splits)

lemma render_all_ok:
  assumes "benign env" and "\<forall>c. lookup d (dir @ [c]) \<noteq> Some DirNode"
  shows "render_all env td dir es d = (None, d') \<longleftrightarrow> (\<exists>fs. rendered td es = Some fs \<and> d' = put_files dir fs d)"
  using assms(2)
proof (induction es arbitrary: d)
  case (Cons e es)
  show ?case
  proof (cases e)
    case (EmbedFile name raw)
    let ?dst = "dir @ [output_name td name]"
    let ?r = "renderTemplate env (''templates/'' @ name) raw ?dst td d"
    have dst: "outputFileName dir name (td_PackageName td) = ?dst" unfolding output_name_def by (rule outputFileName_dir)
    have ok: "lookup d ?dst \<noteq> Some DirNode" using Cons.prems by blast
    show ?thesis
    proof (cases "\<exists>s out. raw = Some s \<and> expand td s = Some out")
      case True
      then obtain s out where so: "raw = Some s" "expand td s = Some out" by blast
      then have r: "?r = (None, AList.update ?dst (FileNode out) d)" using renderTemplate_ok[OF assms(1) ok] by blast
      have "\<forall>c. lookup (AList.update ?dst (FileNode out) d) (dir @ [c]) \<noteq> Some DirNode"
        using Cons.prems by (auto simp: lookup_update)
      note ih = Cons.IH[OF this]
      have "render_all env td dir (e # es) d = render_all env td dir es (AList.update ?dst (FileNode out) d)"
        unfolding EmbedFile render_all.simps dst r by simp
      moreover have "rendered td (e # es) = map_option (\<lambda>fs. (output_name td name, out) # fs) (rendered td es)"
        by (simp add: EmbedFile so)
      moreover have "put_files dir ((output_name td name, out) # fs) d = put_files dir fs (AList.update ?dst (FileNode out) d)" for fs
        by (simp add: put_files_def)
      ultimately show ?thesis using ih by (cases "rendered td es") simp_all
    next
      case False
      then have "?r \<noteq> (None, f)" for f using renderTemplate_ok[OF assms(1) ok] by blast
      then obtain err f where "?r = (Some err, f)" by (metis option.exhaust surj_pair)
      with False show ?thesis by (auto simp: EmbedFile dst split: option.splits)
    qed
  qed (simp add: Cons)
qed (auto simp: put_files_def)

lemma lookup_put_files:
  "lookup (put_files dir fs d) p =
     (case (if p \<noteq> [] \<and> butlast p = dir then map_of (rev fs) (last p) else None) of
        Some out \<Rightarrow> Some (FileNode out) | None \<Rightarrow> lookup d p)"
proof (induction fs arbitrary: d)
  case (Cons f fs)
  obtain k v where f: "f = (k, v)" by force
  have "p = dir @ [k] \<longleftrightarrow> p \<noteq> [] \<and> butlast p = dir \<and> last p = k" by (metis append_butlast_last_id butlast_snoc last_snoc snoc_eq_iff_butlast)
  then have "lookup (AList.update (dir @ [k]) (FileNode v) d) p =
      (if p \<noteq> [] \<and> butlast p = dir \<and> last p = k then Some (FileNode v) else lookup d p)"
    by (auto simp: lookup_update)
  moreover have "map_of (rev (f # fs)) x = (case map_of (rev fs) x of None \<Rightarrow> if x = k then Some v else None | Some y \<Rightarrow> Some y)" for x
    by (cases "map_of (rev fs) x") (auto simp: f map_add_def)
  ultimately show ?case
    using Cons[of "AList.update (dir @ [k]) (FileNode v) d"] by (simp add: put_files_def f split: option.split)
qed (simp add: put_files_def lookup_def)

text \<open>Nothing is touched if the output path names a file or a directory with something in it.\<close>

lemma Generate_touches_fresh_only:
  assumes "Generate ul uu env templateFS cfg d = (e, d')" and "d' \<noteq> d"
  shows "fresh env d (output_dir cfg)"
  using assms
  by (auto simp: Generate_def checkOutputDir_def fresh_def ReadDir_def
      split: option.splits stat_result.splits node.splits prod.splits if_splits)

text \<open>The check accepts a fresh path, and leaves its target empty.\<close>

lemma check_fresh:
  assumes "benign env" and "wf_disk d" and "''..'' \<notin> set (Split (CHR ''/'') dir)" and "lookup d (start_of env dir) = Some DirNode"
  shows "fst (checkOutputDir env dir d) = None \<longleftrightarrow> fresh env d dir"
    and "fresh env d dir \<Longrightarrow> \<forall>c. lookup (snd (checkOutputDir env dir d)) (target env dir @ [c]) = None"
    and "fresh env d dir \<Longrightarrow> lookup (snd (checkOutputDir env dir d)) p =
       (if p \<in> set (path_steps env dir) \<and> lookup d p = None then Some DirNode else lookup d p)"
proof -
  have all: "list_all (can_stat env) ps" for ps using assms(1) by (simp add: benign_def list_all_iff)
  note ne = not_exist_missing[OF _ assms(3,2,1,4), folded path_steps_def target_def]
  have look: "lookup d q = None \<Longrightarrow> q \<notin> set (path_steps env dir)" if "Stat env d dir = Found n" for q n
  proof -
    have "stat_steps d m ps = Found n \<Longrightarrow> \<forall>q \<in> set ps. lookup d q \<noteq> None" for m ps
      by (induction d m ps rule: stat_steps.induct) (auto split: option.splits)
    from this[of DirNode "path_steps env dir"] show "lookup d q = None \<Longrightarrow> q \<notin> set (path_steps env dir)"
      using that by (auto simp: Stat_def all)
  qed
  have "(fst (checkOutputDir env dir d) = None \<longleftrightarrow> fresh env d dir) \<and> (fresh env d dir \<longrightarrow>
      (\<forall>c. lookup (snd (checkOutputDir env dir d)) (target env dir @ [c]) = None) \<and>
      (\<forall>p. lookup (snd (checkOutputDir env dir d)) p =
        (if p \<in> set (path_steps env dir) \<and> lookup d p = None then Some DirNode else lookup d p)))"
  proof (cases "Stat env d dir")
    case NotExist
    then have st: "stat_steps d DirNode (path_steps env dir) = NotExist" by (simp add: Stat_def all)
    obtain ok d' where m: "mkdirs env (path_steps env dir) d = (ok, d')" by force
    have ok: "ok" using ne(1)[OF st] m by simp
    have look': "lookup d' p = (if p \<in> set (path_steps env dir) \<and> lookup d p = None then Some DirNode else lookup d p)" for p
      using mkdirs_lookup[of env "path_steps env dir" d d'] m ok by simp
    have "target env dir @ [c] \<notin> set (path_steps env dir)" for c
    proof
      assume "target env dir @ [c] \<in> set (path_steps env dir)"
      then obtain r where "last (start_of env dir # path_steps env dir) = (target env dir @ [c]) @ r"
        using no_dotdot_walk[OF assms(3)] unfolding path_steps_def by blast
      then have "target env dir = target env dir @ c # r" by (simp add: target_def)
      then show False by simp
    qed
    then show ?thesis using NotExist m ok look' ne(2)[OF st]
      by (simp add: checkOutputDir_def MkdirAll_def fresh_def)
  next
    case StatFails
    then show ?thesis by (simp add: checkOutputDir_def fresh_def)
  next
    case (Found n)
    then show ?thesis using assms(1) look[OF Found]
      by (cases n) (auto simp: checkOutputDir_def fresh_def ReadDir_def benign_def dir_entries_lookup)
  qed
  then show "fst (checkOutputDir env dir d) = None \<longleftrightarrow> fresh env d dir"
    and "fresh env d dir \<Longrightarrow> \<forall>c. lookup (snd (checkOutputDir env dir d)) (target env dir @ [c]) = None"
    and "fresh env d dir \<Longrightarrow> lookup (snd (checkOutputDir env dir d)) p =
       (if p \<in> set (path_steps env dir) \<and> lookup d p = None then Some DirNode else lookup d p)" by blast+
qed

text \<open>
  C32: On a disk that allows it, and for an output path without \<open>..\<close>, a module is generated exactly when its name is
  valid, the output directory is missing or empty, and every template parses and names only fields that there are;
  then the directory holds the expansion of each template under its name, the module's source under
  that of the package, the missing directories on the way to it have been made, and nothing else on the disk has changed.
\<close>

theorem generate_exact:
  assumes "benign env" and "wf_disk d" and "''..'' \<notin> set (Split (CHR ''/'') (output_dir cfg))"
    and "lookup d (start_of env (output_dir cfg)) = Some DirNode"
    and "Generate ul uu env (Some es) cfg d = (e, d')"
  shows "(e = None \<longleftrightarrow>
      validateConfig cfg = None \<and> fresh env d (output_dir cfg) \<and> rendered (template_data ul uu cfg) es \<noteq> None)
    \<and> (e = None \<longrightarrow> (\<forall>p. lookup d' p = generated (target env (output_dir cfg)) (path_steps env (output_dir cfg))
          (the (rendered (template_data ul uu cfg) es)) d p))"
proof -
  let ?dir = "output_dir cfg" and ?td = "template_data ul uu cfg"
  note check = check_fresh[OF assms(1-4)]
  obtain ce d1 where c: "checkOutputDir env ?dir d = (ce, d1)" by force
  show ?thesis
  proof (cases "validateConfig cfg = None \<and> fresh env d ?dir")
    case True
    then have ce: "ce = None" using check(1) c by simp
    with True c assms(5) have g: "render_all env ?td (target env ?dir) es d1 = (e, d')" by (simp add: Generate_def)
    have "\<forall>n. lookup d1 (target env ?dir @ [n]) \<noteq> Some DirNode" using check(2) True c by simp
    note ok = render_all_ok[OF assms(1) this, of ?td es d']
    have d1: "lookup d1 p = (if p \<in> set (path_steps env ?dir) \<and> lookup d p = None then Some DirNode else lookup d p)" for p
      using check(3)[of p] True c by simp
    have "lookup d' p = generated (target env ?dir) (path_steps env ?dir) fs d p" if "d' = put_files (target env ?dir) fs d1" for fs p
      unfolding that lookup_put_files generated_def d1 by (rule refl)
    moreover have "e = None \<longleftrightarrow> rendered ?td es \<noteq> None"
    proof
      show "e = None \<Longrightarrow> rendered ?td es \<noteq> None" using ok g by auto
      assume "rendered ?td es \<noteq> None"
      then obtain fs where "rendered ?td es = Some fs" by blast
      then have "render_all env ?td (target env ?dir) es d1 = (None, put_files (target env ?dir) fs d1)"
        using render_all_ok[OF assms(1) \<open>\<forall>n. lookup d1 (target env ?dir @ [n]) \<noteq> Some DirNode\<close>] by blast
      with g show "e = None" by simp
    qed
    moreover have "d' = put_files (target env ?dir) (the (rendered ?td es)) d1" if "e = None" using ok g that by auto
    ultimately show ?thesis using True by blast
  next
    case False
    have "e \<noteq> None"
    proof (cases "validateConfig cfg")
      case None
      then have "ce \<noteq> None" using False check(1) c by simp
      then show ?thesis using assms(5) None c by (auto simp: Generate_def)
    next
      case (Some x)
      have "e = Some x" using assms(5) unfolding Generate_def Some by simp
      then show ?thesis by simp
    qed
    with False show ?thesis by auto
  qed
qed

definition open_disk :: disk_env where
  "open_disk = \<lparr>cwd = [''home''], can_stat = (\<lambda>_. True), can_list = (\<lambda>_. True), can_mkdir = (\<lambda>_. True), can_create = (\<lambda>_. True),
     write_limit = (\<lambda>_. None)\<rparr>"

definition go_mod_template :: embed_entry where
  "go_mod_template = EmbedFile ''go.mod.tmpl'' (Some (''module github.com/YOUR_USERNAME/{{.ModuleName}}'' @ [CHR 0x0A]))"

lemma generate_exact_witness:
  "\<exists>d'. Generate id id open_disk (Some [go_mod_template])
       \<lparr>cfg_ModuleName = ''m'', cfg_Author = [], cfg_Version = ''0.1.0'', cfg_OutputDir = ''a/b''\<rparr> [([''home''], DirNode)] = (None, d') \<and>
     lookup d' [''home'', ''a''] = Some DirNode \<and>
     lookup d' [''home'', ''a'', ''b'', ''go.mod''] = Some (FileNode (''module github.com/YOUR_USERNAME/m'' @ [CHR 0x0A]))"
proof -
  let ?cfg = "\<lparr>cfg_ModuleName = ''m'', cfg_Author = [], cfg_Version = ''0.1.0'', cfg_OutputDir = ''a/b''\<rparr>"
  let ?d = "[([''home''], DirNode)]"
  have t: "TrimSpace ''m'' = ''m''" by (rule TrimSpace_id) (simp_all add: ascii_def byte_def graphic_def IsSpace_def)
  have v: "validateConfig ?cfg = None" by (simp add: validateConfig_def t ContainsAny_def)
  have p: "parse_template (''module github.com/YOUR_USERNAME/{{.ModuleName}}'' @ [CHR 0x0A]) =
      Some [TText ''module github.com/YOUR_USERNAME/'', TField ''ModuleName'', TText [CHR 0x0A]]"
    by (simp add: parse_template.simps[of "_ # _"] HasPrefix_def field_action_def ident_char_def byte_def)
  have n: "output_name td ''go.mod.tmpl'' = ''go.mod''" for td
    by (simp add: output_name_def outputFileName_def TrimSuffix_def HasSuffix_def Let_def)
  have r: "rendered (template_data id id ?cfg) [go_mod_template] = Some [(''go.mod'', ''module github.com/YOUR_USERNAME/m'' @ [CHR 0x0A])]"
    using p by (simp add: go_mod_template_def expand_def template_data_def td_field_def n)
  have o: "output_dir ?cfg = ''a/b''" by (simp add: output_dir_def)
  have s: "path_steps open_disk ''a/b'' = [[''home'', ''a''], [''home'', ''a'', ''b'']]" "target open_disk ''a/b'' = [''home'', ''a'', ''b'']"
    "start_of open_disk ''a/b'' = [''home'']"
    by (simp_all add: path_steps_def target_def start_of_def open_disk_def Let_def)
  have f: "fresh open_disk ?d ''a/b''" by (simp add: fresh_def Stat_def s lookup_def) (simp add: open_disk_def)
  obtain e d' where g: "Generate id id open_disk (Some [go_mod_template]) ?cfg ?d = (e, d')" by force
  have "benign open_disk" "wf_disk ?d" "''..'' \<notin> set (Split (CHR ''/'') (output_dir ?cfg))" "lookup ?d (start_of open_disk (output_dir ?cfg)) = Some DirNode"
    by (simp_all add: benign_def open_disk_def wf_disk_def lookup_def o start_of_def)
  note ge = generate_exact[OF this g, unfolded o s r]
  have e: "e = None" using ge v f by simp
  have l: "lookup ?d p = (if p = [] \<or> p = [''home''] then Some DirNode else None)" for p by (simp add: lookup_def)
  have "lookup d' p = generated [''home'', ''a'', ''b''] [[''home'', ''a''], [''home'', ''a'', ''b'']]
      [(''go.mod'', ''module github.com/YOUR_USERNAME/m'' @ [CHR 0x0A])] ?d p" for p using ge e by simp
  then show ?thesis using g e by (intro exI[of _ d']) (simp add: generated_def l)
qed

section \<open>What the checks let through\<close>

text \<open>
  The check of the name is not that of an identifier: a name of dashes gives a package and a type
  without a name, and their files do not compile.
\<close>

lemma dashes_pass:
  assumes "0 < n"
  shows "validateConfig \<lparr>cfg_ModuleName = replicate n (CHR ''-''), cfg_Author = a, cfg_Version = v, cfg_OutputDir = d\<rparr> = None
    \<and> toPackageName ul (replicate n (CHR ''-'')) = [] \<and> toGoTypeName uu (replicate n (CHR ''-'')) = []"
proof -
  have a: "ascii (replicate n (CHR ''-''))" by (auto simp: ascii_def byte_def)
  have "TrimSpace (replicate n (CHR ''-'')) = replicate n (CHR ''-'')"
    by (rule TrimSpace_id) (use assms a in \<open>simp_all add: graphic_def byte_def IsSpace_def\<close>)
  moreover have "\<not> ContainsAny (replicate n (CHR ''-'')) [CHR '' '', CHR 0x09, CHR 0x0A, CHR ''/'', CHR 0x5C]"
    by (auto simp: ContainsAny_def)
  moreover have "type_name_from uu cap (map byte (replicate n (CHR ''-''))) = []" for cap
    by (induction n arbitrary: cap) (simp_all add: byte_def)
  ultimately show ?thesis
    using assms by (simp add: validateConfig_def toPackageName_def RemoveChar_def toGoTypeName_def runes_ascii[OF a])
qed

text \<open>
  A path through a missing directory and back is missing for \<open>Stat\<close>, and \<open>MkdirAll\<close> makes it valid: so the check
  accepts it although it names a directory with files in it, which are then overwritten.
\<close>

lemma dotdot_defeats_check:
  "let d = [([''home'', ''b'', ''go.mod''], FileNode ''old''), ([''home'', ''b''], DirNode), ([''home''], DirNode)]
   in target open_disk ''x/../b'' = [''home'', ''b''] \<and> dir_entries d [''home'', ''b''] \<noteq> [] \<and>
      fst (checkOutputDir open_disk ''x/../b'' d) = None"
  by (simp add: Let_def target_def path_steps_def start_of_def open_disk_def dir_entries_def checkOutputDir_def Stat_def MkdirAll_def
      lookup_def)

text \<open>
  Nothing is escaped: the author is written as it is into a string literal of the generated source,
  so that a quotation mark in it ends the literal.
\<close>

lemma author_is_not_escaped:
  "execute_template td [TText (''Author: '' @ [CHR 0x22]), TField ''Author'', TText ([CHR 0x22] @ '','')] =
     (''Author: '' @ [CHR 0x22] @ td_Author td @ [CHR 0x22] @ '','', True)"
  by (simp add: td_field_def)

end
