(* ===== verification/Go_Flag.thy ===== *)
theory Go_Flag
  imports Go_Strings
begin

text \<open>
  Flags as package \<open>flag\<close> parses them, for the three kinds of flag the command line defines. A flag
  set is a map from names to the values the flags have, at first their defaults; parsing
  gives the values and the arguments that are left.
\<close>

section \<open>Values\<close>

datatype flag_value = VString string | VBool bool | VInt int

type_synonym flag_set = "string \<rightharpoonup> flag_value"

definition ParseBool :: "string \<Rightarrow> bool option" where
  "ParseBool s =
     (if s \<in> {''1'', ''t'', ''T'', ''true'', ''TRUE'', ''True''} then Some True
      else if s \<in> {''0'', ''f'', ''F'', ''false'', ''FALSE'', ''False''} then Some False
      else None)"

text \<open>\<open>strconv.ParseInt\<close> with base 0: an optional sign, a prefix for the base, digits and underscores.\<close>

definition digit_of :: "char \<Rightarrow> nat option" where
  "digit_of c =
     (let b = byte (lower_ascii c) in
      if 48 \<le> b \<and> b \<le> 57 then Some (b - 48) else if 97 \<le> b \<and> b \<le> 122 then Some (b - 87) else None)"

fun read_base :: "nat \<Rightarrow> nat \<Rightarrow> string \<Rightarrow> nat option" where
  "read_base b acc [] = Some acc"
| "read_base b acc (c # s) =
     (if c = CHR ''_'' then read_base b acc s
      else case digit_of c of
        None \<Rightarrow> None
      | Some d \<Rightarrow> if d < b then read_base b (acc * b + d) s else None)"

definition split_base :: "string \<Rightarrow> nat \<times> string" where
  "split_base s =
     (case s of
        c # s1 \<Rightarrow>
          if c \<noteq> CHR ''0'' then (10, s)
          else
            (case s1 of
               x # s2 \<Rightarrow>
                 if length s \<ge> 3 \<and> lower_ascii x = CHR ''b'' then (2, s2)
                 else if length s \<ge> 3 \<and> lower_ascii x = CHR ''o'' then (8, s2)
                 else if length s \<ge> 3 \<and> lower_ascii x = CHR ''x'' then (16, s2)
                 else (8, s1)
             | [] \<Rightarrow> (8, s1))
      | [] \<Rightarrow> (10, []))"

definition strip_sign :: "string \<Rightarrow> bool \<times> string" where
  "strip_sign s =
     (case s of c # s' \<Rightarrow> if c = CHR ''+'' then (False, s') else if c = CHR ''-'' then (True, s') else (False, s) | [] \<Rightarrow> (False, []))"

text \<open>\<open>underscoreOK\<close>, over the class of the character before: a digit, an underscore, or another.\<close>

datatype char_class = CDigit | CUnderscore | COther

fun underscores :: "bool \<Rightarrow> char_class \<Rightarrow> string \<Rightarrow> bool" where
  "underscores hex i [] \<longleftrightarrow> i \<noteq> CUnderscore"
| "underscores hex i (c # s) \<longleftrightarrow>
     (if (48 \<le> byte c \<and> byte c \<le> 57) \<or> (hex \<and> 97 \<le> byte (lower_ascii c) \<and> byte (lower_ascii c) \<le> 102) then underscores hex CDigit s
      else if c = CHR ''_'' then i = CDigit \<and> underscores hex CUnderscore s
      else i \<noteq> CUnderscore \<and> underscores hex COther s)"

definition underscoreOK :: "string \<Rightarrow> bool" where
  "underscoreOK s0 \<longleftrightarrow>
     (let s = snd (strip_sign s0) in
      case s of
        c # x # s2 \<Rightarrow>
          if c = CHR ''0'' \<and> lower_ascii x \<in> {CHR ''b'', CHR ''o'', CHR ''x''} then underscores (lower_ascii x = CHR ''x'') CDigit s2
          else underscores False COther s
      | _ \<Rightarrow> underscores False COther s)"

definition ParseInt0 :: "string \<Rightarrow> int option" where
  "ParseInt0 s0 =
     (let (neg, s) = strip_sign s0; (b, ds) = split_base s in
      if s = [] then None
      else case read_base b 0 ds of
        None \<Rightarrow> None
      | Some n \<Rightarrow>
          if CHR ''_'' \<in> set ds \<and> \<not> underscoreOK s0 then None
          else if in_int64 (if neg then - int n else int n) then Some (if neg then - int n else int n)
          else None)"

definition set_value :: "flag_value \<Rightarrow> string \<Rightarrow> flag_value option" where
  "set_value old v =
     (case old of
        VString _ \<Rightarrow> Some (VString v)
      | VBool _ \<Rightarrow> map_option VBool (ParseBool v)
      | VInt _ \<Rightarrow> map_option VInt (ParseInt0 v))"

section \<open>Parsing\<close>

datatype flag_error = BadSyntax string | Undefined string | ErrHelp | InvalidValue string string | NeedsArgument string

datatype one_result = NoFlag "string list" | FlagError flag_error | FlagSet flag_set "string list"

text \<open>A name and the value after the first equals sign that is not at its beginning.\<close>

fun split_equals :: "string \<Rightarrow> string \<times> string option" where
  "split_equals [] = ([], None)"
| "split_equals (c # s) =
     (if c = CHR ''='' then ([], Some s) else (let (n, v) = split_equals s in (c # n, v)))"

definition split_name :: "string \<Rightarrow> string \<times> string option" where
  "split_name s = (case s of [] \<Rightarrow> ([], None) | c # s' \<Rightarrow> (let (n, v) = split_equals s' in (c # n, v)))"

definition parseOne :: "flag_set \<Rightarrow> string list \<Rightarrow> one_result" where
  "parseOne fs args =
     (case args of
        [] \<Rightarrow> NoFlag []
      | s # rest \<Rightarrow>
          if length s < 2 \<or> hd s \<noteq> CHR ''-'' then NoFlag args
          else if s = ''--'' then NoFlag rest
          else
            (let text = (if s ! 1 = CHR ''-'' then drop 2 s else drop 1 s)
             in if text = [] \<or> hd text = CHR ''-'' \<or> hd text = CHR ''='' then FlagError (BadSyntax s)
                else
                  (let (name, value) = split_name text
                   in case fs name of
                        None \<Rightarrow> FlagError (if name = ''help'' \<or> name = ''h'' then ErrHelp else Undefined name)
                      | Some old \<Rightarrow>
                          (case (old, value) of
                             (VBool b, None) \<Rightarrow> FlagSet (fs(name \<mapsto> VBool True)) rest
                           | (_, Some v) \<Rightarrow>
                               (case set_value old v of
                                  None \<Rightarrow> FlagError (InvalidValue v name)
                                | Some new \<Rightarrow> FlagSet (fs(name \<mapsto> new)) rest)
                           | (_, None) \<Rightarrow>
                               (case rest of
                                  [] \<Rightarrow> FlagError (NeedsArgument name)
                                | v # rest' \<Rightarrow>
                                    (case set_value old v of
                                       None \<Rightarrow> FlagError (InvalidValue v name)
                                     | Some new \<Rightarrow> FlagSet (fs(name \<mapsto> new)) rest'))))))"

lemma parseOne_shorter: "parseOne fs args = FlagSet fs' rest \<Longrightarrow> length rest < length args"
  by (auto simp: parseOne_def Let_def split: list.splits if_splits prod.splits option.splits flag_value.splits)

function Parse :: "flag_set \<Rightarrow> string list \<Rightarrow> flag_error + flag_set \<times> string list" where
  "Parse fs args =
     (case parseOne fs args of
        NoFlag rest \<Rightarrow> Inr (fs, rest)
      | FlagError e \<Rightarrow> Inl e
      | FlagSet fs' rest \<Rightarrow> Parse fs' rest)"
  by pat_completeness auto
termination
  by (relation "measure (\<lambda>(fs, args). length args)") (auto dest: parseOne_shorter)

declare Parse.simps [simp del]

definition string_flag :: "string \<Rightarrow> flag_set \<Rightarrow> string" where
  "string_flag name fs = (case fs name of Some (VString v) \<Rightarrow> v | _ \<Rightarrow> [])"

definition bool_flag :: "string \<Rightarrow> flag_set \<Rightarrow> bool" where
  "bool_flag name fs = (case fs name of Some (VBool b) \<Rightarrow> b | _ \<Rightarrow> False)"

text \<open>A name that a program can give to a flag.\<close>

definition flag_name :: "string \<Rightarrow> bool" where
  "flag_name n \<longleftrightarrow> n \<noteq> [] \<and> hd n \<noteq> CHR ''-'' \<and> CHR ''='' \<notin> set n"

lemma split_equals_plain [simp]: "CHR ''='' \<notin> set n \<Longrightarrow> split_equals n = (n, None)"
  by (induction n) auto

lemma split_equals_value [simp]: "CHR ''='' \<notin> set n \<Longrightarrow> split_equals (n @ CHR ''='' # v) = (n, Some v)"
  by (induction n) auto

lemma split_name_plain: "flag_name n \<Longrightarrow> split_name n = (n, None)"
  by (cases n) (auto simp: flag_name_def split_name_def)

lemma split_name_value: "flag_name n \<Longrightarrow> split_name (n @ CHR ''='' # v) = (n, Some v)"
  by (cases n) (auto simp: flag_name_def split_name_def)

text \<open>
  The three ways to give a string flag agree, for every value, also one that looks like a flag.
\<close>

lemma parse_string_flag:
  assumes "flag_name n" and "fs n = Some (VString old)"
  shows "Parse fs ((''--'' @ n) # v # rest) = Parse (fs(n \<mapsto> VString v)) rest"
    and "Parse fs ((CHR ''-'' # n) # v # rest) = Parse (fs(n \<mapsto> VString v)) rest"
    and "Parse fs ((''--'' @ n @ CHR ''='' # v) # rest) = Parse (fs(n \<mapsto> VString v)) rest"
proof -
  obtain c n' where n: "n = c # n'" "c \<noteq> CHR ''-''" "c \<noteq> CHR ''=''" using assms(1) by (cases n) (auto simp: flag_name_def)
  show "Parse fs ((''--'' @ n) # v # rest) = Parse (fs(n \<mapsto> VString v)) rest"
    using assms n split_name_plain[OF assms(1)] by (simp add: Parse.simps[of fs "_ # _"] parseOne_def set_value_def)
  show "Parse fs ((CHR ''-'' # n) # v # rest) = Parse (fs(n \<mapsto> VString v)) rest"
    using assms n split_name_plain[OF assms(1)] by (simp add: Parse.simps[of fs "_ # _"] parseOne_def set_value_def)
  show "Parse fs ((''--'' @ n @ CHR ''='' # v) # rest) = Parse (fs(n \<mapsto> VString v)) rest"
    using assms n split_name_value[OF assms(1)] by (simp add: Parse.simps[of fs "_ # _"] parseOne_def set_value_def)
qed

lemma parse_stops: "length s < 2 \<or> hd s \<noteq> CHR ''-'' \<Longrightarrow> Parse fs (s # rest) = Inr (fs, s # rest)"
  by (simp add: Parse.simps[of fs "_ # _"] parseOne_def)

lemma parse_nothing [simp]: "Parse fs [] = Inr (fs, [])"
  by (simp add: Parse.simps[of fs "[]"] parseOne_def)

end
