(* ===== verification/Audit_Appender.thy ===== *)
theory Audit_Appender
  imports Audit_Chain
begin

text \<open>
  The log file of the audit trail, \<open>core/audit/local_appender.go\<close>: opening, appending a block as a
  line of JSON, and rotation when the size limit would be passed.

  The file system is a map from paths to contents; \<open>ok\<close> says which system calls of an operation
  succeed and \<open>wr\<close> how a write ends, \<open>None\<close> for success or \<open>Some k\<close> for a failure after \<open>k\<close>
  bytes. The buffered writer is flushed by every append, so outside an operation its buffer is
  empty, unless a write has failed: then it keeps returning that error (\<open>w_err\<close>).
\<close>

section \<open>State\<close>

datatype handle = NoFile | OpenFile | ClosedFile

datatype io_op = IO_open | IO_stat | IO_close | IO_rename

datatype append_error =
    AppMarshal | AppOpen | AppFlush | AppClose | AppRename | AppWrite | NilWriter

type_synonym files = "string \<rightharpoonup> string"

text \<open>\<open>rotated\<close> is a history variable: the paths the log was renamed to, in order.\<close>

record LocalAppender =
  filePath :: string
  file_handle :: handle
  w_err :: bool
  RotationLimitBytes :: int
  currentSize :: int
  fs :: files
  rotated :: "string list"

definition NewLocalAppender :: "string \<Rightarrow> files \<Rightarrow> LocalAppender" where
  "NewLocalAppender path f =
     \<lparr>filePath = path, file_handle = NoFile, w_err = False, RotationLimitBytes = 10 * 1024 * 1024,
      currentSize = 0, fs = f, rotated = []\<rparr>"

definition block_json :: "Block \<Rightarrow> string option" where
  "block_json b =
     (case (time_json (Timestamp b), event_json (block_Event b)) of
        (Some ts, Some ev) \<Rightarrow> Some (''{'' @ json_member (''index'', JInt (uint (Index b))) @ '',''
           @ json_member (''timestamp'', ts) @ '','' @ json_string ''event'' @ '':'' @ ev @ '',''
           @ json_member (''previous_hash'', JStr (PreviousHash b)) @ '',''
           @ json_member (''hash'', JStr (Hash b)) @ ''}'')
      | _ \<Rightarrow> None)"

definition Open :: "(io_op \<Rightarrow> bool) \<Rightarrow> LocalAppender \<Rightarrow> append_error option \<times> LocalAppender" where
  "Open ok a =
     (if \<not> ok IO_open then (Some AppOpen, a)
      else
        (let content = (case fs a (filePath a) of None \<Rightarrow> [] | Some c \<Rightarrow> c);
             size = (if ok IO_stat then int (length content) else currentSize a)
         in (None, a\<lparr>fs := (fs a)(filePath a \<mapsto> content), currentSize := size, file_handle := OpenFile,
                w_err := False\<rparr>)))"

definition Close_app :: "(io_op \<Rightarrow> bool) \<Rightarrow> LocalAppender \<Rightarrow> append_error option \<times> LocalAppender" where
  "Close_app ok a =
     (if file_handle a = NoFile then (None, a)
      else if w_err a then (Some AppFlush, a)
      else if file_handle a = ClosedFile \<or> \<not> ok IO_close then (Some AppClose, a\<lparr>file_handle := ClosedFile\<rparr>)
      else (None, a\<lparr>file_handle := ClosedFile\<rparr>))"

definition rotatedPath :: "string \<Rightarrow> LocalAppender \<Rightarrow> string" where
  "rotatedPath stamp a =
     (if RotationLimitBytes a = 100 then filePath a @ ''.1'' else filePath a @ ''.'' @ stamp)"

definition rotate_log :: "(io_op \<Rightarrow> bool) \<Rightarrow> string \<Rightarrow> LocalAppender \<Rightarrow> append_error option \<times> LocalAppender" where
  "rotate_log ok stamp a =
     (if w_err a then (Some AppFlush, a)
      else if file_handle a \<noteq> OpenFile \<or> \<not> ok IO_close then (Some AppClose, a\<lparr>file_handle := ClosedFile\<rparr>)
      else
        (let a1 = a\<lparr>file_handle := ClosedFile\<rparr> in
         case fs a (filePath a) of
           None \<Rightarrow> (Some AppRename, a1)
         | Some content \<Rightarrow>
             if \<not> ok IO_rename then (Some AppRename, a1)
             else Open ok (a1\<lparr>fs := (fs a)(filePath a := None, rotatedPath stamp a \<mapsto> content), currentSize := 0,
                    rotated := rotated a @ [rotatedPath stamp a]\<rparr>)))"

text \<open>\<open>bufio.Writer\<close> has a buffer of 4096 bytes; longer data goes to the file at once.\<close>

definition writeLine ::
    "nat option \<Rightarrow> string \<Rightarrow> LocalAppender \<Rightarrow> append_error option \<times> LocalAppender" where
  "writeLine wr data a =
     (if w_err a then (Some AppWrite, a)
      else
        (let old = (case fs a (filePath a) of None \<Rightarrow> [] | Some c \<Rightarrow> c);
             failed = (if file_handle a = OpenFile then wr else Some 0)
         in case failed of
              None \<Rightarrow> (None, a\<lparr>fs := (fs a)(filePath a \<mapsto> old @ data),
                          currentSize := currentSize a + int (length data)\<rparr>)
            | Some k \<Rightarrow>
                (let n = (if 4096 < length data then min k (length data) else length data) in
                 (Some AppWrite, a\<lparr>fs := (if file_handle a = OpenFile then (fs a)(filePath a \<mapsto> old @ take k data) else fs a),
                    currentSize := currentSize a + int n, w_err := True\<rparr>))))"

definition AppendBlock ::
    "(io_op \<Rightarrow> bool) \<Rightarrow> nat option \<Rightarrow> string \<Rightarrow> Block \<Rightarrow> LocalAppender \<Rightarrow> append_error option \<times> LocalAppender" where
  "AppendBlock ok wr stamp b a =
     (case block_json b of
        None \<Rightarrow> (Some AppMarshal, a)
      | Some js \<Rightarrow>
          (let data = js @ [CHR 0x0A] in
           if file_handle a = NoFile then (Some NilWriter, a)
           else if currentSize a + int (length data) > RotationLimitBytes a then
             (case rotate_log ok stamp a of
                (Some e, a1) \<Rightarrow> (Some e, a1)
              | (None, a1) \<Rightarrow> writeLine wr data a1)
           else writeLine wr data a))"

text \<open>A sequence of appends, each with the outcomes of its system calls and the time stamp of its moment.\<close>

type_synonym append_call = "(io_op \<Rightarrow> bool) \<times> nat option \<times> string \<times> Block"

fun appendRun :: "append_call list \<Rightarrow> LocalAppender \<Rightarrow> append_error option list \<times> LocalAppender" where
  "appendRun [] a = ([], a)"
| "appendRun ((ok, wr, stamp, b) # calls) a =
     (case AppendBlock ok wr stamp b a of
        (e, a1) \<Rightarrow> (case appendRun calls a1 of (es, a2) \<Rightarrow> (e # es, a2)))"

definition block_line :: "Block \<Rightarrow> string" where
  "block_line b = (case block_json b of None \<Rightarrow> [] | Some js \<Rightarrow> js @ [CHR 0x0A])"

section \<open>What the files hold\<close>

definition contents :: "files \<Rightarrow> string \<Rightarrow> string" where
  "contents f p = (case f p of None \<Rightarrow> [] | Some c \<Rightarrow> c)"

definition log_text :: "LocalAppender \<Rightarrow> string" where
  "log_text a = concat (map (contents (fs a)) (rotated a)) @ contents (fs a) (filePath a)"

lemma contents_upd: "contents (f(p \<mapsto> c)) q = (if q = p then c else contents f q)"
  by (simp add: contents_def)

lemma contents_del: "contents (f(p := None)) q = (if q = p then [] else contents f q)"
  by (simp add: contents_def)

lemma path_not_rotated: "filePath a \<noteq> rotatedPath stamp a"
  by (simp add: rotatedPath_def)

text \<open>
  What every operation keeps of an appender: its path, the older renamed files, and all files that are not its own.
\<close>

definition keeps :: "LocalAppender \<Rightarrow> LocalAppender \<Rightarrow> bool" where
  "keeps a a' \<longleftrightarrow> filePath a' = filePath a \<and> RotationLimitBytes a' = RotationLimitBytes a
     \<and> (\<exists>new. rotated a' = rotated a @ new \<and> filePath a \<notin> set new)
     \<and> (\<forall>p. p \<noteq> filePath a \<longrightarrow> p \<notin> set (rotated a') \<longrightarrow> fs a' p = fs a p)"

lemma keeps_refl: "keeps a a"
  by (simp add: keeps_def)

lemma keeps_trans: "keeps a b \<Longrightarrow> keeps b c \<Longrightarrow> keeps a c"
  unfolding keeps_def by (auto; metis Un_iff set_append)

text \<open>The size that the appender keeps is that of its file.\<close>

definition size_ok :: "LocalAppender \<Rightarrow> bool" where
  "size_ok a \<longleftrightarrow> currentSize a = int (length (contents (fs a) (filePath a)))"

lemma Open_keeps:
  assumes "Open ok a = (e, a')"
  shows "keeps a a'" and "log_text a' = log_text a" and "rotated a' = rotated a"
    and "ok IO_stat \<or> size_ok a \<Longrightarrow> e = None \<Longrightarrow> size_ok a'"
proof -
  have "contents ((fs a)(filePath a \<mapsto> case fs a (filePath a) of None \<Rightarrow> [] | Some c \<Rightarrow> c)) = contents (fs a)"
    by (auto simp: contents_def fun_eq_iff split: option.splits)
  with assms show "keeps a a'" "log_text a' = log_text a" "rotated a' = rotated a"
    "ok IO_stat \<or> size_ok a \<Longrightarrow> e = None \<Longrightarrow> size_ok a'"
    by (auto simp: Open_def keeps_def log_text_def size_ok_def contents_def Let_def split: if_splits option.splits)
qed

lemma writeLine_keeps:
  assumes "writeLine wr d a = (e, a')" and "filePath a \<notin> set (rotated a)"
  shows "keeps a a'" and "\<exists>k. log_text a' = log_text a @ take k d \<and> (e = None \<longrightarrow> take k d = d)"
    and "rotated a' = rotated a" and "size_ok a \<Longrightarrow> e = None \<Longrightarrow> size_ok a'"
proof -
  have olds: "map (contents ((fs a)(filePath a \<mapsto> c))) (rotated a) = map (contents (fs a)) (rotated a)" for c
    using assms(2) by (intro map_cong) (auto simp: contents_def)
  have more: "log_text (a\<lparr>fs := (fs a)(filePath a \<mapsto> contents (fs a) (filePath a) @ t), currentSize := m, w_err := b\<rparr>) = log_text a @ t"
    "log_text (a\<lparr>fs := (fs a)(filePath a \<mapsto> contents (fs a) (filePath a) @ t), currentSize := m\<rparr>) = log_text a @ t"
    "log_text (a\<lparr>currentSize := m, w_err := b\<rparr>) = log_text a" for t m b
    by (simp_all add: log_text_def olds contents_upd)
  have c: "(case fs a (filePath a) of None \<Rightarrow> [] | Some c \<Rightarrow> c) = contents (fs a) (filePath a)" by (simp add: contents_def)
  consider "w_err a" | "\<not> w_err a" "file_handle a = OpenFile" "wr = None"
    | k where "\<not> w_err a" "file_handle a = OpenFile" "wr = Some k" | "\<not> w_err a" "file_handle a \<noteq> OpenFile" by blast
  then show "\<exists>k. log_text a' = log_text a @ take k d \<and> (e = None \<longrightarrow> take k d = d)"
  proof cases
    case 1
    with assms(1) show ?thesis by (intro exI[of _ 0]) (auto simp: writeLine_def)
  next
    case 2
    with assms(1) show ?thesis by (intro exI[of _ "length d"]) (auto simp: writeLine_def c more)
  next
    case (3 k)
    with assms(1) show ?thesis by (intro exI[of _ k]) (auto simp: writeLine_def c more Let_def)
  next
    case 4
    with assms(1) show ?thesis by (intro exI[of _ 0]) (auto simp: writeLine_def more Let_def)
  qed
  show "keeps a a'" "rotated a' = rotated a" "size_ok a \<Longrightarrow> e = None \<Longrightarrow> size_ok a'"
    using assms(1) by (auto simp: writeLine_def keeps_def size_ok_def contents_def Let_def split: if_splits option.splits)
qed

text \<open>A rotation moves the text of the log and loses none of it, if its path is new.\<close>

lemma rotate_keeps:
  assumes "rotate_log ok stamp a = (e, a')" and "filePath a \<notin> set (rotated a)"
  shows "keeps a a'"
    and "distinct (rotated a') \<Longrightarrow> rotated a' = rotated a \<or> fs a (rotatedPath stamp a) = None \<Longrightarrow> log_text a' = log_text a"
    and "rotated a' = rotated a \<or> rotated a' = rotated a @ [rotatedPath stamp a]"
    and "e = None \<Longrightarrow> size_ok a'"
proof -
  note ne = path_not_rotated[of a stamp]
  have "keeps a a' \<and> (distinct (rotated a') \<longrightarrow> rotated a' = rotated a \<or> fs a (rotatedPath stamp a) = None \<longrightarrow> log_text a' = log_text a)
    \<and> (rotated a' = rotated a \<or> rotated a' = rotated a @ [rotatedPath stamp a]) \<and> (e = None \<longrightarrow> size_ok a')"
  proof (cases "\<not> w_err a \<and> file_handle a = OpenFile \<and> ok IO_close \<and> fs a (filePath a) \<noteq> None \<and> ok IO_rename")
    case True
    then obtain c where c: "fs a (filePath a) = Some c" by blast
    let ?b = "a\<lparr>file_handle := ClosedFile, fs := (fs a)(filePath a := None, rotatedPath stamp a \<mapsto> c), currentSize := 0,
        rotated := rotated a @ [rotatedPath stamp a]\<rparr>"
    have o: "Open ok ?b = (e, a')" using assms(1) True c by (simp add: rotate_log_def Let_def)
    have b: "keeps a ?b" "size_ok ?b" using ne by (auto simp: keeps_def size_ok_def contents_def)
    have "log_text ?b = log_text a" if "distinct (rotated ?b)"
    proof -
      have m: "map (contents ((fs a)(filePath a := None, rotatedPath stamp a \<mapsto> c))) (rotated a) = map (contents (fs a)) (rotated a)"
        using that assms(2) by (intro map_cong) (auto simp: contents_def)
      have "log_text ?b = concat (map (contents (fs a)) (rotated a)) @ c"
        using ne by (simp add: log_text_def m) (simp add: contents_def)
      then show ?thesis by (simp add: log_text_def contents_def c)
    qed
    with Open_keeps[OF o] b keeps_trans show ?thesis by auto
  next
    case False
    then have "e \<noteq> None \<and> (a' = a \<or> a' = a\<lparr>file_handle := ClosedFile\<rparr>)"
      using assms(1) by (auto simp: rotate_log_def Let_def split: if_splits option.splits)
    then show ?thesis by (auto simp: keeps_def log_text_def)
  qed
  then show "keeps a a'"
    "distinct (rotated a') \<Longrightarrow> rotated a' = rotated a \<or> fs a (rotatedPath stamp a) = None \<Longrightarrow> log_text a' = log_text a"
    "rotated a' = rotated a \<or> rotated a' = rotated a @ [rotatedPath stamp a]" "e = None \<Longrightarrow> size_ok a'" by blast+
qed

lemma AppendBlock_keeps:
  assumes "AppendBlock ok wr stamp b a = (e, a')" and "filePath a \<notin> set (rotated a)"
  shows "keeps a a'"
    and "distinct (rotated a') \<Longrightarrow> \<forall>p \<in> set (rotated a'). p \<in> set (rotated a) \<or> fs a p = None \<Longrightarrow>
       \<exists>k. log_text a' = log_text a @ take k (block_line b) \<and> (e = None \<longrightarrow> take k (block_line b) = block_line b)"
    and "size_ok a \<Longrightarrow> e = None \<Longrightarrow> size_ok a'"
proof -
  let ?R = "\<lambda>e a'. keeps a a' \<and> (distinct (rotated a') \<longrightarrow> (\<forall>p \<in> set (rotated a'). p \<in> set (rotated a) \<or> fs a p = None) \<longrightarrow>
       (\<exists>k. log_text a' = log_text a @ take k (block_line b) \<and> (e = None \<longrightarrow> take k (block_line b) = block_line b)))
     \<and> (size_ok a \<longrightarrow> e = None \<longrightarrow> size_ok a')"
  have nothing: "?R (Some x) a" for x :: append_error by (auto simp: keeps_refl intro: exI[of _ 0])
  have "?R e a'"
  proof (cases "block_json b")
    case None
    then have "e = Some AppMarshal" "a' = a" using assms(1) by (simp_all add: AppendBlock_def)
    with nothing show ?thesis by (simp add: keeps_refl)
  next
    case (Some js)
    let ?d = "js @ [CHR 0x0A]"
    have d: "block_line b = ?d" using Some by (simp add: block_line_def)
    consider "file_handle a = NoFile" | "file_handle a \<noteq> NoFile" "currentSize a + int (length ?d) > RotationLimitBytes a"
      | "file_handle a \<noteq> NoFile" "\<not> currentSize a + int (length ?d) > RotationLimitBytes a" by blast
    then show ?thesis
    proof cases
      case 1
      then have "e = Some NilWriter" "a' = a" using assms(1) Some by (simp_all add: AppendBlock_def Let_def)
      with nothing show ?thesis by (simp add: keeps_refl)
    next
      case 2
      obtain e1 a1 where r: "rotate_log ok stamp a = (e1, a1)" by force
      note rk = rotate_keeps[OF r assms(2)]
      have f1: "filePath a1 \<notin> set (rotated a1)" using rk(1) assms(2) by (auto simp: keeps_def)
      have fresh: "rotated a1 = rotated a \<or> fs a (rotatedPath stamp a) = None"
        if "distinct (rotated a1)" "\<forall>p \<in> set (rotated a1). p \<in> set (rotated a) \<or> fs a p = None" using rk(3) that by auto
      show ?thesis
      proof (cases e1)
        case (Some x)
        then have "e = Some x" "a' = a1" using assms(1) r 2 \<open>block_json b = Some js\<close> by (simp_all add: AppendBlock_def Let_def)
        with rk(1,2) fresh show ?thesis by (auto intro: exI[of _ 0])
      next
        case None
        then have w: "writeLine wr ?d a1 = (e, a')" using assms(1) r 2 \<open>block_json b = Some js\<close> None by (simp add: AppendBlock_def Let_def)
        note wk = writeLine_keeps[OF w f1]
        have "log_text a1 = log_text a"
          if "distinct (rotated a')" "\<forall>p \<in> set (rotated a'). p \<in> set (rotated a) \<or> fs a p = None"
          using rk(2) fresh that wk(3) by simp
        then show ?thesis using keeps_trans[OF rk(1) wk(1)] wk(2,4) rk(4)[OF None] unfolding d by metis
      qed
    next
      case 3
      then have w: "writeLine wr ?d a = (e, a')" using assms(1) Some 3 by (simp add: AppendBlock_def Let_def)
      from writeLine_keeps[OF w assms(2)] show ?thesis unfolding d by blast
    qed
  qed
  then show "keeps a a'"
    "distinct (rotated a') \<Longrightarrow> \<forall>p \<in> set (rotated a'). p \<in> set (rotated a) \<or> fs a p = None \<Longrightarrow>
       \<exists>k. log_text a' = log_text a @ take k (block_line b) \<and> (e = None \<longrightarrow> take k (block_line b) = block_line b)"
    "size_ok a \<Longrightarrow> e = None \<Longrightarrow> size_ok a'" by blast+
qed

lemma appendRun_keeps: "appendRun calls a = (es, a') \<Longrightarrow> filePath a \<notin> set (rotated a) \<Longrightarrow> keeps a a'"
proof (induction calls a arbitrary: es a' rule: appendRun.induct)
  case (2 ok wr stamp b calls a)
  obtain e1 a1 es1 where r: "AppendBlock ok wr stamp b a = (e1, a1)" "appendRun calls a1 = (es1, a')"
    using "2.prems"(1) by (auto split: prod.splits)
  have k: "keeps a a1" by (rule AppendBlock_keeps(1)[OF r(1) "2.prems"(2)])
  then have "filePath a1 \<notin> set (rotated a1)" using "2.prems"(2) by (auto simp: keeps_def)
  from keeps_trans[OF k "2.IH"[OF r(1)[symmetric] r(2) this]] show ?case .
qed (simp add: keeps_refl)

section \<open>Theorems\<close>

text \<open>What an append adds to the trail: the line of its block, or at most a piece of it if it reports an error.\<close>

definition adds :: "string \<Rightarrow> append_call \<times> append_error option \<Rightarrow> bool" where
  "adds piece x \<longleftrightarrow> (let line = block_line (snd (snd (snd (fst x)))) in
     (\<exists>k. piece = take k line) \<and> (snd x = None \<longrightarrow> piece = line))"

lemma appendRun_log:
  assumes "appendRun calls a = (es, a')" and "filePath a \<notin> set (rotated a)" and "distinct (rotated a')"
    and "\<forall>p \<in> set (rotated a'). p \<in> set (rotated a) \<or> fs a p = None"
  shows "\<exists>pieces. log_text a' = log_text a @ concat pieces \<and> list_all2 adds pieces (zip calls es)"
    and "size_ok a \<Longrightarrow> \<forall>e \<in> set es. e = None \<Longrightarrow> size_ok a'" and "length es = length calls"
proof -
  have "(\<exists>pieces. log_text a' = log_text a @ concat pieces \<and> list_all2 adds pieces (zip calls es))
    \<and> (size_ok a \<longrightarrow> (\<forall>e \<in> set es. e = None) \<longrightarrow> size_ok a') \<and> length es = length calls"
    using assms
  proof (induction calls a arbitrary: es a' rule: appendRun.induct)
    case (1 a)
    then show ?case by (auto intro!: exI[of _ "[]"])
  next
    case (2 ok wr stamp b calls a)
    obtain e1 a1 es1 where r: "AppendBlock ok wr stamp b a = (e1, a1)" "appendRun calls a1 = (es1, a')" and es: "es = e1 # es1"
      using "2.prems"(1) by (auto split: prod.splits)
    note ab = AppendBlock_keeps[OF r(1) "2.prems"(2)]
    have f1: "filePath a1 \<notin> set (rotated a1)" using ab(1) "2.prems"(2) by (auto simp: keeps_def)
    have k': "keeps a1 a'" by (rule appendRun_keeps[OF r(2) f1])
    then obtain new where new: "rotated a' = rotated a1 @ new" by (auto simp: keeps_def)
    have sub: "set (rotated a1) \<subseteq> set (rotated a')" by (simp add: new)
    have d1: "distinct (rotated a1)" using "2.prems"(3) by (simp add: new)
    have "\<forall>p \<in> set (rotated a1). p \<in> set (rotated a) \<or> fs a p = None" using "2.prems"(4) sub by (meson subsetD)
    with ab(2)[OF d1] obtain k where k: "log_text a1 = log_text a @ take k (block_line b)"
      "e1 = None \<longrightarrow> take k (block_line b) = block_line b" by blast
    have "\<forall>p \<in> set (rotated a'). p \<in> set (rotated a1) \<or> fs a1 p = None"
    proof
      fix p assume p: "p \<in> set (rotated a')"
      have "filePath a1 \<notin> set (rotated a')" using k' f1 by (auto simp: keeps_def)
      moreover have "filePath a1 = filePath a" "set (rotated a) \<subseteq> set (rotated a1)" using ab(1) by (auto simp: keeps_def)
      moreover have "p \<notin> set (rotated a1) \<Longrightarrow> p \<noteq> filePath a \<Longrightarrow> fs a1 p = fs a p" using ab(1) by (simp add: keeps_def)
      ultimately show "p \<in> set (rotated a1) \<or> fs a1 p = None" using p "2.prems"(4) by (metis subsetD)
    qed
    from "2.IH"[OF r(1)[symmetric] r(2) f1 "2.prems"(3) this] obtain pieces
      where ih: "log_text a' = log_text a1 @ concat pieces" "list_all2 adds pieces (zip calls es1)"
        "size_ok a1 \<longrightarrow> (\<forall>e \<in> set es1. e = None) \<longrightarrow> size_ok a'" "length es1 = length calls" by blast
    have "adds (take k (block_line b)) ((ok, wr, stamp, b), e1)" using k(2) by (auto simp: adds_def Let_def)
    then have "log_text a' = log_text a @ concat (take k (block_line b) # pieces)
      \<and> list_all2 adds (take k (block_line b) # pieces) (zip ((ok, wr, stamp, b) # calls) es)"
      using k(1) ih(1,2) by (simp add: es)
    moreover have "size_ok a \<longrightarrow> (\<forall>e \<in> set es. e = None) \<longrightarrow> size_ok a'" "length es = length ((ok, wr, stamp, b) # calls)"
      using ih(3,4) ab(3) by (auto simp: es)
    ultimately show ?case by blast
  qed
  then show "\<exists>pieces. log_text a' = log_text a @ concat pieces \<and> list_all2 adds pieces (zip calls es)"
    "size_ok a \<Longrightarrow> \<forall>e \<in> set es. e = None \<Longrightarrow> size_ok a'" "length es = length calls" by blast+
qed

text \<open>
  C25: the trail is append-only and complete: whatever system calls fail, and whatever was in the file before, the
  renamed files in their order followed by the current file hold that text and then, for each append in order, the whole
  line of its block, or at most a first piece of it if the append reported an error; without errors, the size the
  appender keeps is that of the file. This holds if no rotation renamed the log to a path that existed, as the second one in the
  same second does (and, with a limit of 100, every one after the first).
\<close>

theorem append_only_log:
  assumes "Open ok (NewLocalAppender path f\<lparr>RotationLimitBytes := limit\<rparr>) = (None, a)"
    and "appendRun calls a = (es, a')" and "distinct (rotated a')" and "\<forall>p \<in> set (rotated a'). f p = None"
  shows "(\<exists>pieces. log_text a' = contents f path @ concat pieces \<and> list_all2 adds pieces (zip calls es))
    \<and> length es = length calls
    \<and> (ok IO_stat \<and> (\<forall>e \<in> set es. e = None) \<longrightarrow> currentSize a' = int (length (contents (fs a') (filePath a'))))"
proof -
  let ?n = "NewLocalAppender path f\<lparr>RotationLimitBytes := limit\<rparr>"
  note o = Open_keeps[OF assms(1)]
  have n: "rotated ?n = []" "filePath ?n = path" "fs ?n = f" "log_text ?n = contents f path"
    by (simp_all add: NewLocalAppender_def log_text_def)
  have a: "rotated a = []" "filePath a = path" "log_text a = contents f path" "\<forall>p. p \<noteq> path \<longrightarrow> fs a p = f p"
    using o(1-3) by (auto simp: n keeps_def)
  have own: "filePath a \<notin> set (rotated a)" by (simp add: a(1))
  have "path \<notin> set (rotated a')" using appendRun_keeps[OF assms(2) own] by (auto simp: keeps_def a)
  then have fresh: "\<forall>p \<in> set (rotated a'). p \<in> set (rotated a) \<or> fs a p = None" using a(4) assms(4) by metis
  note run = appendRun_log[OF assms(2) own assms(3) fresh]
  show ?thesis using run o(4) by (auto simp: a(3) size_ok_def)
qed

definition login_block :: Block where
  "login_block = \<lparr>Index = 1, Timestamp = (unix_epoch, 0), block_Event = login_event,
     PreviousHash = zero_hash, Hash = zero_hash\<rparr>"

lemma login_block_encodes: "block_json login_block \<noteq> None"
proof -
  have "time_Year (\<lambda>_. 0) unix_epoch = 1970"
    by (simp add: time_Year_def abs_days_def abs_seconds_def unix_epoch_def duration_defs
        civil_def year_yday_def Let_def split: prod.splits)
  then show ?thesis
    by (simp add: block_json_def login_block_def event_json_def login_event_def time_json_def metadata_json_def)
qed

text \<open>Two appends with a limit of 0, so that both rotate; the second write fails after two bytes.\<close>

lemma append_only_log_witness:
  "\<exists>a a' es. Open (\<lambda>_. True) (NewLocalAppender ''a.log'' Map.empty\<lparr>RotationLimitBytes := 0\<rparr>) = (None, a) \<and>
     appendRun [(\<lambda>_. True, None, ''1'', login_block), (\<lambda>_. True, Some 2, ''2'', login_block)] a = (es, a') \<and>
     es = [None, Some AppWrite] \<and> rotated a' = [''a.log.1'', ''a.log.2''] \<and>
     (\<exists>k. log_text a' = block_line login_block @ take k (block_line login_block))"
proof -
  let ?ok = "\<lambda>_ :: io_op. True"
  let ?calls = "[(?ok, None, ''1'', login_block), (?ok, Some 2, ''2'', login_block)]"
  obtain js where js: "block_json login_block = Some js" using login_block_encodes by blast
  obtain a where a: "Open ?ok (NewLocalAppender ''a.log'' Map.empty\<lparr>RotationLimitBytes := 0\<rparr>) = (None, a)"
    by (simp add: Open_def Let_def)
  obtain es a' where r: "appendRun ?calls a = (es, a')" by force
  have facts: "es = [None, Some AppWrite]" "rotated a' = [''a.log.1'', ''a.log.2'']"
    using a r by (auto simp: Open_def NewLocalAppender_def AppendBlock_def rotate_log_def writeLine_def rotatedPath_def js Let_def)
  from append_only_log[OF a r] facts obtain pieces
    where "log_text a' = concat pieces" "list_all2 adds pieces (zip ?calls es)" by (auto simp: contents_def)
  then have "\<exists>k. log_text a' = block_line login_block @ take k (block_line login_block)"
    by (auto simp: facts list_all2_Cons2 adds_def Let_def)
  with a r facts show ?thesis by blast
qed

text \<open>
  After a successful append the current file is within the limit, unless it is the one line
  of the block alone.
\<close>

lemma rotate_empties: "rotate_log ok stamp a = (None, a') \<Longrightarrow> contents (fs a') (filePath a') = [] \<and> RotationLimitBytes a' = RotationLimitBytes a"
  using path_not_rotated[of a stamp]
  by (auto simp: rotate_log_def Open_def contents_def Let_def split: if_splits option.splits)

lemma writeLine_contents: "writeLine wr d a = (None, a') \<Longrightarrow>
    contents (fs a') (filePath a') = contents (fs a) (filePath a) @ d \<and> RotationLimitBytes a' = RotationLimitBytes a"
  by (auto simp: writeLine_def contents_def Let_def split: if_splits option.splits)

lemma log_size_bounded:
  assumes "size_ok a" and "AppendBlock ok wr stamp b a = (None, a')"
  shows "int (length (contents (fs a') (filePath a'))) \<le> RotationLimitBytes a' \<or>
    contents (fs a') (filePath a') = block_line b"
proof -
  obtain js where js: "block_json b = Some js" using assms(2) by (auto simp: AppendBlock_def split: option.splits)
  have d: "block_line b = js @ [CHR 0x0A]" by (simp add: block_line_def js)
  show ?thesis
  proof (cases "currentSize a + int (length (js @ [CHR 0x0A])) > RotationLimitBytes a")
    case True
    then obtain a1 where "rotate_log ok stamp a = (None, a1)" "writeLine wr (js @ [CHR 0x0A]) a1 = (None, a')"
      using assms(2) by (auto simp: AppendBlock_def js Let_def split: if_splits prod.splits option.splits)
    with rotate_empties writeLine_contents show ?thesis by (metis append_Nil d)
  next
    case False
    then have "writeLine wr (js @ [CHR 0x0A]) a = (None, a')"
      using assms(2) by (auto simp: AppendBlock_def js Let_def split: if_splits)
    from writeLine_contents[OF this] assms(1) False show ?thesis by (simp add: size_ok_def)
  qed
qed

text \<open>
  Two rotations under one stamp lose the file of the first: the rename replaces it.
\<close>

lemma same_stamp_overwrites:
  assumes "rotate_log ok stamp a = (None, a')"
  shows "contents (fs a') (rotatedPath stamp a) = contents (fs a) (filePath a)"
  using assms path_not_rotated[of a stamp]
  by (auto simp: rotate_log_def Open_def contents_def Let_def split: if_splits option.splits)

end
