(* ===== verification/Command_Line.thy ===== *)
theory Command_Line
  imports Agent_Engine Kernel_Log Auth_Tokens Worker_Pool Telegram Discord Module_Scaffold Go_Flag Audit_Appender
begin

text \<open>
  The command line, \<open>cmd/aether\<close>: the global flags, the dispatch to the commands, and the commands
  themselves down to the components they call. A command ends by returning or by \<open>os.Exit\<close> with a status;
  what it prints for the user is a string, log lines and the usage texts are left out.
\<close>

text \<open>The level of the flag \<open>--log-level\<close>.\<close>

definition parseLogLevel :: "(nat \<Rightarrow> nat) \<Rightarrow> string \<Rightarrow> log_level" where
  "parseLogLevel ul s =
     (let l = ToLower ul s in
      if l = ''debug'' then LevelDebug else if l = ''warn'' then LevelWarn else if l = ''error'' then LevelError else LevelInfo)"

section \<open>Dispatch\<close>

datatype exit_status = Returned | Exit int

datatype command =
    CmdAuth string
  | CmdAccountDelete
  | CmdAccountUsage
  | CmdToolList
  | CmdToolUsage
  | CmdRun "string list" bool
  | CmdScaffold "string list"
  | CmdTelegram "string list"
  | CmdDiscord "string list"
  | CmdAudit "string list"
  | CmdUnknown string

definition dispatch :: "string list \<Rightarrow> bool \<Rightarrow> command" where
  "dispatch args kernelMode =
     (let c = hd args; more = length args > 1 in
      if c = ''onboard'' then CmdAuth ''signup''
      else if c = ''login'' then CmdAuth ''login''
      else if c = ''account'' then (if more \<and> args ! 1 = ''delete'' then CmdAccountDelete else CmdAccountUsage)
      else if c = ''tool'' then (if more \<and> args ! 1 = ''list'' then CmdToolList else CmdToolUsage)
      else if c = ''run'' then CmdRun (tl args) kernelMode
      else if c = ''scaffold'' then CmdScaffold (tl args)
      else if c = ''telegram'' then CmdTelegram (tl args)
      else if c = ''discord'' then CmdDiscord (tl args)
      else if c = ''audit'' then CmdAudit (tl args)
      else CmdUnknown c)"

text \<open>What \<open>dispatch\<close> answers by itself.\<close>

definition dispatch_answer :: "command \<Rightarrow> (exit_status \<times> string) option" where
  "dispatch_answer c =
     (case c of
        CmdAccountUsage \<Rightarrow> Some (Returned, ''Usage: aether account delete'' @ nl)
      | CmdToolUsage \<Rightarrow> Some (Returned, ''Usage: aether tool list'' @ nl)
      | CmdUnknown u \<Rightarrow> Some (Exit 1, ''Unknown command: '' @ u @ nl)
      | _ \<Rightarrow> None)"

definition main_flags :: flag_set where
  "main_flags = [''kernel'' \<mapsto> VBool False, ''log-level'' \<mapsto> VString ''info'']"

text \<open>The global flags: an exit, the usage text alone, or the logger and the command.\<close>

datatype main_result = MainExit int | MainUsage "slog_logger option" | MainCommand "slog_logger option" command

definition main_parse :: "(nat \<Rightarrow> nat) \<Rightarrow> string list \<Rightarrow> main_result" where
  "main_parse ul argv =
     (case Parse main_flags argv of
        Inl e \<Rightarrow> MainExit (if e = ErrHelp then 0 else 2)
      | Inr (vals, args) \<Rightarrow>
          (let logger = InitLogger (parseLogLevel ul (string_flag ''log-level'' vals)) None in
           if args = [] then MainUsage logger else MainCommand logger (dispatch args (bool_flag ''kernel'' vals))))"

text \<open>The deferred line of \<open>main\<close>, which only a command that returns reaches.\<close>

definition system_shutdown :: "slog_logger option \<Rightarrow> Telemetry \<Rightarrow> instant \<Rightarrow> timestamp \<Rightarrow> string option" where
  "system_shutdown logger tel now written =
     log_line (fst (Logger logger)) LevelInfo written ''system_shutdown'' [(''boot_latency'', JStr (FormatBootLatency tel now))]"

section \<open>The run command\<close>

definition run_flags :: flag_set where
  "run_flags = [''goal'' \<mapsto> VString [], ''tool'' \<mapsto> VString [], ''args'' \<mapsto> VString ''{}'', ''workers'' \<mapsto> VInt 4, ''pubkey'' \<mapsto> VString []]"

datatype run_action = RunExit int | RunTool string string | RunGoal string bool

definition handleRunCmd :: "string list \<Rightarrow> bool \<Rightarrow> run_action" where
  "handleRunCmd args kernelMode =
     (case Parse run_flags args of
        Inl e \<Rightarrow> RunExit 1
      | Inr (vals, rest) \<Rightarrow>
          if string_flag ''tool'' vals \<noteq> [] then RunTool (string_flag ''tool'' vals) (string_flag ''args'' vals)
          else if string_flag ''goal'' vals = [] then RunExit 1
          else RunGoal (string_flag ''goal'' vals) kernelMode)"

text \<open>
  A goal, executed by a fresh engine with the mock adapter, four workers and queues of a hundred
  places: \<open>interrupted\<close> tells that a signal came before the result; what the task had done by then is not
  determined, and the state given is that before it. The mode is logged only.
\<close>

definition runPicoMode ::
    "auth_error + JWTPayload \<Rightarrow> (ToolManifest \<Rightarrow> string + string) \<Rightarrow> (host \<Rightarrow> timestamp \<times> host) \<Rightarrow> (nat \<Rightarrow> nat)
     \<Rightarrow> string list \<Rightarrow> (nat \<Rightarrow> string list) \<Rightarrow> string \<Rightarrow> bool \<Rightarrow> bool \<Rightarrow> instant \<Rightarrow> host run_state \<Rightarrow> exit_status \<times> host run_state" where
  "runPicoMode auth marshal clk ul pord ord goal isKernel interrupted now st =
     (case auth of
        Inl e \<Rightarrow> (Exit 1, st)
      | Inr payload \<Rightarrow>
          (case RegisterTool marshal (Some SysInfoTool) (NewEngine clk (MockOllama ul) pord) of
             Inl e \<Rightarrow> (Exit 1, st)
           | Inr engine \<Rightarrow>
               (let task = (fst (GetTask []))\<lparr>t_ID := ''task_1'', t_Input := goal, t_CreatedAt := now\<rparr> in
                if fst (Submit task (init_pool 100)) \<noteq> Submitted then (Exit 1, st)
                else if interrupted then (Exit 130, st)
                else
                  (case executeEphemeral engine ord ''task_1'' goal st of
                     (Inl e, st') \<Rightarrow> (Exit 1, st')
                   | (Inr out, st') \<Rightarrow> (Returned, st')))))"

text \<open>A tool, executed at once; the output is only logged, and given here.\<close>

definition cli_registry :: "(ToolManifest \<Rightarrow> string + string) \<Rightarrow> tool_error + host ToolRegistry" where
  "cli_registry marshal = Register marshal (Some SysInfoTool) (NewToolRegistry None)"

definition runToolNative :: "(ToolManifest \<Rightarrow> string + string) \<Rightarrow> string \<Rightarrow> string \<Rightarrow> host \<Rightarrow> exit_status \<times> string" where
  "runToolNative marshal toolName args h =
     (case cli_registry marshal of
        Inl e \<Rightarrow> (Exit 1, [])
      | Inr registry \<Rightarrow>
          (case Get_tool toolName registry of
             Inl e \<Rightarrow> (Exit 1, [])
           | Inr tool \<Rightarrow>
               (case fst (tool_Execute tool args h) of Inl e \<Rightarrow> (Exit 1, []) | Inr out \<Rightarrow> (Returned, out))))"

section \<open>Listing the tools\<close>

fun capability_text :: "llm_Capability \<Rightarrow> string" where
  "capability_text CapNetwork_llm = ''network''"
| "capability_text CapFilesystem_llm = ''filesystem''"
| "capability_text CapState_llm = ''state''"

text \<open>A column of \<open>Printf\<close>, padded on the right to its width in runes.\<close>

definition column :: "nat \<Rightarrow> string \<Rightarrow> string" where
  "column w s = s @ replicate (w - length (runes s)) (CHR '' '')"

definition tool_row :: "string \<Rightarrow> string \<Rightarrow> string \<Rightarrow> string \<Rightarrow> string" where
  "tool_row name caps limits desc =
     column 15 name @ '' | '' @ column 12 caps @ '' | '' @ column 15 limits @ '' | '' @ desc @ nl"

definition tool_line :: "ToolManifest \<Rightarrow> string" where
  "tool_line m =
     tool_row (tm_Name m) (concat (map (\<lambda>c. capability_text c @ '' '') (tm_Capabilities m)))
       (show_int (MaxRuntimeMs m) @ ''ms / '' @ show_int (MemoryLimit m) @ ''MB'') (tm_Description m)"

definition listToolsCmd :: "(ToolManifest \<Rightarrow> string + string) \<Rightarrow> string list \<Rightarrow> exit_status \<times> string" where
  "listToolsCmd marshal ord =
     (case cli_registry marshal of
        Inl e \<Rightarrow> (Exit 1, [])
      | Inr registry \<Rightarrow>
          (let rule = replicate 57 (CHR ''-'') @ nl
           in (Returned, ''Available Native Tools:'' @ nl @ rule
                @ tool_row ''NAME'' ''CAPABILITIES'' ''LIMITS (ms/MB)'' ''DESCRIPTION'' @ rule
                @ concat (map tool_line (tool_Manifests registry ord)))))"

section \<open>The scaffold command\<close>

definition scaffold_flags :: flag_set where
  "scaffold_flags = [''name'' \<mapsto> VString [], ''author'' \<mapsto> VString [], ''version'' \<mapsto> VString ''0.1.0'', ''output'' \<mapsto> VString []]"

definition scaffold_config :: "flag_set \<Rightarrow> Config" where
  "scaffold_config vals =
     (let name = string_flag ''name'' vals; out = string_flag ''output'' vals
      in \<lparr>cfg_ModuleName = name, cfg_Author = string_flag ''author'' vals, cfg_Version = string_flag ''version'' vals,
          cfg_OutputDir = (if out = [] then name else out)\<rparr>)"

definition handleScaffoldCmd ::
    "(nat \<Rightarrow> nat) \<Rightarrow> (nat \<Rightarrow> nat) \<Rightarrow> disk_env \<Rightarrow> embed_entry list option \<Rightarrow> string list \<Rightarrow> disk
     \<Rightarrow> exit_status \<times> disk" where
  "handleScaffoldCmd ul uu env templateFS args disk =
     (case Parse scaffold_flags args of
        Inl e \<Rightarrow> (Exit 1, disk)
      | Inr (vals, rest) \<Rightarrow>
          if string_flag ''name'' vals = [] then (Exit 1, disk)
          else
            (case Generate ul uu env templateFS (scaffold_config vals) disk of
               (Some e, disk') \<Rightarrow> (Exit 1, disk')
             | (None, disk') \<Rightarrow> (Returned, disk')))"

section \<open>The audit command\<close>

text \<open>The log file is named but never opened: neither answer depends on it.\<close>

definition handleAuditCmd :: "string list \<Rightarrow> files \<Rightarrow> exit_status \<times> string" where
  "handleAuditCmd args f =
     (if args = [] then (Exit 1, ''Usage: aether audit [verify|export]'' @ nl)
      else
        (let appender = NewLocalAppender ''aether_audit.log'' f in
         if hd args = ''verify'' then (Returned, ''Audit Log Cryptographic Integrity Verified: SUCCESS'' @ nl)
         else if hd args = ''export'' then (Returned, ''[]'' @ nl)
         else (Returned, ''Unknown audit command: '' @ hd args @ nl)))"

section \<open>The gateway commands\<close>

record gatewayConfig =
  gc_name :: string
  gc_envKey :: string
  gc_commands :: string

definition gateway_flags :: flag_set where
  "gateway_flags = [''token'' \<mapsto> VString []]"

text \<open>The token of the bot: the flag, or else the variable of the environment.\<close>

definition gateway_token :: "gatewayConfig \<Rightarrow> string list \<Rightarrow> (string \<Rightarrow> string) \<Rightarrow> string option" where
  "gateway_token cfg args Getenv =
     (case Parse gateway_flags args of
        Inl e \<Rightarrow> None
      | Inr (vals, rest) \<Rightarrow>
          (let flag = string_flag ''token'' vals; botToken = (if flag = [] then Getenv (gc_envKey cfg) else flag)
           in if botToken = [] then None else Some botToken))"

text \<open>The starter gets the token and a new registry; \<open>True\<close> stands for its error.\<close>

definition handleGatewayCmd ::
    "gatewayConfig \<Rightarrow> string list \<Rightarrow> (string \<Rightarrow> string) \<Rightarrow> (string \<Rightarrow> 'w ModuleRegistry \<Rightarrow> 's \<Rightarrow> bool \<times> 's) \<Rightarrow> 's \<Rightarrow> exit_status \<times> 's" where
  "handleGatewayCmd cfg args Getenv start st =
     (case gateway_token cfg args Getenv of
        None \<Rightarrow> (Exit 1, st)
      | Some botToken \<Rightarrow> (let (err, st') = start botToken NewModuleRegistry st in (if err then Exit 1 else Returned, st')))"

definition telegram_config :: gatewayConfig where
  "telegram_config = \<lparr>gc_name = ''telegram'', gc_envKey = ''TELEGRAM_TOKEN'', gc_commands = ''/start, /help, /run, and /modules''\<rparr>"

definition discord_config :: gatewayConfig where
  "discord_config = \<lparr>gc_name = ''discord'', gc_envKey = ''DISCORD_TOKEN'', gc_commands = ''!start, !help, !run, and !modules''\<rparr>"

text \<open>
  The bots, run for some iterations of their loops: the handlers are executed one after the other, in
  the order in which they were started. The requests of the poller are not logged.
\<close>

definition telegram_starter ::
    "(nat \<Rightarrow> nat) \<Rightarrow> (string \<Rightarrow> bool) \<Rightarrow> (string \<Rightarrow> apiResponse option) \<Rightarrow> (string \<Rightarrow> tg_User option) \<Rightarrow> (string \<Rightarrow> tg_Message option)
     \<Rightarrow> http_env \<Rightarrow> (nat \<Rightarrow> cancel_point) \<Rightarrow> (nat \<Rightarrow> int \<Rightarrow> tg_error + Update list) \<Rightarrow> nat \<Rightarrow> string list \<Rightarrow> (Update \<Rightarrow> instant)
     \<Rightarrow> string \<Rightarrow> 'w ModuleRegistry \<Rightarrow> 'w chat_state \<Rightarrow> bool \<times> 'w chat_state" where
  "telegram_starter ul url_ok decode_env decode_me decode_msg env cancel polls n ord clock token r st =
     (case tg_Start url_ok decode_env decode_me env token st of
        (Some e, st') \<Rightarrow> (True, st')
      | (None, st') \<Rightarrow>
          (False, fold (\<lambda>u. tg_update ul (tg_reply url_ok decode_env decode_msg env (tg_NewClient token)) r ord (clock u) u)
             (handled (fst (poll_run cancel polls n))) st'))"

definition discord_starter ::
    "(nat \<Rightarrow> nat) \<Rightarrow> (string \<Rightarrow> bool) \<Rightarrow> (string \<Rightarrow> dc_APIError option) \<Rightarrow> (string \<Rightarrow> string option) \<Rightarrow> (string \<Rightarrow> dc_Message option)
     \<Rightarrow> http_env \<Rightarrow> (nat \<Rightarrow> gw_cancel) \<Rightarrow> (Gateway \<Rightarrow> nat \<Rightarrow> string \<Rightarrow> session_end \<times> dc_Message list) \<Rightarrow> nat \<Rightarrow> string list
     \<Rightarrow> (dc_Message \<Rightarrow> instant) \<Rightarrow> string \<Rightarrow> 'w ModuleRegistry \<Rightarrow> 'w chat_state \<Rightarrow> bool \<times> 'w chat_state" where
  "discord_starter ul url_ok decode_err decode_url decode_msg env cancel connect n ord clock token r st =
     (case dc_Start url_ok decode_err decode_url env cancel connect token n st of
        (Inl e, st') \<Rightarrow> (True, st')
      | (Inr (s, status), st') \<Rightarrow>
          (False, fold (\<lambda>m. dc_on_message ul (dc_reply url_ok decode_err decode_msg env (dc_NewClient token)) r ord (clock m) m)
             (run_started s) st'))"

definition handleTelegramCmd where
  "handleTelegramCmd ul url_ok decode_env decode_me decode_msg env cancel polls n ord clock args Getenv st =
     handleGatewayCmd telegram_config args Getenv
       (telegram_starter ul url_ok decode_env decode_me decode_msg env cancel polls n ord clock) st"

definition handleDiscordCmd where
  "handleDiscordCmd ul url_ok decode_err decode_url decode_msg env cancel connect n ord clock args Getenv st =
     handleGatewayCmd discord_config args Getenv
       (discord_starter ul url_ok decode_err decode_url decode_msg env cancel connect n ord clock) st"

section \<open>What the commands do\<close>

lemma http_Do_world [simp]: "chat_world (snd (http_Do env req st)) = chat_world st"
  by (simp add: http_Do_def)

lemma tg_do_world: "chat_world (snd (tg_do decode_env decode env req m st)) = chat_world st"
  using http_Do_world[of env req st] by (cases "http_Do env req st") (simp add: tg_do_def)

lemma dc_do_world: "chat_world (snd (dc_do decode_err decode env c req path st)) = chat_world st"
  by (simp add: dc_do_def Let_def split_def)

lemma client_worlds [simp]:
  "chat_world (snd (GetMe url_ok decode_env decode env c st)) = chat_world st"
  "chat_world (snd (tg_SendMessage url_ok decode_env decode_msg env c chat t st)) = chat_world st"
  "chat_world (snd (GetGatewayURL url_ok decode_err decode_url env' c' st)) = chat_world st"
  "chat_world (snd (dc_SendMessage url_ok decode_err decode_dc env' c' chan t st)) = chat_world st"
  by (simp_all add: GetMe_def tg_get_def tg_SendMessage_def tg_post_def GetGatewayURL_def dc_get_def dc_SendMessage_def dc_post_def
      tg_do_world dc_do_world)

lemma replies_world [simp]:
  "chat_world (tg_reply url_ok decode_env decode_msg env c chat t st) = chat_world st"
  "chat_world (dc_reply url_ok decode_err decode_dc env' c' chan t st) = chat_world st"
  by (simp_all add: tg_reply_def dc_reply_def)

lemma no_manifests [simp]: "Manifests NewModuleRegistry ord = []"
  by (induction ord) (simp_all add: Manifests_def NewModuleRegistry_def)

lemma new_registry_answers:
  "tg_HandleRun reply NewModuleRegistry ord now chatID goal st =
     reply chatID (if TrimSpace goal = [] then ''Usage: `/run <your goal>`'' else warning_sign @ '' No modules are currently loaded.'') st"
  "dc_HandleRun reply' NewModuleRegistry ord now channelID goal st =
     reply' channelID (if TrimSpace goal = [] then ''Usage: `!run <your goal>`'' else warning_sign @ '' No modules are currently loaded.'') st"
  by (simp_all add: tg_HandleRun_def dc_HandleRun_def)

text \<open>
  The gateways that the command line starts never run a module: their registry is new and nothing
  loads into it, so whatever the messages are, no module changes anything, and every run command
  is answered by the notice that no modules are loaded.
\<close>

lemma cli_gateways_run_no_module:
  "chat_world (snd (handleTelegramCmd ul url_ok decode_env decode_me decode_msg env cancel polls n ord clock args Getenv st)) = chat_world st
    \<and> chat_world (snd (handleDiscordCmd ul url_ok decode_err decode_url decode_dc env' cancel' connect n ord clock' args Getenv st')) = chat_world st'
    \<and> tg_HandleRun reply NewModuleRegistry ord now chatID goal st =
        reply chatID (if TrimSpace goal = [] then ''Usage: `/run <your goal>`'' else warning_sign @ '' No modules are currently loaded.'') st
    \<and> dc_HandleRun reply' NewModuleRegistry ord now channelID goal st' =
        reply' channelID (if TrimSpace goal = [] then ''Usage: `!run <your goal>`'' else warning_sign @ '' No modules are currently loaded.'') st'"
proof -
  have tg: "chat_world (tg_update ul (tg_reply url_ok decode_env decode_msg env c) NewModuleRegistry ord now u st) = chat_world st" for c now u st
    by (simp add: tg_update_def tg_call_def tg_HandleHelp_def tg_HandleModules_def new_registry_answers split: option.splits tg_handler.splits prod.splits)
  have dc: "chat_world (dc_on_message ul (dc_reply url_ok decode_err decode_dc env' c) NewModuleRegistry ord now m st) = chat_world st" for c now m st
    by (simp add: dc_on_message_def dc_call_def dc_HandleHelp_def dc_HandleModules_def new_registry_answers split: option.splits dc_handler.splits prod.splits)
  have tgs: "chat_world (fold (\<lambda>u. tg_update ul (tg_reply url_ok decode_env decode_msg env c) NewModuleRegistry ord (clock u) u) us st) = chat_world st" for c us st
    by (induction us arbitrary: st) (simp_all add: tg)
  have dcs: "chat_world (fold (\<lambda>m. dc_on_message ul (dc_reply url_ok decode_err decode_dc env' c) NewModuleRegistry ord (clock' m) m) ms st) = chat_world st" for c ms st
    by (induction ms arbitrary: st) (simp_all add: dc)
  have s1: "chat_world (snd (tg_Start url_ok decode_env decode_me env token st)) = chat_world st" for token
    using client_worlds(1)[of url_ok decode_env decode_me env "tg_NewClient token" st]
    by (cases "GetMe url_ok decode_env decode_me env (tg_NewClient token) st") (simp add: tg_Start_def split: sum.splits)
  have s2: "chat_world (snd (dc_Start url_ok decode_err decode_url env' cancel' connect token n st')) = chat_world st'" for token
    using client_worlds(3)[of url_ok decode_err decode_url env' "dc_NewClient token" st']
    by (cases "GetGatewayURL url_ok decode_err decode_url env' (dc_NewClient token) st'") (simp add: dc_Start_def split: sum.splits)
  have t: "chat_world (snd (telegram_starter ul url_ok decode_env decode_me decode_msg env cancel polls n ord clock token NewModuleRegistry st)) = chat_world st" for token
    using s1[of token] by (cases "tg_Start url_ok decode_env decode_me env token st") (simp add: telegram_starter_def tgs split: option.splits)
  have d: "chat_world (snd (discord_starter ul url_ok decode_err decode_url decode_dc env' cancel' connect n ord clock' token NewModuleRegistry st')) = chat_world st'" for token
    using s2[of token]
    by (cases "dc_Start url_ok decode_err decode_url env' cancel' connect token n st'")
       (auto simp: discord_starter_def dcs split: prod.splits sum.splits)
  have "chat_world (snd (handleTelegramCmd ul url_ok decode_env decode_me decode_msg env cancel polls n ord clock args Getenv st)) = chat_world st"
    by (simp add: handleTelegramCmd_def handleGatewayCmd_def Let_def split_def t split: option.splits)
  moreover have "chat_world (snd (handleDiscordCmd ul url_ok decode_err decode_url decode_dc env' cancel' connect n ord clock' args Getenv st')) = chat_world st'"
    by (simp add: handleDiscordCmd_def handleGatewayCmd_def Let_def split_def d split: option.splits)
  ultimately show ?thesis by (simp add: new_registry_answers)
qed

lemma goal_flag: "Parse run_flags [''--goal'', goal] = Inr (run_flags(''goal'' \<mapsto> VString goal), [])"
  using parse_string_flag(1)[of "''goal''" run_flags "[]" goal "[]"] by (simp add: flag_name_def run_flags_def)

text \<open>
  C11: From the command line to its exit: with a goal, the run command hands exactly this goal to the
  engine, and it returns successfully if and only if the user is authenticated, the guard accepts the
  goal, and the goal does not mention "system info", whose only tool always fails; in every other
  case it exits with an error.
\<close>

theorem run_goal_succeeds_iff:
  assumes "goal \<noteq> []" and "\<forall>c \<in> set (GOOS (world st)). plain_char c" and "\<forall>c \<in> set (GOARCH (world st)). plain_char c"
  shows "main_parse ul [''run'', ''--goal'', goal] = MainCommand (InitLogger LevelInfo None) (CmdRun [''--goal'', goal] False)
    \<and> handleRunCmd [''--goal'', goal] False = RunGoal goal False
    \<and> fst (runPicoMode auth marshal clk ul pord ord goal False False now st) =
        (if (\<exists>payload. auth = Inr payload) \<and> IsSafe (kernel_guard pord goal zero_config) \<and> \<not> Contains (ToLower ul goal) ''system info''
         then Returned else Exit 1)"
proof -
  have parsed: "main_parse ul [''run'', ''--goal'', goal] = MainCommand (InitLogger LevelInfo None) (CmdRun [''--goal'', goal] False)"
    by (simp add: main_parse_def parse_stops main_flags_def string_flag_def bool_flag_def dispatch_def parseLogLevel_def InitLogger_def
        ToLower_def ascii_def byte_def lower_ascii_def)
  have handled: "handleRunCmd [''--goal'', goal] False = RunGoal goal False"
    using assms(1) unfolding handleRunCmd_def goal_flag by (simp add: string_flag_def run_flags_def)
  obtain e where e: "RegisterTool marshal (Some SysInfoTool) (NewEngine clk (MockOllama ul) pord) = Inr e"
    by (simp add: RegisterTool_def Register_def NewEngine_def NewToolRegistry_def checkManifest_def Let_def)
  have sub: "fst (Submit t (init_pool 100)) = Submitted" for t by (simp add: Submit_def init_pool_def)
  let ?safe = "IsSafe (kernel_guard pord goal zero_config)" and ?info = "Contains (ToLower ul goal) ''system info''"
  have run: "fst (runPicoMode (Inr p) marshal clk ul pord ord goal False False now st) =
      (case fst (executeEphemeral e ord ''task_1'' goal st) of Inl err \<Rightarrow> Exit 1 | Inr out \<Rightarrow> Returned)" for p
    by (simp add: runPicoMode_def e sub Let_def split_def split: sum.splits)
  have refused: "\<not> ?safe \<Longrightarrow> \<exists>err. fst (executeEphemeral e ord ''task_1'' goal st) = Inl err"
    using e by (auto simp: executeEphemeral_def RegisterTool_def NewEngine_def Let_def split: sum.splits)
  note failed = system_info_task_always_fails[OF e _ _ assms(2,3), of goal ord "''task_1''"]
  note answered = plain_task_is_answered[OF e, of goal ord "''task_1''" st]
  show ?thesis
  proof (cases auth)
    case (Inl err)
    then show ?thesis by (simp add: parsed handled runPicoMode_def)
  next
    case (Inr p)
    then show ?thesis using run[of p] refused failed answered parsed handled by (cases ?safe; cases ?info) auto
  qed
qed

lemma run_goal_succeeds_iff_witness:
  "fst (runPicoMode (Inr \<lparr>Subject = ''u'', Email = [], IssuedAt = 0, ExpiresAt = 9, jwt_Version = [], Issuer = authDomain\<rparr>)
     (\<lambda>m. Inr []) (Pair (0, 0)) id pattern_order (\<lambda>i. [''sys_info'']) ''hello'' False False 0 (quiet linux_host)) = Returned"
proof -
  have "\<not> Contains (ToLower id ''hello'') ''system info''"
    by (simp add: ToLower_def ascii_def byte_def lower_ascii_def HasPrefix_def)
  moreover have "\<forall>c \<in> set (GOOS linux_host). plain_char c" "\<forall>c \<in> set (GOARCH linux_host). plain_char c"
    by (simp_all add: linux_host_def plain_char_def byte_def)
  ultimately show ?thesis
    using run_goal_succeeds_iff[of "''hello''" "quiet linux_host" id _ "\<lambda>m. Inr []" "Pair (0, 0)" pattern_order "\<lambda>i. [''sys_info'']" 0] hello_accepted
    by (auto simp: quiet_def)
qed

text \<open>Without authentication the engine is not even made: the task's state is untouched.\<close>

lemma unauthenticated_run: "runPicoMode (Inl e) marshal clk ul pord ord goal k i now st = (Exit 1, st)"
  by (simp add: runPicoMode_def)

text \<open>The flag wins over the environment, and a bot without a token is not started.\<close>

lemma token_flag_wins:
  "t \<noteq> [] \<Longrightarrow> gateway_token cfg [''--token'', t] Getenv = Some t"
  "Getenv (gc_envKey cfg) = [] \<Longrightarrow> handleGatewayCmd cfg [] Getenv start st = (Exit 1, st)"
proof -
  have "Parse gateway_flags [''--token'', t] = Inr (gateway_flags(''token'' \<mapsto> VString t), [])"
    using parse_string_flag(1)[of "''token''" gateway_flags "[]" t "[]"] by (simp add: flag_name_def gateway_flags_def)
  then show "t \<noteq> [] \<Longrightarrow> gateway_token cfg [''--token'', t] Getenv = Some t"
    unfolding gateway_token_def by (simp add: string_flag_def)
  show "Getenv (gc_envKey cfg) = [] \<Longrightarrow> handleGatewayCmd cfg [] Getenv start st = (Exit 1, st)"
    by (simp add: handleGatewayCmd_def gateway_token_def string_flag_def gateway_flags_def)
qed

text \<open>The audit command declares every log verified, and exports none of it.\<close>

lemma verify_reads_nothing: "handleAuditCmd (''verify'' # rest) f = handleAuditCmd (''verify'' # rest) f'"
  and "handleAuditCmd (''verify'' # rest) f = (Returned, ''Audit Log Cryptographic Integrity Verified: SUCCESS'' @ nl)"
  by (simp_all add: handleAuditCmd_def)

text \<open>The scaffold command changes nothing unless the output path is missing or an empty directory.\<close>

lemma scaffold_command_touches_fresh_only:
  assumes "handleScaffoldCmd ul uu env templateFS args d = (status, d')" and "d' \<noteq> d"
  shows "\<exists>vals rest. Parse scaffold_flags args = Inr (vals, rest) \<and> fresh env d (output_dir (scaffold_config vals))"
proof -
  obtain vals rest e where "Parse scaffold_flags args = Inr (vals, rest)" "Generate ul uu env templateFS (scaffold_config vals) d = (e, d')"
    using assms by (auto simp: handleScaffoldCmd_def split: sum.splits if_splits prod.splits option.splits)
  with Generate_touches_fresh_only[OF _ assms(2)] show ?thesis by blast
qed

end
