(* ===== verification/Agent_Steps.thy ===== *)
theory Agent_Steps
  imports Agent_Engine
begin

text \<open>
  One task in the steps in which a worker interleaves with the others (\<open>executeEphemeral\<close>, \<open>dispatchTool\<close> and
  \<open>verifyToolOutput\<close> of \<open>core/event_loop.go\<close>): every call of the guard, the audit logger, the adapter, a tool or the
  sandbox is one step on the shared state, and between two of them the state is what the rest of the kernel
  made of it. A worker that is alone takes the steps to the outcome of \<open>executeEphemeral\<close>, and from every point it
  comes to an end.
\<close>

section \<open>The steps\<close>

text \<open>How far the dispatch of a tool call is.\<close>

datatype stage =
    Lookup
  | Execute
  | CallRpc timestamp
  | LogRpc timestamp "string + string"
  | ScanOutput string
  | Answered "string + string"

text \<open>Where a worker is in its task; \<open>n\<close> is the number of iterations that are left, the current one included.\<close>

datatype agent =
    ScanInput
  | Requesting nat "Message list"
  | Asking nat "Message list"
  | Calling nat "Message list" "ToolCall list" "ToolResultMessage list" stage
  | Done "string + string"

definition tool_message :: "ToolResultMessage list \<Rightarrow> Message" where
  "tool_message results = \<lparr>Role = ''tool'', msg_Content = [], ToolCalls = [], ToolResults = results\<rparr>"

definition assistant_message :: "LLMResponse \<Rightarrow> Message" where
  "assistant_message res =
     \<lparr>Role = ''assistant'', msg_Content = llm_Content res, ToolCalls = llm_ToolCalls res, ToolResults = []\<rparr>"

definition result_message :: "ToolCall \<Rightarrow> string + string \<Rightarrow> ToolResultMessage" where
  "result_message call r =
     (case r of
        Inl execErr \<Rightarrow> \<lparr>ToolCallID = call_ID call, tr_Content = execErr, IsError = True\<rparr>
      | Inr result \<Rightarrow> \<lparr>ToolCallID = call_ID call, tr_Content = result, IsError = False\<rparr>)"

text \<open>
  The stages of one call, up to its answer. A later stage finds the tool or the sandbox that the first one found, since neither
  changes while the kernel runs.
\<close>

fun call_step ::
    "'w Engine \<Rightarrow> string \<Rightarrow> ToolCall \<Rightarrow> stage \<Rightarrow> 'w run_state \<Rightarrow> stage \<times> 'w run_state" where
  "call_step e taskID call Lookup st =
     (case Get_tool (call_Name call) (engine_tools e) of
        Inr tool \<Rightarrow>
          (Execute, LogEvent e (taskID @ ''-tool-exec'') ''AUDIT_TOOL_EXECUTE'' ''engine''
             [(''task_id'', JStr taskID), (''tool'', JStr (call_Name call))] st)
      | Inl _ \<Rightarrow>
          (case sandboxClient e of
             Some rpc \<Rightarrow> (let (started, w) = engine_clock e (world st) in (CallRpc started, st\<lparr>world := w\<rparr>))
           | None \<Rightarrow> (Answered (Inl (''tool_not_found: '' @ call_Name call)), st)))"
| "call_step e taskID call Execute st =
     (case Get_tool (call_Name call) (engine_tools e) of
        Inl _ \<Rightarrow> (Answered (Inl []), st)
      | Inr tool \<Rightarrow>
          (let (r, w) = tool_Execute tool (Arguments call) (world st) in
           (case r of Inl err \<Rightarrow> Answered (Inl err) | Inr res \<Rightarrow> ScanOutput res, st\<lparr>world := w\<rparr>)))"
| "call_step e taskID call (CallRpc started) st =
     (case sandboxClient e of
        None \<Rightarrow> (Answered (Inl []), st)
      | Some rpc \<Rightarrow>
          (let (r, w) = SandboxClient_ExecuteTool rpc (call_Name call) (Arguments call) [] (world st)
           in (LogRpc started r, st\<lparr>world := w\<rparr>)))"
| "call_step e taskID call (LogRpc started r) st =
     (let (ended, w) = engine_clock e (world st) in
      (case r of Inl err \<Rightarrow> Answered (Inl err) | Inr res \<Rightarrow> ScanOutput res,
       LogEvent e (taskID @ ''-tool-res'') ''AUDIT_TOOL_RESULT'' ''engine''
         [(''task_id'', JStr taskID), (''tool_name'', JStr (call_Name call)),
          (''duration_ms'', JInt (Milliseconds (Time_Sub (fst ended) (fst started))))]
         (st\<lparr>world := w\<rparr>)))"
| "call_step e taskID call (ScanOutput res) st =
     (let (scanErr, st') = verifyToolOutput e taskID res st in
      (Answered (case scanErr of Some err \<Rightarrow> Inl err | None \<Rightarrow> Inr res), st'))"
| "call_step e taskID call (Answered r) st = (Answered r, st)"

fun agent_step ::
    "'w Engine \<Rightarrow> (nat \<Rightarrow> string list) \<Rightarrow> string \<Rightarrow> string \<Rightarrow> agent \<times> 'w run_state \<Rightarrow> agent \<times> 'w run_state" where
  "agent_step e ord taskID input (ScanInput, st) =
     (let guardRes = guard e input zero_config in
      if \<not> IsSafe guardRes then (Done (Inl (''security_violation: '' @ first_description guardRes)), st)
      else (Requesting maxAgentIterations (initial_messages input), st))"
| "agent_step e ord taskID input (Requesting 0 messages, st) = (Done (Inl ''ErrMaxIterationsExceeded''), st)"
| "agent_step e ord taskID input (Requesting (Suc n) messages, st) =
     (Asking n messages, LogEvent e (taskID @ ''-req'') ''AUDIT_LLM_REQUEST'' ''engine''
        [(''task_id'', JStr taskID), (''messages_count'', JInt (int (length messages)))] st)"
| "agent_step e ord taskID input (Asking n messages, st) =
     (let iteration = maxAgentIterations - Suc n;
          (r, w) = engine_adapter e messages (tool_Manifests (engine_tools e) (ord iteration)) (world st);
          st' = st\<lparr>world := w, llm_calls := llm_calls st @ [messages]\<rparr>
      in case r of
           Inl err \<Rightarrow> (Done (Inl (''llm_iter_'' @ show_nat iteration @ '': '' @ err)), st')
         | Inr res \<Rightarrow>
             if llm_ToolCalls res = [] then (Done (Inr (llm_Content res)), st')
             else (Calling n (messages @ [assistant_message res]) (llm_ToolCalls res) [] Lookup, st'))"
| "agent_step e ord taskID input (Calling n messages [] results stg, st) =
     (Requesting n (messages @ [tool_message results]), st)"
| "agent_step e ord taskID input (Calling n messages (call # calls) results (Answered r), st) =
     (case r of
        Inl execErr \<Rightarrow>
          if Contains execErr ''security_violation'' then (Done (Inl execErr), st)
          else (Calling n messages calls (results @ [result_message call r]) Lookup, st)
      | Inr result \<Rightarrow> (Calling n messages calls (results @ [result_message call r]) Lookup, st))"
| "agent_step e ord taskID input (Calling n messages (call # calls) results stg, st) =
     (let (stg', st') = call_step e taskID call stg st in (Calling n messages (call # calls) results stg', st'))"
| "agent_step e ord taskID input (Done r, st) = (Done r, st)"

section \<open>A worker that is alone\<close>

definition leads :: "('a \<Rightarrow> 'a) \<Rightarrow> 'a \<Rightarrow> 'a \<Rightarrow> bool" where
  "leads f x y \<longleftrightarrow> (\<exists>k. (f ^^ k) x = y)"

lemma leads_refl [simp]: "leads f x x"
  unfolding leads_def by (intro exI[of _ 0]) simp

lemma leads_trans: "leads f x y \<Longrightarrow> leads f y z \<Longrightarrow> leads f x z"
  unfolding leads_def by (metis comp_apply funpow_add)

lemma leads_step: "leads f (f x) y \<Longrightarrow> leads f x y"
  unfolding leads_def by (metis comp_apply funpow_Suc_right)

text \<open>The stages of a call lead to the answer of \<open>dispatchTool\<close>.\<close>

lemma scan_leads:
  "leads (\<lambda>(stg, st). call_step e taskID call stg st) (ScanOutput res, st)
     (case verifyToolOutput e taskID res st of
        (Some scanErr, st') \<Rightarrow> (Answered (Inl scanErr), st')
      | (None, st') \<Rightarrow> (Answered (Inr res), st'))"
  by (rule leads_step) (auto split: prod.split option.split)

lemma call_leads:
  "leads (\<lambda>(stg, st). call_step e taskID call stg st) (Lookup, st)
     (let (r, st') = dispatchTool e taskID call st in (Answered r, st'))"
proof (cases "Get_tool (call_Name call) (engine_tools e)")
  case (Inr tool)
  define st1 where "st1 = LogEvent e (taskID @ ''-tool-exec'') ''AUDIT_TOOL_EXECUTE'' ''engine''
    [(''task_id'', JStr taskID), (''tool'', JStr (call_Name call))] st"
  obtain r w where x: "tool_Execute tool (Arguments call) (world st1) = (r, w)" by force
  show ?thesis
  proof (rule leads_step, rule leads_step, cases r)
    fix err assume "r = Inl err"
    then show "leads (\<lambda>(stg, st). call_step e taskID call stg st)
        ((\<lambda>(stg, st). call_step e taskID call stg st) ((\<lambda>(stg, st). call_step e taskID call stg st) (Lookup, st)))
        (let (r, st') = dispatchTool e taskID call st in (Answered r, st'))"
      using x by (simp add: Inr dispatchTool_def runLocalTool_def flip: st1_def)
  next
    fix res assume "r = Inr res"
    then show "leads (\<lambda>(stg, st). call_step e taskID call stg st)
        ((\<lambda>(stg, st). call_step e taskID call stg st) ((\<lambda>(stg, st). call_step e taskID call stg st) (Lookup, st)))
        (let (r, st') = dispatchTool e taskID call st in (Answered r, st'))"
      using x scan_leads[of e taskID call res "st1\<lparr>world := w\<rparr>"]
      by (auto simp: Inr dispatchTool_def runLocalTool_def Let_def simp flip: st1_def split: prod.splits option.splits)
  qed
next
  case (Inl err)
  show ?thesis
  proof (cases "sandboxClient e")
    case None
    show ?thesis by (rule leads_step) (simp add: Inl None dispatchTool_def)
  next
    case (Some rpc)
    show ?thesis
      by (rule leads_step, rule leads_step, rule leads_step)
        (simp add: Inl Some dispatchTool_def runSandboxTool_def SandboxClient_unsigned Let_def split: prod.split)
  qed
qed

lemma call_step_agent:
  "agent_step e ord taskID input (Calling n messages (call # calls) results stg, st) =
     (let (stg', st') = call_step e taskID call stg st in (Calling n messages (call # calls) results stg', st'))"
  if "\<forall>r. stg \<noteq> Answered r"
  using that by (cases stg) simp_all

lemma agent_follows_call:
  assumes "leads (\<lambda>(stg, st). call_step e taskID call stg st) (stg, st) (Answered r, st')"
  shows "leads (agent_step e ord taskID input) (Calling n messages (call # calls) results stg, st)
    (Calling n messages (call # calls) results (Answered r), st')"
proof -
  obtain k where "((\<lambda>(stg, st). call_step e taskID call stg st) ^^ k) (stg, st) = (Answered r, st')"
    using assms by (auto simp: leads_def)
  then show ?thesis
  proof (induction k arbitrary: stg st)
    case (Suc k)
    obtain stg1 st1 where one: "call_step e taskID call stg st = (stg1, st1)" by force
    have rest: "leads (agent_step e ord taskID input) (Calling n messages (call # calls) results stg1, st1)
        (Calling n messages (call # calls) results (Answered r), st')"
      by (rule Suc.IH) (use Suc.prems one in \<open>simp add: funpow_Suc_right del: funpow.simps\<close>)
    show ?case
    proof (cases "\<forall>r. stg \<noteq> Answered r")
      case True
      with rest one show ?thesis by - (rule leads_step, simp add: call_step_agent)
    next
      case False
      with rest one show ?thesis by auto
    qed
  qed simp
qed

lemma runCalls_leads:
  "leads (agent_step e ord taskID input) (Calling n messages calls results Lookup, st)
     (case runCalls e taskID calls results st of
        (Inl err, st') \<Rightarrow> (Done (Inl err), st')
      | (Inr rs, st') \<Rightarrow> (Requesting n (messages @ [tool_message rs]), st'))"
proof (induction calls arbitrary: results st)
  case Nil
  show ?case by (rule leads_step) simp
next
  case (Cons call calls)
  obtain d st1 where d: "dispatchTool e taskID call st = (d, st1)" by force
  have start: "leads (agent_step e ord taskID input) (Calling n messages (call # calls) results Lookup, st)
      (Calling n messages (call # calls) results (Answered d), st1)"
    by (rule agent_follows_call) (use call_leads[of e taskID call st] d in simp)
  have next_call: "runCalls e taskID (call # calls) results st =
     (case d of
        Inl err \<Rightarrow> if Contains err ''security_violation'' then (Inl err, st1)
          else runCalls e taskID calls (results @ [result_message call d]) st1
      | Inr out \<Rightarrow> runCalls e taskID calls (results @ [result_message call d]) st1)"
    using d by (simp add: result_message_def split: sum.split)
  note rest = Cons.IH[of "results @ [result_message call d]" st1]
  show ?case
    by (rule leads_trans[OF start], rule leads_step, unfold next_call agent_step.simps, insert rest)
      (cases d, simp_all)
qed

lemma agentLoop_leads:
  "leads (agent_step e ord taskID input) (Requesting n messages, st)
     (let (r, st') = agentLoop e ord taskID n messages st in (Done r, st'))"
proof (induction n arbitrary: messages st)
  case 0
  show ?case by (rule leads_step) simp
next
  case (Suc n)
  define st1 where "st1 = LogEvent e (taskID @ ''-req'') ''AUDIT_LLM_REQUEST'' ''engine''
    [(''task_id'', JStr taskID), (''messages_count'', JInt (int (length messages)))] st"
  obtain a w where a: "engine_adapter e messages (tool_Manifests (engine_tools e) (ord (maxAgentIterations - Suc n))) (world st1) = (a, w)"
    by force
  let ?st2 = "st1\<lparr>world := w, llm_calls := llm_calls st1 @ [messages]\<rparr>"
  have loop: "agentLoop e ord taskID (Suc n) messages st =
     (case a of
        Inl err \<Rightarrow> (Inl (''llm_iter_'' @ show_nat (maxAgentIterations - Suc n) @ '': '' @ err), ?st2)
      | Inr res \<Rightarrow>
          if llm_ToolCalls res = [] then (Inr (llm_Content res), ?st2)
          else case runCalls e taskID (llm_ToolCalls res) [] ?st2 of
             (Inl err, st3) \<Rightarrow> (Inl err, st3)
           | (Inr rs, st3) \<Rightarrow> agentLoop e ord taskID n ((messages @ [assistant_message res]) @ [tool_message rs]) st3)"
    using a by (auto simp: Let_def assistant_message_def tool_message_def simp flip: st1_def split: sum.split prod.split)
  have two: "agent_step e ord taskID input (agent_step e ord taskID input (Requesting (Suc n) messages, st)) =
     (case a of
        Inl err \<Rightarrow> (Done (Inl (''llm_iter_'' @ show_nat (maxAgentIterations - Suc n) @ '': '' @ err)), ?st2)
      | Inr res \<Rightarrow> if llm_ToolCalls res = [] then (Done (Inr (llm_Content res)), ?st2)
          else (Calling n (messages @ [assistant_message res]) (llm_ToolCalls res) [] Lookup, ?st2))"
    using a by (simp add: Let_def flip: st1_def)
  show ?case
  proof (rule leads_step, rule leads_step, unfold two loop, cases a)
    case (Inr res)
    show "leads (agent_step e ord taskID input)
        (case a of
           Inl err \<Rightarrow> (Done (Inl (''llm_iter_'' @ show_nat (maxAgentIterations - Suc n) @ '': '' @ err)), ?st2)
         | Inr res \<Rightarrow> if llm_ToolCalls res = [] then (Done (Inr (llm_Content res)), ?st2)
             else (Calling n (messages @ [assistant_message res]) (llm_ToolCalls res) [] Lookup, ?st2))
        (let (r, st') =
           (case a of
              Inl err \<Rightarrow> (Inl (''llm_iter_'' @ show_nat (maxAgentIterations - Suc n) @ '': '' @ err), ?st2)
            | Inr res \<Rightarrow>
                if llm_ToolCalls res = [] then (Inr (llm_Content res), ?st2)
                else case runCalls e taskID (llm_ToolCalls res) [] ?st2 of
                   (Inl err, st3) \<Rightarrow> (Inl err, st3)
                 | (Inr rs, st3) \<Rightarrow> agentLoop e ord taskID n ((messages @ [assistant_message res]) @ [tool_message rs]) st3)
         in (Done r, st'))"
    proof (cases "llm_ToolCalls res = []")
      case False
      obtain c st3 where c: "runCalls e taskID (llm_ToolCalls res) [] ?st2 = (c, st3)" by force
      note run = runCalls_leads[of e ord taskID input n "messages @ [assistant_message res]" "llm_ToolCalls res" "[]" ?st2]
      show ?thesis
      proof (cases c)
        case l: (Inl err)
        then show ?thesis using run c Inr False by simp
      next
        case rs: (Inr rs)
        show ?thesis
          using leads_trans[OF _ Suc.IH[of "(messages @ [assistant_message res]) @ [tool_message rs]" st3]] run c Inr False rs by simp
      qed
    qed (simp add: Inr)
  qed simp
qed

section \<open>A worker comes to an end\<close>

fun stage_rank :: "stage \<Rightarrow> nat" where
  "stage_rank Lookup = 4"
| "stage_rank (CallRpc started) = 3"
| "stage_rank Execute = 2"
| "stage_rank (LogRpc started r) = 2"
| "stage_rank (ScanOutput out) = 1"
| "stage_rank (Answered r) = 0"

fun agent_rank :: "agent \<Rightarrow> nat \<times> nat \<times> nat" where
  "agent_rank ScanInput = (3 * maxAgentIterations + 2, 0, 0)"
| "agent_rank (Asking n ms) = (3 * n + 3, 0, 0)"
| "agent_rank (Calling n ms calls rs stg) = (3 * n + 2, length calls, stage_rank stg)"
| "agent_rank (Requesting n ms) = (3 * n + 1, 0, 0)"
| "agent_rank (Done r) = (0, 0, 0)"

definition agent_order :: "(agent \<times> agent) set" where
  "agent_order = inv_image (less_than <*lex*> less_than <*lex*> less_than) agent_rank"

lemma wf_agent_order: "wf agent_order"
  unfolding agent_order_def by (intro wf_inv_image wf_lex_prod wf_less_than)

lemma call_step_rank:
  "\<forall>r. stg \<noteq> Answered r \<Longrightarrow> call_step e taskID call stg st = (stg', st') \<Longrightarrow> stage_rank stg' < stage_rank stg"
  by (cases "(e, taskID, call, stg, st)" rule: call_step.cases) (auto simp: Let_def split: sum.splits option.splits prod.splits)

lemma agent_step_rank:
  assumes "agent_step e ord taskID input (a, st) = (a', st')" and "\<forall>r. a \<noteq> Done r"
  shows "(a', a) \<in> agent_order"
proof (cases "\<exists>n ms call calls rs stg. a = Calling n ms (call # calls) rs stg \<and> (\<forall>r. stg \<noteq> Answered r)")
  case True
  then obtain n ms call calls rs stg where a: "a = Calling n ms (call # calls) rs stg" "\<forall>r. stg \<noteq> Answered r" by blast
  obtain stg1 st1 where c: "call_step e taskID call stg st = (stg1, st1)" by force
  have "a' = Calling n ms (call # calls) rs stg1" using assms(1) unfolding a(1) call_step_agent[OF a(2)] c by simp
  with call_step_rank[OF a(2) c] show ?thesis by (simp add: agent_order_def a(1))
next
  case False
  with assms show ?thesis
    by (cases "(e, ord, taskID, input, a, st)" rule: agent_step.cases)
      (auto simp: agent_order_def Let_def split: sum.splits prod.splits if_splits)
qed

section \<open>Steps and function agree\<close>

text \<open>
  The two renderings of the same code agree: a worker that runs alone takes its steps to the outcome of the task and to the state that the sequential
  \<open>executeEphemeral\<close> leaves: its answer or error, the world, the requests and the audit events in their order.
\<close>

lemma alone_executes:
  "leads (agent_step e ord taskID input) (ScanInput, st)
     (let (r, st') = executeEphemeral e ord taskID input st in (Done r, st'))"
proof (cases "IsSafe (guard e input zero_config)")
  case True
  then show ?thesis
    using agentLoop_leads[of e ord taskID input maxAgentIterations "initial_messages input" st]
    by - (rule leads_step, simp add: executeEphemeral_def)
next
  case False
  then show ?thesis by - (rule leads_step, simp add: executeEphemeral_def Let_def)
qed

end
