(* ===== verification/Kernel.thy ===== *)
theory Kernel
  imports Agent_Steps Worker_Pool
begin

text \<open>
  The running kernel (\<open>core/event_loop.go\<close>): the queues and workers of \<open>Worker_Pool\<close>, each worker with the task of
  \<open>Agent_Steps\<close> that it executes, on one world, one list of requests to the adapter and one audit chain. The
  workers interleave step by step, and the world may change by itself at any time.
\<close>

section \<open>The steps of the kernel\<close>

record 'w kernel =
  k_pool :: pool
  k_agents :: "nat \<Rightarrow> agent"
  k_run :: "'w run_state"

definition init_kernel :: "nat \<Rightarrow> 'w \<Rightarrow> 'w kernel" where
  "init_kernel n w = \<lparr>k_pool = init_pool n, k_agents = (\<lambda>i. ScanInput), k_run = quiet w\<rparr>"

text \<open>The result a worker makes of the outcome of its task.\<close>

definition task_result :: "Task \<Rightarrow> string + string \<Rightarrow> duration \<Rightarrow> Result" where
  "task_result t r d =
     \<lparr>r_TaskID = t_ID t, r_Output = (case r of Inl err \<Rightarrow> [] | Inr out \<Rightarrow> out), r_Duration = d,
      r_Error = (case r of Inl err \<Rightarrow> Some err | Inr out \<Rightarrow> None)\<rparr>"

definition log_boot :: "'w Engine \<Rightarrow> nat \<Rightarrow> 'w run_state \<Rightarrow> 'w run_state" where
  "log_boot e n = LogEvent e ''sys-boot'' ''AUDIT_ENGINE_BOOT'' ''system'' [(''worker_count'', JInt (int n))]"

datatype kernel_label = KPool pool_label | KAgent nat | KWorld

text \<open>The worker that begins a task in a step of the pool, and the steps that neither boot it nor begin or end a task.\<close>

fun begins :: "pool_label \<Rightarrow> nat option" where
  "begins (LTake i) = Some i"
| "begins (LHandTask i t) = Some i"
| "begins l = None"

fun queue_label :: "pool_label \<Rightarrow> bool" where
  "queue_label (LStart n) = False"
| "queue_label (LExec i) = False"
| "queue_label l = (begins l = None)"

inductive kernel_step :: "'w Engine \<Rightarrow> 'w kernel \<Rightarrow> kernel_label \<Rightarrow> 'w kernel \<Rightarrow> bool" for e where
  Boot: "pool_step (k_pool k) (LStart n) p \<Longrightarrow>
    kernel_step e k (KPool (LStart n)) (k\<lparr>k_pool := p, k_run := log_boot e n (k_run k)\<rparr>)"
| Begin: "pool_step (k_pool k) l p \<Longrightarrow> begins l = Some i \<Longrightarrow>
    kernel_step e k (KPool l) (k\<lparr>k_pool := p, k_agents := (k_agents k)(i := ScanInput)\<rparr>)"
| Agent: "\<not> crashed (k_pool k) \<Longrightarrow> worker_at i (Running t) (k_pool k) \<Longrightarrow> \<forall>r. k_agents k i \<noteq> Done r \<Longrightarrow>
    agent_step e ord (t_ID t) (t_Input t) (k_agents k i, k_run k) = (a, st) \<Longrightarrow>
    kernel_step e k (KAgent i) (k\<lparr>k_agents := (k_agents k)(i := a), k_run := st\<rparr>)"
| Finish: "\<not> crashed (k_pool k) \<Longrightarrow> worker_at i (Running t) (k_pool k) \<Longrightarrow> k_agents k i = Done r \<Longrightarrow>
    kernel_step e k (KPool (LExec i)) (k\<lparr>k_pool := set_worker i (Sending t (task_result t r d)) (k_pool k)\<rparr>)"
| Queue: "pool_step (k_pool k) l p \<Longrightarrow> queue_label l \<Longrightarrow> kernel_step e k (KPool l) (k\<lparr>k_pool := p\<rparr>)"
| World: "kernel_step e k KWorld (k\<lparr>k_run := (k_run k)\<lparr>world := w\<rparr>\<rparr>)"

inductive kernel_run :: "'w Engine \<Rightarrow> 'w kernel \<Rightarrow> kernel_label list \<Rightarrow> 'w kernel \<Rightarrow> bool" for e where
  kernel_Nil: "kernel_run e k [] k"
| kernel_Cons: "kernel_step e k l k' \<Longrightarrow> kernel_run e k' ls k'' \<Longrightarrow> kernel_run e k (l # ls) k''"

lemma kernel_run_append: "kernel_run e k ls k' \<Longrightarrow> kernel_run e k' ls' k'' \<Longrightarrow> kernel_run e k (ls @ ls') k''"
  by (induction rule: kernel_run.induct) (auto intro: kernel_run.intros)

lemma kernel_run_step: "kernel_step e k l k' \<Longrightarrow> kernel_run e k [l] k'"
  by (blast intro: kernel_run.intros)

lemma kernel_run_invariant:
  assumes "kernel_run e k ls k'" and "I k" and "\<And>k l k'. kernel_step e k l k' \<Longrightarrow> I k \<Longrightarrow> I k'"
  shows "I k'"
  using assms by (induction rule: kernel_run.induct) auto

section \<open>The kernel is a pool\<close>

fun pool_labels :: "kernel_label list \<Rightarrow> pool_label list" where
  "pool_labels [] = []"
| "pool_labels (KPool l # ls) = l # pool_labels ls"
| "pool_labels (l # ls) = pool_labels ls"

lemma task_result_step:
  "\<not> crashed p \<Longrightarrow> worker_at i (Running t) p \<Longrightarrow> pool_step p (LExec i) (set_worker i (Sending t (task_result t r d)) p)"
  unfolding task_result_def by (rule pool_step.Exec)

lemma kernel_step_pool: "kernel_step e k l k' \<Longrightarrow> pool_run (k_pool k) (pool_labels [l]) (k_pool k')"
  by (induction rule: kernel_step.induct) (auto intro: pool_run.intros task_result_step)

lemma pool_labels_append: "pool_labels (ls @ ls') = pool_labels ls @ pool_labels ls'"
  by (induction ls rule: pool_labels.induct) auto

lemma kernel_run_pool: "kernel_run e k ls k' \<Longrightarrow> pool_run (k_pool k) (pool_labels ls) (k_pool k')"
proof (induction rule: kernel_run.induct)
  case (kernel_Nil k)
  show ?case by (simp add: run_Nil)
next
  case (kernel_Cons k l k' ls k'')
  then show ?case using pool_run_append[OF kernel_step_pool] pool_labels_append[of "[l]" ls] by fastforce
qed

lemma kernel_pool_inv: "kernel_step e k l k' \<Longrightarrow> pool_inv (k_pool k) \<Longrightarrow> pool_inv (k_pool k')"
  using pool_run_invariant[of "k_pool k" "pool_labels [l]" "k_pool k'" pool_inv] kernel_step_pool pool_inv_step by blast

section \<open>Every task ends\<close>

text \<open>From every point of its task a worker comes to the end of it by itself.\<close>

lemma agent_finishes:
  assumes "worker_at i (Running t) (k_pool k)" and "\<not> crashed (k_pool k)"
  shows "\<exists>ls k' r. kernel_run e k ls k' \<and> k_pool k' = k_pool k \<and> k_agents k' i = Done r"
  using assms
proof (induction "k_agents k i" arbitrary: k rule: wf_induct_rule[OF wf_agent_order])
  case (1 k)
  show ?case
  proof (cases "\<exists>r. k_agents k i = Done r")
    case True
    then show ?thesis using kernel_Nil by blast
  next
    case False
    obtain a st where a: "agent_step e (\<lambda>i. []) (t_ID t) (t_Input t) (k_agents k i, k_run k) = (a, st)" by force
    let ?k = "k\<lparr>k_agents := (k_agents k)(i := a), k_run := st\<rparr>"
    have s: "kernel_step e k (KAgent i) ?k" using "1.prems" False a by (intro kernel_step.Agent) auto
    have "(k_agents ?k i, k_agents k i) \<in> agent_order" using agent_step_rank[OF a] False by simp
    from "1.hyps"[OF this] "1.prems" obtain ls k' r
      where "kernel_run e ?k ls k'" "k_pool k' = k_pool k" "k_agents k' i = Done r" by auto
    with s show ?thesis using kernel_Cons by blast
  qed
qed

lemma task_free_queue: "task_free l \<Longrightarrow> queue_label l"
  by (cases l) simp_all

lemma lift_queue_run:
  "pool_run p ls q \<Longrightarrow> \<forall>l \<in> set ls. queue_label l \<Longrightarrow> k_pool k = p \<Longrightarrow>
   \<exists>ls' k'. kernel_run e k ls' k' \<and> k_pool k' = q"
proof (induction arbitrary: k rule: pool_run.induct)
  case (run_Nil p)
  then show ?case using kernel_Nil by blast
next
  case (run_Cons p l p' ls p'')
  have s: "kernel_step e k (KPool l) (k\<lparr>k_pool := p'\<rparr>)"
    using run_Cons.hyps(1) run_Cons.prems by (intro kernel_step.Queue) simp_all
  obtain ls' k' where "kernel_run e (k\<lparr>k_pool := p'\<rparr>) ls' k'" "k_pool k' = p''"
    using run_Cons.IH[of "k\<lparr>k_pool := p'\<rparr>"] run_Cons.prems(1) by auto
  with s show ?case using kernel_Cons by blast
qed

lemma kernel_stop_progress:
  assumes "stopping (k_pool k)" and "w \<in> set (workers (k_pool k))" and "w \<noteq> Exited"
  shows "\<exists>ls k'. kernel_run e k ls k' \<and> stopping (k_pool k')
    \<and> sum_list (map work_left (workers (k_pool k'))) < sum_list (map work_left (workers (k_pool k)))"
proof -
  obtain i where i: "worker_at i w (k_pool k)" using assms(2) by (auto simp: worker_at_def in_set_conv_nth)
  show ?thesis
  proof (cases "\<exists>t. w = Running t")
    case True
    then obtain t where w: "w = Running t" by blast
    obtain ls k1 r where k1: "kernel_run e k ls k1" "k_pool k1 = k_pool k" "k_agents k1 i = Done r"
      using agent_finishes i w stopping_alive[OF assms(1)] by blast
    let ?k = "k1\<lparr>k_pool := set_worker i (Sending t (task_result t r 0)) (k_pool k1)\<rparr>"
    have s: "kernel_step e k1 (KPool (LExec i)) ?k"
      using i w k1 stopping_alive[OF assms(1)] by (intro kernel_step.Finish) simp_all
    have "pool_inv (k_pool ?k)" by (rule kernel_pool_inv[OF s]) (use assms(1) in \<open>simp add: k1(2) stopping_def\<close>)
    then have "stopping (k_pool ?k)" using assms(1) by (simp add: stopping_def k1(2) set_worker_def)
    moreover have "sum_list (map work_left (workers (k_pool ?k))) < sum_list (map work_left (workers (k_pool k)))"
      by (rule work_decreases[OF i]) (simp_all add: w k1(2) set_worker_def)
    ultimately show ?thesis using kernel_run_append[OF k1(1) kernel_run_step[OF s]] by blast
  next
    case False
    then obtain ls q where q: "pool_run (k_pool k) ls q" "stopping q" "\<forall>l \<in> set ls. task_free l"
      "sum_list (map work_left (workers q)) < sum_list (map work_left (workers (k_pool k)))"
      using stop_progress_task_free[OF assms(1) i assms(3)] by blast
    from lift_queue_run[OF q(1) _ refl] q task_free_queue show ?thesis by metis
  qed
qed

lemma kernel_stop_finishes:
  assumes "pool_inv (k_pool k)" and "stop_begun (k_pool k)"
  shows "\<exists>ls k'. kernel_run e k ls k' \<and> queues_closed (k_pool k')"
  using assms
proof (induction "sum_list (map work_left (workers (k_pool k)))" arbitrary: k rule: less_induct)
  case less
  consider "queues_closed (k_pool k)" | w where "stopping (k_pool k)" "w \<in> set (workers (k_pool k))" "w \<noteq> Exited"
    | "stopping (k_pool k)" "\<forall>w \<in> set (workers (k_pool k)). w = Exited"
    using less.prems by (auto simp: stopping_def)
  then show ?case
  proof cases
    case 1
    then show ?thesis using kernel_Nil by blast
  next
    case 2
    then obtain ls k' where k': "kernel_run e k ls k'" "stopping (k_pool k')"
      "sum_list (map work_left (workers (k_pool k'))) < sum_list (map work_left (workers (k_pool k)))"
      using kernel_stop_progress by blast
    with less.hyps[of k'] obtain ls' k'' where "kernel_run e k' ls' k''" "queues_closed (k_pool k'')"
      by (auto simp: stopping_def)
    with k'(1) kernel_run_append show ?thesis by blast
  next
    case 3
    from wait_close[OF this] obtain ls
      where ls: "pool_run (k_pool k) ls ((k_pool k)\<lparr>waited := True, queues_closed := True\<rparr>)" "set ls \<subseteq> {LWait, LClose}" by blast
    then have "\<forall>l \<in> set ls. queue_label l" by auto
    from lift_queue_run[OF ls(1) this refl] show ?thesis by force
  qed
qed

end
