(* ===== verification/Kernel_Safety.thy ===== *)
theory Kernel_Safety
  imports Kernel
begin

text \<open>
  What the running kernel keeps true in every interleaving: what reaches the adapter and the receiver
  of the results, and what the audit chain holds of it.
\<close>

section \<open>What a task may do\<close>

definition guarded_history :: "'w Engine \<Rightarrow> string \<Rightarrow> Message list \<Rightarrow> bool" where
  "guarded_history e input ms \<longleftrightarrow>
     IsSafe (guard e input zero_config) \<and> safe_history e ms \<and> (\<exists>ext. ms = initial_messages input @ ext)"

fun stage_ok :: "'w Engine \<Rightarrow> stage \<Rightarrow> bool" where
  "stage_ok e (Answered (Inr out)) = IsSafe (guard e out zero_config)"
| "stage_ok e stg = True"

fun agent_ok :: "'w Engine \<Rightarrow> string \<Rightarrow> agent \<Rightarrow> bool" where
  "agent_ok e input ScanInput = True"
| "agent_ok e input (Requesting n ms) = guarded_history e input ms"
| "agent_ok e input (Asking n ms) = guarded_history e input ms"
| "agent_ok e input (Calling n ms calls rs stg) =
     (guarded_history e input ms \<and> (\<forall>x \<in> set rs. safe_result_msg e x) \<and> stage_ok e stg)"
| "agent_ok e input (Done (Inr out)) = IsSafe (guard e input zero_config)"
| "agent_ok e input (Done (Inl err)) = True"

lemma guarded_history_append:
  "guarded_history e input ms \<Longrightarrow> \<forall>r \<in> set (ToolResults m). safe_result_msg e r \<Longrightarrow> guarded_history e input (ms @ [m])"
  by (auto simp: guarded_history_def safe_history_def)

lemma guarded_history_initial: "IsSafe (guard e input zero_config) \<Longrightarrow> guarded_history e input (initial_messages input)"
  by (simp add: guarded_history_def safe_history_def initial_messages_def)

lemma call_step_frame: "call_step e taskID call stg st = (stg', st') \<Longrightarrow> llm_calls st' = llm_calls st"
  by (cases "(e, taskID, call, stg, st)" rule: call_step.cases)
    (auto simp: Let_def dest!: verifyToolOutput_cases split: sum.splits option.splits prod.splits)

lemma call_step_ok: "call_step e taskID call stg st = (stg', st') \<Longrightarrow> stage_ok e stg \<Longrightarrow> stage_ok e stg'"
  by (cases "(e, taskID, call, stg, st)" rule: call_step.cases)
    (auto simp: Let_def dest!: verifyToolOutput_cases split: sum.splits option.splits prod.splits)

text \<open>What a step adds to the requests: the messages of a worker that asks.\<close>

fun asks :: "agent \<Rightarrow> Message list list" where
  "asks (Asking n ms) = [ms]"
| "asks a = []"

lemma agent_step_requests:
  assumes "agent_step e ord taskID input (a, st) = (a', st')"
  shows "llm_calls st' = llm_calls st @ asks a"
proof (cases "\<exists>n ms call calls rs stg. a = Calling n ms (call # calls) rs stg \<and> (\<forall>r. stg \<noteq> Answered r)")
  case True
  then obtain n ms call calls rs stg where a: "a = Calling n ms (call # calls) rs stg" "\<forall>r. stg \<noteq> Answered r" by blast
  obtain stg1 st1 where c: "call_step e taskID call stg st = (stg1, st1)" by force
  have "st' = st1" using assms unfolding a(1) call_step_agent[OF a(2)] c by simp
  with call_step_frame[OF c] a show ?thesis by simp
next
  case False
  with assms show ?thesis
    by (cases "(e, ord, taskID, input, a, st)" rule: agent_step.cases)
      (auto simp: Let_def split: sum.splits prod.splits if_splits)
qed

lemma asks_ok: "agent_ok e input a \<Longrightarrow> req \<in> set (asks a) \<Longrightarrow> guarded_history e input req"
  by (cases a) auto

lemma agent_step_ok:
  assumes "agent_step e ord taskID input (a, st) = (a', st')" and "agent_ok e input a"
  shows "agent_ok e input a'"
proof (cases "\<exists>n ms call calls rs stg. a = Calling n ms (call # calls) rs stg \<and> (\<forall>r. stg \<noteq> Answered r)")
  case True
  then obtain n ms call calls rs stg where a: "a = Calling n ms (call # calls) rs stg" "\<forall>r. stg \<noteq> Answered r" by blast
  obtain stg1 st1 where c: "call_step e taskID call stg st = (stg1, st1)" by force
  have "a' = Calling n ms (call # calls) rs stg1" using assms(1) unfolding a(1) call_step_agent[OF a(2)] c by simp
  with call_step_ok[OF c] assms(2) a show ?thesis by simp
next
  case False
  with assms show ?thesis
    by (cases "(e, ord, taskID, input, a, st)" rule: agent_step.cases)
      (auto simp: Let_def result_message_def safe_result_msg_def tool_message_def assistant_message_def guarded_history_initial
        intro!: guarded_history_append intro: guarded_history_def[THEN iffD1, THEN conjunct1]
        split: sum.splits prod.splits if_splits)
qed

section \<open>What the kernel has done\<close>

text \<open>A result belongs to an accepted task, and is an output only if the guard accepted its input.\<close>

definition earned :: "'w Engine \<Rightarrow> Task list \<Rightarrow> Result \<Rightarrow> bool" where
  "earned e ts r \<longleftrightarrow>
     (\<exists>t \<in> set ts. t_ID t = r_TaskID r \<and> (r_Error r = None \<longrightarrow> IsSafe (guard e (t_Input t) zero_config)))"

definition kernel_ok :: "'w Engine \<Rightarrow> 'w kernel \<Rightarrow> bool" where
  "kernel_ok e k \<longleftrightarrow>
     (let p = k_pool k; ts = accepted p
      in set (taskQueue p) \<subseteq> set ts
         \<and> (\<forall>i t. worker_at i (Running t) p \<longrightarrow> t \<in> set ts \<and> agent_ok e (t_Input t) (k_agents k i))
         \<and> (\<forall>i t r. worker_at i (Sending t r) p \<longrightarrow> earned e ts r)
         \<and> (\<forall>r \<in> set (resultQueue p @ delivered p). earned e ts r)
         \<and> (\<forall>req \<in> set (llm_calls (k_run k)). \<exists>t \<in> set ts. guarded_history e (t_Input t) req))"

lemma earned_more: "earned e ts r \<Longrightarrow> earned e (ts @ ts') r"
  by (auto simp: earned_def)

lemma kernel_ok_init: "kernel_ok e (init_kernel n w)"
  by (simp add: kernel_ok_def init_kernel_def init_pool_def quiet_def worker_at_def Let_def)

lemma worker_at_set: "worker_at j w (set_worker i w0 p) \<Longrightarrow> j = i \<and> w = w0 \<or> worker_at j w p"
  by (cases "j = i") (auto simp: worker_at_def set_worker_def)

lemma set_worker_frame [simp]:
  "taskQueue (set_worker i w p) = taskQueue p" "accepted (set_worker i w p) = accepted p"
  "resultQueue (set_worker i w p) = resultQueue p" "delivered (set_worker i w p) = delivered p"
  by (simp_all add: set_worker_def)

lemma worker_at_frame [simp]:
  "worker_at i w (p\<lparr>taskQueue := q\<rparr>) = worker_at i w p" "worker_at i w (p\<lparr>accepted := q\<rparr>) = worker_at i w p"
  "worker_at i w (p\<lparr>resultQueue := rs\<rparr>) = worker_at i w p" "worker_at i w (p\<lparr>delivered := rs\<rparr>) = worker_at i w p"
  "worker_at i w (p\<lparr>panicked := b\<rparr>) = worker_at i w p" "worker_at i w (p\<lparr>taskPool := q\<rparr>) = worker_at i w p"
  "worker_at i w (p\<lparr>quit := b\<rparr>) = worker_at i w p" "worker_at i w (p\<lparr>stop_begun := b\<rparr>) = worker_at i w p"
  "worker_at i w (p\<lparr>queues_closed := b\<rparr>) = worker_at i w p" "worker_at i w (p\<lparr>waited := b\<rparr>) = worker_at i w p"
  "worker_at i w (p\<lparr>crashed := b\<rparr>) = worker_at i w p"
  by (simp_all add: worker_at_def)

lemma kernel_ok_step: "kernel_step e k l k' \<Longrightarrow> kernel_ok e k \<Longrightarrow> kernel_ok e k'"
proof (induction rule: kernel_step.induct)
  case (Boot k n p)
  have w: "worker_at i w (p'\<lparr>workers := workers p' @ replicate n Idle\<rparr>) \<Longrightarrow> w = Idle \<or> worker_at i w p'" for i w p'
    by (auto simp: worker_at_def nth_append split: if_splits)
  from Boot.hyps have "k_pool (k\<lparr>k_pool := p\<rparr>) = (k_pool k)\<lparr>workers := workers (k_pool k) @ replicate n Idle\<rparr>" by cases simp_all
  then show ?case using Boot.prems by (auto simp: kernel_ok_def Let_def log_boot_def dest!: w)
next
  case (Begin k l p i)
  note ok = Begin.prems[unfolded kernel_ok_def Let_def]
  from Begin.hyps(1) show ?case
  proof cases
    case (Take j t ts)
    then show ?thesis using ok Begin.hyps(2) by (auto simp: kernel_ok_def Let_def dest!: worker_at_set)
  next
    case (HandTask j t)
    then show ?thesis using ok Begin.hyps(2) by (auto simp: kernel_ok_def Let_def intro: earned_more dest!: worker_at_set)
  qed (use Begin.hyps(2) in simp_all)
next
  case (Agent k i t ord a st)
  note calls = agent_step_requests[OF Agent.hyps(4)]
  have t: "t \<in> set (accepted (k_pool k))" "agent_ok e (t_Input t) (k_agents k i)"
    using Agent.prems Agent.hyps(2) by (auto simp: kernel_ok_def Let_def)
  have "\<forall>j t'. worker_at j (Running t') (k_pool k) \<longrightarrow>
      t' \<in> set (accepted (k_pool k)) \<and> agent_ok e (t_Input t') (((k_agents k)(i := a)) j)"
    using Agent.prems agent_step_ok[OF Agent.hyps(4) t(2)] Agent.hyps(2) by (auto simp: kernel_ok_def Let_def worker_at_def)
  moreover have "\<forall>req \<in> set (llm_calls st). \<exists>t \<in> set (accepted (k_pool k)). guarded_history e (t_Input t) req"
    using Agent.prems asks_ok[OF t(2)] t(1) unfolding calls by (auto simp: kernel_ok_def Let_def)
  ultimately show ?case using Agent.prems by (simp add: kernel_ok_def Let_def)
next
  case (Finish k i t r d)
  have "t \<in> set (accepted (k_pool k)) \<and> agent_ok e (t_Input t) (k_agents k i)"
    using Finish.prems Finish.hyps(2) unfolding kernel_ok_def Let_def by blast
  then have t: "t \<in> set (accepted (k_pool k))" "agent_ok e (t_Input t) (Done r)" using Finish.hyps(3) by simp_all
  then have "earned e (accepted (k_pool k)) (task_result t r d)"
    unfolding earned_def by (intro bexI[of _ t]; cases r; simp add: task_result_def)
  then show ?case using Finish.prems by (auto simp: kernel_ok_def Let_def dest!: worker_at_set)
next
  case (Queue k l p)
  note ok = Queue.prems[unfolded kernel_ok_def Let_def]
  from Queue.hyps(1) show ?case
  proof cases
    case (Submit t r)
    then show ?thesis
      using ok by (fastforce simp: kernel_ok_def Let_def Submit_def intro: earned_more split: if_splits)
  next
    case (Send i t r)
    then show ?thesis using ok by (auto simp: kernel_ok_def Let_def dest!: worker_at_set)
  next
    case (HandResult i t r)
    then show ?thesis using ok by (auto simp: kernel_ok_def Let_def dest!: worker_at_set)
  next
    case (Quit i)
    then show ?thesis using ok by (auto simp: kernel_ok_def Let_def dest!: worker_at_set)
  qed (use Queue.hyps(2) ok in \<open>auto simp: kernel_ok_def Let_def\<close>)
next
  case (World k w)
  then show ?case by (simp add: kernel_ok_def Let_def)
qed

section \<open>What the audit chain holds\<close>

text \<open>
  The events of the requests, as the numbers of messages they carry; every request to the adapter has
  its event, and beyond them only the workers that are about to ask.
\<close>

definition request_counts :: "'w run_state \<Rightarrow> json option option multiset" where
  "request_counts st = mset (map (\<lambda>ev. map_of (the (ev_Metadata ev)) ''messages_count'')
     (filter (\<lambda>ev. ev_Type ev = ''AUDIT_LLM_REQUEST'') (map snd (audit_log st))))"

definition message_counts :: "Message list list \<Rightarrow> json option option multiset" where
  "message_counts reqs = mset (map (\<lambda>req. Some (Some (JInt (int (length req))))) reqs)"

lemma message_counts_append [simp]: "message_counts (a @ b) = message_counts a + message_counts b"
  "message_counts [] = {#}"
  by (simp_all add: message_counts_def)

lemma request_counts_world [simp]: "request_counts (st\<lparr>world := w\<rparr>) = request_counts st"
  "request_counts (st\<lparr>world := w, llm_calls := c\<rparr>) = request_counts st"
  by (simp_all add: request_counts_def)

lemma LogEvent_counts:
  "typ \<noteq> ''AUDIT_LLM_REQUEST'' \<Longrightarrow> request_counts (LogEvent e ident typ actor md st) = request_counts st"
  "audit_on e \<Longrightarrow> request_counts (LogEvent e ident ''AUDIT_LLM_REQUEST'' actor [(k, v), (''messages_count'', n)] st)
     = add_mset (if k = ''messages_count'' then Some (Some v) else Some (Some n)) (request_counts st)"
  by (auto simp: LogEvent_def request_counts_def Let_def split: prod.split)

lemma verifyToolOutput_counts: "verifyToolOutput e taskID out st = (r, st') \<Longrightarrow> request_counts st' = request_counts st"
  by (auto simp: verifyToolOutput_def LogEvent_counts Let_def split: if_splits)

lemma call_step_counts: "call_step e taskID call stg st = (stg', st') \<Longrightarrow> request_counts st' = request_counts st"
  by (cases "(e, taskID, call, stg, st)" rule: call_step.cases)
    (auto simp: Let_def LogEvent_counts dest!: verifyToolOutput_counts split: sum.splits option.splits prod.splits)

lemma agent_step_counts:
  assumes "audit_on e" and "agent_step e ord taskID input (a, st) = (a', st')"
  shows "request_counts st' + message_counts (asks a) = request_counts st + message_counts (asks a) + message_counts (asks a')"
proof (cases "\<exists>n ms call calls rs stg. a = Calling n ms (call # calls) rs stg \<and> (\<forall>r. stg \<noteq> Answered r)")
  case True
  then obtain n ms call calls rs stg where a: "a = Calling n ms (call # calls) rs stg" "\<forall>r. stg \<noteq> Answered r" by blast
  obtain stg1 st1 where c: "call_step e taskID call stg st = (stg1, st1)" by force
  have "st' = st1" "a' = Calling n ms (call # calls) rs stg1" using assms(2) unfolding a(1) call_step_agent[OF a(2)] c by simp_all
  with call_step_counts[OF c] a show ?thesis by simp
next
  case False
  with assms show ?thesis
    by (cases "(e, ord, taskID, input, a, st)" rule: agent_step.cases)
      (auto simp: Let_def LogEvent_counts message_counts_def split: sum.splits prod.splits if_splits)
qed

definition asked_by :: "'w kernel \<Rightarrow> nat \<Rightarrow> json option option multiset" where
  "asked_by k i = (case workers (k_pool k) ! i of Running t \<Rightarrow> message_counts (asks (k_agents k i)) | _ \<Rightarrow> {#})"

definition audit_inv :: "'w kernel \<Rightarrow> bool" where
  "audit_inv k \<longleftrightarrow>
     request_counts (k_run k) = message_counts (llm_calls (k_run k)) + (\<Sum>i<length (workers (k_pool k)). asked_by k i)"

lemma audit_inv_init: "audit_inv (init_kernel n w)"
  by (simp add: audit_inv_def init_kernel_def init_pool_def quiet_def request_counts_def)

lemma audit_inv_same:
  assumes "audit_inv k" and "request_counts (k_run k') = request_counts (k_run k)" and "llm_calls (k_run k') = llm_calls (k_run k)"
    and "length (workers (k_pool k')) = length (workers (k_pool k))"
    and "\<And>i. i < length (workers (k_pool k)) \<Longrightarrow> asked_by k' i = asked_by k i"
  shows "audit_inv k'"
  using assms by (simp add: audit_inv_def)

lemma audit_inv_step: "kernel_step e k l k' \<Longrightarrow> audit_on e \<Longrightarrow> audit_inv k \<Longrightarrow> audit_inv k'"
proof (induction rule: kernel_step.induct)
  case (Boot k n p)
  let ?k = "k\<lparr>k_pool := p, k_run := log_boot e n (k_run k)\<rparr>"
  have w: "workers p = workers (k_pool k) @ replicate n Idle" using Boot.hyps by (auto elim!: pool_stepE)
  have "(\<Sum>i<length (workers p). asked_by ?k i) = (\<Sum>i<length (workers (k_pool k)). asked_by ?k i)"
    by (rule sum.mono_neutral_right) (auto simp: w asked_by_def nth_append)
  also have "\<dots> = (\<Sum>i<length (workers (k_pool k)). asked_by k i)"
    by (rule sum.cong) (simp_all add: w asked_by_def nth_append split: worker.split)
  finally show ?case using Boot.prems by (simp add: audit_inv_def log_boot_def LogEvent_counts)
next
  case (Begin k l p i)
  then show ?case
    by (intro audit_inv_same[OF Begin.prems(2)])
      (auto elim!: pool_stepE simp: asked_by_def set_worker_def worker_at_def nth_list_update split: worker.split)
next
  case (Agent k i t ord a st)
  let ?k = "k\<lparr>k_agents := (k_agents k)(i := a), k_run := st\<rparr>" and ?I = "{..<length (workers (k_pool k))}"
  have i: "i \<in> ?I" "workers (k_pool k) ! i = Running t" using Agent.hyps(2) by (simp_all add: worker_at_def)
  have "(\<Sum>j\<in>?I - {i}. asked_by ?k j) = (\<Sum>j\<in>?I - {i}. asked_by k j)"
    by (rule sum.cong) (auto simp: asked_by_def split: worker.split)
  then have sums: "sum (asked_by ?k) ?I = message_counts (asks a) + (\<Sum>j\<in>?I - {i}. asked_by k j)"
    "sum (asked_by k) ?I = message_counts (asks (k_agents k i)) + (\<Sum>j\<in>?I - {i}. asked_by k j)"
    using i by (simp_all add: sum.remove[of ?I i]) (simp_all add: asked_by_def)
  show ?case
    using Agent.prems agent_step_counts[OF Agent.prems(1) Agent.hyps(4)] agent_step_requests[OF Agent.hyps(4)]
    unfolding audit_inv_def by (simp add: sums ac_simps)
next
  case (Finish k i t r d)
  then show ?case
    by (intro audit_inv_same[OF Finish.prems(2)]) (auto simp: asked_by_def set_worker_def worker_at_def nth_list_update split: worker.split)
next
  case (Queue k l p)
  then show ?case
    by (intro audit_inv_same[OF Queue.prems(2)])
      (auto elim!: pool_stepE simp: Submit_def asked_by_def set_worker_def worker_at_def nth_list_update split: if_splits worker.split)
next
  case (World k w)
  show ?case by (intro audit_inv_same[OF World.prems(2)]) (auto simp: asked_by_def split: worker.split)
qed

section \<open>Theorems\<close>

lemma kernel_ok_reached: "kernel_run e (init_kernel n w) ls k \<Longrightarrow> kernel_ok e k"
  by (erule kernel_run_invariant) (rule kernel_ok_init, rule kernel_ok_step)

lemma kernel_pool_reached: "kernel_run e (init_kernel n w) ls k \<Longrightarrow> pool_run (init_pool n) (pool_labels ls) (k_pool k)"
  using kernel_run_pool[of e "init_kernel n w" ls k] by (simp add: init_kernel_def)

lemma audit_inv_reached:
  assumes "kernel_run e (init_kernel n w) ls k" and "audit_on e"
  shows "audit_inv k"
  using assms(1) by (rule kernel_run_invariant) (rule audit_inv_init, rule audit_inv_step[OF _ assms(2)])

text \<open>A task from its submission to its result, on an engine with an audit chain; then \<open>Stop\<close> begins.\<close>

definition audited_engine :: "unit Engine" where
  "audited_engine = WithAuditLogger (NewEngine (Pair (0, 0)) (MockOllama id) pattern_order)"

definition hello_task :: Task where
  "hello_task = \<lparr>t_ID = ''t1'', t_System = [], t_Input = ''hello'', t_CreatedAt = 0\<rparr>"

lemma hello_steps:
  shows "agent_step audited_engine ord ''t1'' ''hello'' (ScanInput, st) = (Requesting 10 (initial_messages ''hello''), st)"
    and "\<exists>st'. agent_step audited_engine ord ''t1'' ''hello'' (Requesting (Suc n) ms, st) = (Asking n ms, st')"
    and "agent_step audited_engine ord ''t1'' ''hello'' (Asking 9 (initial_messages ''hello''), st) =
      (Done (Inr ''I am a mocked intelligence. I did not detect any tool triggers.''),
       st\<lparr>llm_calls := llm_calls st @ [initial_messages ''hello'']\<rparr>)"
  using hello_accepted
  by (simp_all add: audited_engine_def NewEngine_def WithAuditLogger_def maxAgentIterations_def MockOllama_def initial_messages_def
      ToLower_def ascii_def byte_def lower_ascii_def HasPrefix_def)

lemma hello_run:
  "\<exists>ls k. kernel_run audited_engine (init_kernel 1 ()) ls k \<and> stop_begun (k_pool k) \<and> accepted (k_pool k) = [hello_task]
     \<and> delivered (k_pool k) \<noteq> [] \<and> llm_calls (k_run k) = [initial_messages ''hello'']"
proof -
  let ?e = audited_engine and ?r = "task_result hello_task (Inr ''I am a mocked intelligence. I did not detect any tool triggers.'') 0"
  let ?p0 = "init_pool 1"
  let ?p1 = "?p0\<lparr>workers := workers ?p0 @ replicate 1 Idle\<rparr>"
  let ?p2 = "?p1\<lparr>taskQueue := taskQueue ?p1 @ [hello_task], accepted := accepted ?p1 @ [hello_task]\<rparr>"
  let ?p3 = "(set_worker 0 (Running hello_task) ?p2)\<lparr>taskQueue := []\<rparr>"
  let ?p4 = "set_worker 0 (Sending hello_task ?r) ?p3"
  let ?p5 = "(set_worker 0 Idle ?p4)\<lparr>resultQueue := resultQueue ?p4 @ [?r], taskPool := recycleTask hello_task (taskPool ?p4)\<rparr>"
  let ?p6 = "?p5\<lparr>resultQueue := [], delivered := delivered ?p5 @ [?r]\<rparr>"
  let ?p7 = "?p6\<lparr>stop_begun := True, quit := True\<rparr>"
  let ?ag = "\<lambda>a. (\<lambda>i. ScanInput)(0 := a)"
  have w: "worker_at 0 (Running hello_task) ?p3" "worker_at 0 Idle ?p2" "worker_at 0 (Sending hello_task ?r) ?p4"
    by (simp_all add: worker_at_def set_worker_def init_pool_def)
  obtain st where st: "agent_step ?e (\<lambda>i. []) ''t1'' ''hello'' (Requesting 10 (initial_messages ''hello''), log_boot ?e 1 (quiet ())) =
      (Asking 9 (initial_messages ''hello''), st)"
    using hello_steps(2)[of "\<lambda>i. []" 9 "initial_messages ''hello''"] by auto
  have no_calls: "llm_calls st = []"
    using agent_step_requests[OF st] by (simp add: log_boot_def quiet_def)
  let ?st = "st\<lparr>llm_calls := llm_calls st @ [initial_messages ''hello'']\<rparr>"
  let ?K = "\<lambda>p a st. \<lparr>k_pool = p, k_agents = ?ag a, k_run = st\<rparr>" and ?b = "log_boot ?e 1 (quiet ())"
  let ?ms = "initial_messages ''hello''"
  let ?d = "Done (Inr ''I am a mocked intelligence. I did not detect any tool triggers.'')"
  have s1: "kernel_step ?e (?K ?p0 ScanInput (quiet ())) (KPool (LStart 1)) (?K ?p1 ScanInput ?b)"
    using kernel_step.Boot[of "?K ?p0 ScanInput (quiet ())" 1 ?p1 ?e] pool_step.Start[of ?p0 1] by (simp add: init_pool_def)
  have s2: "kernel_step ?e (?K ?p1 ScanInput ?b) (KPool (LSubmit hello_task)) (?K ?p2 ScanInput ?b)"
    using kernel_step.Queue[of "?K ?p1 ScanInput ?b" "LSubmit hello_task" ?p2 ?e] pool_step.Submit[of ?p1 hello_task Submitted ?p2]
    by (simp add: Submit_def init_pool_def)
  have s3: "kernel_step ?e (?K ?p2 ScanInput ?b) (KPool (LTake 0)) (?K ?p3 ScanInput ?b)"
    using kernel_step.Begin[of "?K ?p2 ScanInput ?b" "LTake 0" ?p3 0 ?e] pool_step.Take[OF _ w(2), of hello_task "[]"]
    by (simp add: init_pool_def)
  have s4: "kernel_step ?e (?K ?p3 ScanInput ?b) (KAgent 0) (?K ?p3 (Requesting 10 ?ms) ?b)"
    using kernel_step.Agent[of "?K ?p3 ScanInput ?b" 0 hello_task ?e "\<lambda>i. []" "Requesting 10 ?ms" ?b] w(1) hello_steps(1)
    by (simp add: hello_task_def set_worker_def init_pool_def)
  have s5: "kernel_step ?e (?K ?p3 (Requesting 10 ?ms) ?b) (KAgent 0) (?K ?p3 (Asking 9 ?ms) st)"
    using kernel_step.Agent[of "?K ?p3 (Requesting 10 ?ms) ?b" 0 hello_task ?e "\<lambda>i. []" "Asking 9 ?ms" st] w(1) st
    by (simp add: hello_task_def set_worker_def init_pool_def)
  have s6: "kernel_step ?e (?K ?p3 (Asking 9 ?ms) st) (KAgent 0) (?K ?p3 ?d ?st)"
    using kernel_step.Agent[of "?K ?p3 (Asking 9 ?ms) st" 0 hello_task ?e "\<lambda>i. []" ?d ?st] w(1) hello_steps(3)[of "\<lambda>i. []" st]
    by (simp add: hello_task_def set_worker_def init_pool_def)
  have s7: "kernel_step ?e (?K ?p3 ?d ?st) (KPool (LExec 0)) (?K ?p4 ?d ?st)"
    using kernel_step.Finish[of "?K ?p3 ?d ?st" 0 hello_task _ ?e 0] w(1) by (simp add: set_worker_def init_pool_def)
  have s8: "kernel_step ?e (?K ?p4 ?d ?st) (KPool (LSend 0)) (?K ?p5 ?d ?st)"
    using kernel_step.Queue[of "?K ?p4 ?d ?st" "LSend 0" ?p5 ?e] pool_step.Send[OF _ w(3)] by (simp add: set_worker_def init_pool_def)
  have s9: "kernel_step ?e (?K ?p5 ?d ?st) (KPool LRecv) (?K ?p6 ?d ?st)"
    using kernel_step.Queue[of "?K ?p5 ?d ?st" LRecv ?p6 ?e] pool_step.Recv[of ?p5 ?r "[]"] by (simp add: set_worker_def init_pool_def)
  have s10: "kernel_step ?e (?K ?p6 ?d ?st) (KPool LStop) (?K ?p7 ?d ?st)"
    using kernel_step.Queue[of "?K ?p6 ?d ?st" LStop ?p7 ?e] pool_step.Stop[of ?p6] by (simp add: set_worker_def init_pool_def)
  note run = kernel_Cons[OF s1 kernel_Cons[OF s2 kernel_Cons[OF s3 kernel_Cons[OF s4 kernel_Cons[OF s5
    kernel_Cons[OF s6 kernel_Cons[OF s7 kernel_Cons[OF s8 kernel_Cons[OF s9 kernel_run_step[OF s10]]]]]]]]]]
  have "?K ?p0 ScanInput (quiet ()) = init_kernel 1 ()" by (simp add: init_kernel_def fun_eq_iff)
  with run no_calls show ?thesis
    by (intro exI[of _ "?K ?p7 ?d ?st"] exI conjI) (simp_all add: set_worker_def init_pool_def)
qed

text \<open>
  C1: However the workers interleave and whatever adapter, tools and the rest of the world do: every request
  to the LLM starts with the input of an accepted task that the guard let through, its tool results are error texts or
  outputs that the guard let through as well, and every result that is delivered belongs to an accepted task
  and is an error unless the guard let its input through.
\<close>

theorem kernel_exposes_only_guarded_text:
  assumes "kernel_run e (init_kernel n w) ls k"
  shows "(\<forall>req \<in> set (llm_calls (k_run k)). \<exists>t \<in> set (accepted (k_pool k)).
        IsSafe (guard e (t_Input t) zero_config) \<and> safe_history e req \<and> (\<exists>ext. req = initial_messages (t_Input t) @ ext))
    \<and> (\<forall>r \<in> set (delivered (k_pool k)). \<exists>t \<in> set (accepted (k_pool k)).
        t_ID t = r_TaskID r \<and> (r_Error r = None \<longrightarrow> IsSafe (guard e (t_Input t) zero_config)))"
  using kernel_ok_reached[OF assms] by (auto simp: kernel_ok_def Let_def earned_def guarded_history_def)

lemma kernel_exposes_only_guarded_text_witness:
  "\<exists>ls k. kernel_run audited_engine (init_kernel 1 ()) ls k \<and> delivered (k_pool k) \<noteq> [] \<and> accepted (k_pool k) = [hello_task]
     \<and> (\<forall>r \<in> set (delivered (k_pool k)). r_TaskID r = ''t1'')"
proof -
  obtain ls k where k: "kernel_run audited_engine (init_kernel 1 ()) ls k" "accepted (k_pool k) = [hello_task]" "delivered (k_pool k) \<noteq> []"
    using hello_run by blast
  from kernel_exposes_only_guarded_text[OF k(1)] have "\<forall>r \<in> set (delivered (k_pool k)). r_TaskID r = ''t1''"
    unfolding k(2) by (auto simp: hello_task_def)
  with k show ?thesis by blast
qed

text \<open>
  C4: The audit trail of the running kernel: at every moment, in every interleaving, the chain verifies, it holds the
  events that were logged in their order, and no request has reached the LLM without an event of its number of messages.
\<close>

theorem audit_trail_is_complete:
  assumes "kernel_run e (init_kernel n w) ls k" and "audit_on e"
  shows "let blocks = LogEvents sha256 (audit_log (k_run k)) (NewChainManager sha256 now); events = map block_Event (tl blocks)
    in VerifyChain sha256 blocks = (True, None) \<and> events = map snd (audit_log (k_run k)) \<and>
       message_counts (llm_calls (k_run k)) \<subseteq>#
         mset (map (\<lambda>ev. map_of (the (ev_Metadata ev)) ''messages_count'') (filter (\<lambda>ev. ev_Type ev = ''AUDIT_LLM_REQUEST'') events))"
proof -
  let ?blocks = "LogEvents sha256 (audit_log (k_run k)) (NewChainManager sha256 now)"
  obtain g where g: "NewChainManager sha256 now = [g]" by (simp add: NewChainManager_def Let_def)
  have "VerifyChain sha256 ?blocks = (True, None)" by (rule LogEvents_verifies) (simp_all add: g VerifyChain_def)
  moreover have events: "map block_Event (tl ?blocks) = map snd (audit_log (k_run k))"
    using LogEvents_events[of sha256 "audit_log (k_run k)" "[g]"] by (simp add: g map_tl)
  moreover have "mset (map (\<lambda>ev. map_of (the (ev_Metadata ev)) ''messages_count'')
      (filter (\<lambda>ev. ev_Type ev = ''AUDIT_LLM_REQUEST'') (map snd (audit_log (k_run k))))) = request_counts (k_run k)"
    by (simp only: request_counts_def)
  moreover have "message_counts (llm_calls (k_run k)) \<subseteq># request_counts (k_run k)"
    using audit_inv_reached[OF assms] by (simp add: audit_inv_def)
  ultimately show ?thesis unfolding Let_def events by (simp only: simp_thms)
qed

lemma audit_trail_is_complete_witness:
  "\<exists>ls k. kernel_run audited_engine (init_kernel 1 ()) ls k \<and> llm_calls (k_run k) = [initial_messages ''hello'']
     \<and> (\<exists>b \<in> set (LogEvents id (audit_log (k_run k)) (NewChainManager id (0, 0))). ev_Type (block_Event b) = ''AUDIT_LLM_REQUEST'')"
proof -
  obtain ls k where k: "kernel_run audited_engine (init_kernel 1 ()) ls k" "llm_calls (k_run k) = [initial_messages ''hello'']"
    using hello_run by blast
  let ?blocks = "LogEvents id (audit_log (k_run k)) (NewChainManager id (0, 0))"
  have "audit_on audited_engine" by (simp add: audited_engine_def WithAuditLogger_def)
  from audit_trail_is_complete[OF k(1) this, of id "(0, 0)"]
  have "message_counts (llm_calls (k_run k)) \<subseteq># mset (map (\<lambda>ev. map_of (the (ev_Metadata ev)) ''messages_count'')
      (filter (\<lambda>ev. ev_Type ev = ''AUDIT_LLM_REQUEST'') (map block_Event (tl ?blocks))))"
    unfolding Let_def by blast
  moreover have "message_counts (llm_calls (k_run k)) \<noteq> {#}" by (simp add: k(2) message_counts_def)
  ultimately have "filter (\<lambda>ev. ev_Type ev = ''AUDIT_LLM_REQUEST'') (map block_Event (tl ?blocks)) \<noteq> []"
    by (metis list.simps(8) mset.simps(1) subset_mset.le_zero_eq)
  then obtain b where "b \<in> set (tl ?blocks)" "ev_Type (block_Event b) = ''AUDIT_LLM_REQUEST''" by (auto simp: filter_empty_conv)
  then show ?thesis using k list.set_sel(2) by (metis tl_Nil)
qed

text \<open>
  C15: \<open>Stop\<close> can always finish: from every state of the kernel in which it has begun, in the middle of whatever tasks and
  with whatever queue size, there is a way on which every task comes to its end, the workers exit and the queues are closed,
  provided the results are received.
\<close>

theorem kernel_can_stop:
  assumes "kernel_run e (init_kernel n w) ls k" and "stop_begun (k_pool k)"
  shows "\<exists>ls' k'. kernel_run e k ls' k' \<and> queues_closed (k_pool k')"
  using kernel_pool_reached[OF assms(1)] assms(2)
  by (intro kernel_stop_finishes pool_inv_reachable) (auto simp: reachable_pool_def)

lemma kernel_can_stop_witness:
  "\<exists>ls k ls' k'. kernel_run audited_engine (init_kernel 1 ()) ls k \<and> delivered (k_pool k) \<noteq> []
     \<and> kernel_run audited_engine k ls' k' \<and> queues_closed (k_pool k')"
proof -
  obtain ls k where k: "kernel_run audited_engine (init_kernel 1 ()) ls k" "stop_begun (k_pool k)" "delivered (k_pool k) \<noteq> []"
    using hello_run by blast
  from kernel_can_stop[OF k(1,2)] k show ?thesis by auto
qed

end
