(* ===== verification/Go_Path.thy ===== *)
theory Go_Path
  imports Go_Strings
begin

text \<open>
  \<open>path/filepath\<close> on Unix: \<open>Clean\<close>, which drops empty and \<open>.\<close> elements and resolves \<open>..\<close>, and \<open>Join\<close> of two
  elements.
\<close>

fun clean_elems :: "bool \<Rightarrow> string list \<Rightarrow> string list \<Rightarrow> string list" where
  "clean_elems rooted st [] = rev st"
| "clean_elems rooted st (c # cs) =
     (if c = [] \<or> c = ''.'' then clean_elems rooted st cs
      else if c = ''..'' then
        (case st of
           [] \<Rightarrow> clean_elems rooted (if rooted then [] else [c]) cs
         | t # st' \<Rightarrow> clean_elems rooted (if t = ''..'' then c # st else st') cs)
      else clean_elems rooted (c # st) cs)"

definition filepath_Clean :: "string \<Rightarrow> string" where
  "filepath_Clean p =
     (let rooted = (p \<noteq> [] \<and> hd p = CHR ''/'');
          r = join_with (CHR ''/'') (clean_elems rooted [] (Split (CHR ''/'') p))
      in if rooted then CHR ''/'' # r else if r = [] then ''.'' else r)"

definition filepath_Join :: "string \<Rightarrow> string \<Rightarrow> string" where
  "filepath_Join a b =
     (if a \<noteq> [] then filepath_Clean (a @ CHR ''/'' # b) else if b \<noteq> [] then filepath_Clean b else [])"

text \<open>A name is an element that stays; a clean absolute path is built of names.\<close>

definition path_name :: "string \<Rightarrow> bool" where
  "path_name c \<longleftrightarrow> c \<noteq> [] \<and> c \<noteq> ''.'' \<and> c \<noteq> ''..'' \<and> CHR ''/'' \<notin> set c"

definition abs_path :: "string list \<Rightarrow> string" where
  "abs_path cs = CHR ''/'' # join_with (CHR ''/'') cs"

lemma clean_names: "\<forall>c \<in> set cs. path_name c \<Longrightarrow> clean_elems rooted st cs = rev st @ cs"
  by (induction cs arbitrary: st) (auto simp: path_name_def)

lemma join_with_snoc: "cs \<noteq> [] \<Longrightarrow> join_with sep (cs @ [c]) = join_with sep cs @ sep # c"
  by (induction sep cs rule: join_with.induct) auto

lemma Split_abs_path:
  assumes "cs \<noteq> []" and "\<forall>c \<in> set cs. path_name c"
  shows "Split (CHR ''/'') (abs_path cs) = [] # cs"
proof -
  have "Split (CHR ''/'') (join_with (CHR ''/'') cs) = cs"
    by (rule Split_join_with) (use assms in \<open>auto simp: path_name_def\<close>)
  then show ?thesis by (simp add: abs_path_def)
qed

lemma Clean_abs_path:
  assumes "cs \<noteq> []" and "\<forall>c \<in> set cs. path_name c"
  shows "filepath_Clean (abs_path cs) = abs_path cs"
  by (simp add: filepath_Clean_def Split_abs_path[OF assms] clean_names[OF assms(2)]) (simp add: abs_path_def)

lemma Join_abs_path:
  assumes "cs \<noteq> []" and "\<forall>c \<in> set cs. path_name c" and "path_name c"
  shows "filepath_Join (abs_path cs) c = abs_path (cs @ [c])"
proof -
  have "abs_path cs @ CHR ''/'' # c = abs_path (cs @ [c])"
    using assms(1) by (simp add: abs_path_def join_with_snoc)
  moreover have "filepath_Clean (abs_path (cs @ [c])) = abs_path (cs @ [c])"
    by (rule Clean_abs_path) (use assms in auto)
  ultimately show ?thesis by (simp add: filepath_Join_def) (simp add: abs_path_def)
qed

end
