(* ===== verification/Ipc_Client.thy ===== *)
theory Ipc_Client
  imports Agent_Engine Go_Path
begin

text \<open>
  The client of the Rust sandbox, \<open>core/ipc_client.go\<close>: the path of its socket, and opening and closing the connection,
  with gRPC as parameters; the calls over it are in \<open>Agent_Engine\<close>.
\<close>

text \<open>\<open>os.TempDir\<close> on Unix.\<close>

definition TempDir :: "(string \<Rightarrow> string) \<Rightarrow> string" where
  "TempDir Getenv = (if Getenv ''TMPDIR'' = [] then ''/tmp'' else Getenv ''TMPDIR'')"

definition IPCSocketPath :: "(string \<Rightarrow> string) \<Rightarrow> string" where
  "IPCSocketPath Getenv = filepath_Join (TempDir Getenv) ''aether-sandbox.sock''"

record ('c, 'w) SandboxClient =
  sb_conn :: "'c option"
  sb_client :: "'w sandbox_rpc"

text \<open>\<open>grpc.NewClient\<close> gives an error or a connection, on which the generated client is made.\<close>

definition NewSandboxClient ::
    "(string \<Rightarrow> string + 'c) \<Rightarrow> ('c \<Rightarrow> 'w sandbox_rpc) \<Rightarrow> (string \<Rightarrow> string) \<Rightarrow> string + ('c, 'w) SandboxClient" where
  "NewSandboxClient NewClient stub Getenv =
     (let socketPath = IPCSocketPath Getenv in
      case NewClient (''unix://'' @ socketPath) of
        Inl err \<Rightarrow> Inl (''failed to create gRPC client for layer 2 sandbox over uds: '' @ err)
      | Inr conn \<Rightarrow> Inr \<lparr>sb_conn = Some conn, sb_client = stub conn\<rparr>)"

definition SandboxClient_Close :: "('c \<Rightarrow> string option) \<Rightarrow> ('c, 'w) SandboxClient \<Rightarrow> string option" where
  "SandboxClient_Close close c = (case sb_conn c of None \<Rightarrow> None | Some conn \<Rightarrow> close conn)"

text \<open>In a clean absolute directory the socket is a file of that directory; without \<open>TMPDIR\<close> it is in \<open>/tmp\<close>.\<close>

lemma socket_in_directory:
  assumes "TempDir Getenv = abs_path cs" and "cs \<noteq> []" and "\<forall>c \<in> set cs. path_name c"
  shows "IPCSocketPath Getenv = abs_path (cs @ [''aether-sandbox.sock''])"
proof -
  have "path_name ''aether-sandbox.sock''" by (simp add: path_name_def)
  with assms show ?thesis by (simp add: IPCSocketPath_def Join_abs_path)
qed

lemma default_socket: "Getenv ''TMPDIR'' = [] \<Longrightarrow> IPCSocketPath Getenv = ''/tmp/aether-sandbox.sock''"
proof -
  assume "Getenv ''TMPDIR'' = []"
  then have "TempDir Getenv = abs_path [''tmp'']" by (simp add: TempDir_def abs_path_def)
  from socket_in_directory[OF this] show ?thesis by (simp add: path_name_def abs_path_def)
qed

end
