(* ===== verification/Go_Json_Safety.thy ===== *)
theory Go_Json_Safety
  imports Go_Json_Roundtrip
begin

text \<open>
  Two facts about every text the decoder is given: an object that is cut off is not read, and what is
  read has valid strings and keeps the nesting limit.
\<close>

section \<open>Texts that are cut off\<close>

lemma str_body_append: "str_body s = Some (b, t) \<Longrightarrow> str_body (s @ q) = Some (b, t @ q)"
proof (induction s arbitrary: b t rule: str_body.induct)
  case (2 c s)
  note eq = "2.prems"[unfolded str_body.simps(2)[of c s]]
  note app = str_body.simps(2)[of c "s @ q"]
  consider "c = CHR 0x22" | "c = CHR 0x5C" | "c \<noteq> CHR 0x22" "c \<noteq> CHR 0x5C" by blast
  then show ?case
  proof cases
    case 1
    with eq app show ?thesis by simp
  next
    case bs: 2
    then obtain d s' where s: "s = d # s'" using eq by (cases s) auto
    show ?thesis
    proof (cases "simple_escape d")
      case True
      with eq app bs s "2.IH"(1)[OF _ bs s True] show ?thesis by (auto simp: cons_body_Some)
    next
      case False
      with eq bs s obtain h1 h2 h3 h4 s'' where u: "d = CHR ''u''" "s' = h1 # h2 # h3 # h4 # s''"
        "is_hex h1 \<and> is_hex h2 \<and> is_hex h3 \<and> is_hex h4"
        by (auto split: if_splits list.splits)
      with eq app bs s False "2.IH"(2)[OF _ bs s False u(1) u(2) refl refl refl u(3)] show ?thesis
        by (auto simp: cons_body_Some)
    qed
  next
    case 3
    with eq app "2.IH"(3)[OF 3] show ?thesis by (auto simp: cons_body_Some split: if_splits)
  qed
qed simp

lemma digits_append:
  assumes "dropWhile P s \<noteq> []"
  shows "takeWhile P (s @ q) = takeWhile P s" "dropWhile P (s @ q) = dropWhile P s @ q"
proof -
  obtain x where "x \<in> set s" "\<not> P x" using assms by (auto simp: dropWhile_eq_Nil_conv)
  then show "takeWhile P (s @ q) = takeWhile P s" "dropWhile P (s @ q) = dropWhile P s @ q"
    by (simp_all add: takeWhile_append1 dropWhile_append1)
qed

lemma lex_int_append: "lex_int s = Some (n, t) \<Longrightarrow> t \<noteq> [] \<Longrightarrow> lex_int (s @ q) = Some (n, t @ q)"
  using digits_append[of is_digit s q] by (cases s) (auto simp: lex_int_def simp del: takeWhile.simps dropWhile.simps split: if_splits)

lemma lex_frac_append: "lex_frac s = Some (n, t) \<Longrightarrow> t \<noteq> [] \<Longrightarrow> lex_frac (s @ q) = Some (n, t @ q)"
  using digits_append[of is_digit "tl s" q] by (cases s) (auto simp: lex_frac_def split: if_splits)

lemma lex_exp_append:
  assumes "lex_exp s = Some (n, t)" and "t \<noteq> []"
  shows "lex_exp (s @ q) = Some (n, t @ q)"
proof (cases s)
  case (Cons c r)
  show ?thesis
  proof (cases "c = CHR ''e'' \<or> c = CHR ''E''")
    case True
    define sg where "sg r = (case r of [] \<Rightarrow> [] | d # _ \<Rightarrow> if d = CHR ''+'' \<or> d = CHR ''-'' then [d] else [])" for r
    have e: "lex_exp (c # r) = (if takeWhile is_digit (drop (length (sg r)) r) = [] then None
        else Some (c # sg r @ takeWhile is_digit (drop (length (sg r)) r), dropWhile is_digit (drop (length (sg r)) r)))" for r
      using True by (simp add: lex_exp_def sg_def Let_def)
    with assms Cons have t: "dropWhile is_digit (drop (length (sg r)) r) = t"
      and ne: "takeWhile is_digit (drop (length (sg r)) r) \<noteq> []" and n: "n = c # sg r @ takeWhile is_digit (drop (length (sg r)) r)"
      by (auto split: if_splits)
    then have "r \<noteq> []" by auto
    then have "sg (r @ q) = sg r" "drop (length (sg r)) (r @ q) = drop (length (sg r)) r @ q"
      by (cases r; simp add: sg_def)+
    with Cons e[of "r @ q"] t ne n digits_append[of is_digit "drop (length (sg r)) r" q] assms(2) show ?thesis by simp
  qed (use Cons assms in \<open>auto simp: lex_exp_def\<close>)
qed (use assms in \<open>auto simp: lex_exp_def\<close>)

lemma lex_number_append:
  assumes "lex_number s = Some (n, t)" and "t \<noteq> []"
  shows "lex_number (s @ q) = Some (n, t @ q)"
proof -
  define sg where "sg s = (case s of [] \<Rightarrow> [] | d # _ \<Rightarrow> if d = CHR ''-'' then [d] else [])" for s
  have e: "lex_number s = (case lex_int (drop (length (sg s)) s) of
           None \<Rightarrow> None
         | Some (i, r1) \<Rightarrow>
             (case lex_frac r1 of
                None \<Rightarrow> None
              | Some (f, r2) \<Rightarrow>
                  (case lex_exp r2 of None \<Rightarrow> None | Some (e, r3) \<Rightarrow> Some (sg s @ i @ f @ e, r3))))" for s
    unfolding lex_number_def sg_def Let_def ..
  from assms(1) e[of s] obtain i r1 f r2 e' where
    p: "lex_int (drop (length (sg s)) s) = Some (i, r1)" "lex_frac r1 = Some (f, r2)" "lex_exp r2 = Some (e', t)"
    and n: "n = sg s @ i @ f @ e'"
    by (auto split: option.splits)
  have "r2 \<noteq> []" using lex_exp_split[OF p(3)] assms(2) by simp
  then have "r1 \<noteq> []" using lex_frac_split[OF p(2)] by simp
  have "s \<noteq> []" using p(1) by (auto simp: lex_int_def)
  then have "sg (s @ q) = sg s" "drop (length (sg s)) (s @ q) = drop (length (sg s)) s @ q" by (cases s; simp add: sg_def)+
  with e[of "s @ q"] lex_int_append[OF p(1) \<open>r1 \<noteq> []\<close>] lex_frac_append[OF p(2) \<open>r2 \<noteq> []\<close>] lex_exp_append[OF p(3) assms(2)] n
  show ?thesis by simp
qed

text \<open>A token stays what it is when the text goes on, unless it is a number at the very end.\<close>

lemma lex1_append:
  assumes "lex1 c s = (k, t, rest)" and "k \<noteq> TError" and "rest \<noteq> [] \<or> (\<forall>n. k \<noteq> TScalar (VNum n))"
  shows "lex1 c (s @ q) = (k, t, rest @ q)"
proof -
  define punct where "punct \<longleftrightarrow> c \<in> set ''{}[]:,''"
  define numeric where "numeric \<longleftrightarrow> c = CHR ''-'' \<or> is_digit c"
  consider (punct) punct | (str) "c = CHR 0x22" | (num) "\<not> punct" "c \<noteq> CHR 0x22" numeric
    | (word) "\<not> punct" "c \<noteq> CHR 0x22" "\<not> numeric" by blast
  then show ?thesis
  proof cases
    case punct
    then show ?thesis
      using assms(1) unfolding punct_def list.set by (elim insertE emptyE; simp add: lex1_def; elim conjE; simp)
  next
    case str
    with assms(1,2) obtain b where "str_body s = Some (b, rest)" "k = TScalar (VStr (unquote b))" "t = c # b @ [CHR 0x22]"
      by (auto simp: lex1_def split: option.splits)
    with str str_body_append[of s b rest q] show ?thesis by (simp add: lex1_def)
  next
    case num
    then have e: "lex1 c s = (case lex_number (c # s) of None \<Rightarrow> (TError, [], []) | Some (n, r) \<Rightarrow> (TScalar (VNum n), n, r))" for s
      unfolding lex1_def punct_def numeric_def by simp
    from assms(1,2) obtain n where n: "lex_number (c # s) = Some (n, rest)" "k = TScalar (VNum n)" "t = n"
      unfolding e by (auto split: option.splits)
    with assms(3) have "rest \<noteq> []" by simp
    from lex_number_append[OF n(1) this, of q] n show ?thesis unfolding e by simp
  next
    case word
    then have e: "lex1 c s = (if HasPrefix (c # s) ''true'' then (TScalar (VBool True), ''true'', drop 3 s)
      else if HasPrefix (c # s) ''false'' then (TScalar (VBool False), ''false'', drop 4 s)
      else if HasPrefix (c # s) ''null'' then (TScalar VNull, ''null'', drop 3 s) else (TError, [], []))" for s
      unfolding lex1_def punct_def numeric_def by simp
    from assms(1,2) show ?thesis unfolding e by (auto simp: HasPrefix_iff eval_nat_numeral split: if_splits)
  qed
qed

lemma pstep_error [simp]: "pstep m st (w, t, TError) = PFail"
  by (cases m) (simp_all add: pstep_def open_value_def read_key_def)

lemma put_open: "fs \<noteq> [] \<Longrightarrow> \<exists>m fs'. put raw v fs = PRun m fs' \<and> fs' \<noteq> []"
  by (cases "(raw, v, fs)" rule: put.cases) auto

lemma add_raw_open [simp]: "add_raw w st = [] \<longleftrightarrow> st = []"
  by (cases "(w, st)" rule: add_raw.cases) auto

definition goes_on :: "pstate \<Rightarrow> bool" where
  "goes_on p \<longleftrightarrow> p = PFail \<or> (\<exists>m st. p = PRun m st \<and> st \<noteq> [])"

lemma goes_on_simps [simp]: "goes_on PFail" "goes_on (PRun m st) \<longleftrightarrow> st \<noteq> []" "\<not> goes_on (PDone raw v)"
  by (auto simp: goes_on_def)

lemma put_goes_on: "st \<noteq> [] \<Longrightarrow> goes_on (put raw v st)"
  using put_open[of st raw v] by auto

lemma inside_goes_on:
  "st \<noteq> [] \<Longrightarrow> goes_on (open_value t k st)" "goes_on (read_key t k st)" "goes_on (next_element t st)"
  by (auto simp: open_value_def read_key_def next_element_def put_goes_on split: tok.splits list.splits frame.splits jval.splits)

lemma close_frame_cases: "k \<noteq> TRBrack \<Longrightarrow> k \<noteq> TRBrace \<Longrightarrow> close_frame t k st = PFail"
  by (cases "(t, k, st)" rule: close_frame.cases) auto

lemma put_PRun: "put raw v st = PRun m st' \<Longrightarrow> st' \<noteq> []"
  by (cases "(raw, v, st)" rule: put.cases) auto

lemma close_frame_PRun: "close_frame t k st = PRun m st' \<Longrightarrow> st' \<noteq> []"
  by (cases "(t, k, st)" rule: close_frame.cases) (auto dest: put_PRun)

lemma close_goes_on: "goes_on (close_frame t k st) \<or> k = TRBrack \<or> k = TRBrace"
  using close_frame_cases[of k t st] by (cases "k = TRBrack"; cases "k = TRBrace") simp_all

lemma pstep_cases:
  assumes "st \<noteq> []"
  shows "goes_on (pstep m st (w, t, k)) \<or> k = TRBrack \<or> k = TRBrace"
  using assms inside_goes_on(1)[of "add_raw w st" t k] inside_goes_on(2)[of t k "add_raw w st"]
    inside_goes_on(3)[of t "add_raw w st"] close_goes_on[of t k "add_raw w st"]
  by (cases m) (auto simp: pstep_def Let_def)

lemma pstep_open: "pstep m st (w, t, k) = PRun m' st' \<Longrightarrow> st \<noteq> [] \<Longrightarrow> st' \<noteq> []"
  using inside_goes_on(1)[of "add_raw w st" t k] inside_goes_on(2)[of t k "add_raw w st"]
    inside_goes_on(3)[of t "add_raw w st"] close_frame_PRun[of t k "add_raw w st" m' st']
  by (cases m) (auto simp: pstep_def Let_def split: if_splits)

text \<open>Inside an array or object, more text does not change what has been read.\<close>

lemma tokens_cases:
  obtains "tokens s = []" "dropWhile is_ws s = []"
  | w t where "tokens s = [(w, t, TError)]"
  | c r k t rest where "dropWhile is_ws s = c # r" "lex1 c r = (k, t, rest)" "k \<noteq> TError"
      "tokens s = (takeWhile is_ws s, t, k) # tokens rest"
proof (cases "dropWhile is_ws s")
  case Nil
  then show thesis using that(1) by (simp add: tokens.simps[of s])
next
  case (Cons c r)
  obtain k t rest where l: "lex1 c r = (k, t, rest)" by (cases "lex1 c r")
  show thesis
  proof (cases "k = TError")
    case True
    then show thesis using that(2) Cons l by (simp add: tokens.simps[of s])
  next
    case False
    then show thesis using that(3) Cons l by (simp add: tokens.simps[of s])
  qed
qed

lemma tokens_append:
  assumes "dropWhile is_ws s = c # r" "lex1 c r = (k, t, rest)" "k \<noteq> TError" "rest \<noteq> [] \<or> (\<forall>n. k \<noteq> TScalar (VNum n))"
  shows "tokens (s @ q) = (takeWhile is_ws s, t, k) # tokens (rest @ q)"
proof -
  have "dropWhile is_ws (s @ q) = c # (r @ q)" "takeWhile is_ws (s @ q) = takeWhile is_ws s"
    using digits_append[of is_ws s q] assms(1) by simp_all
  with lex1_append[OF assms(2-4), of q] assms(3) show ?thesis by (simp add: tokens.simps[of "s @ q"])
qed

lemma prun_append:
  assumes "prun (PRun m st) (tokens s) = Some (raw, v, ts)" and "st \<noteq> []"
  shows "\<exists>rest. ts = tokens rest \<and> prun (PRun m st) (tokens (s @ q)) = Some (raw, v, tokens (rest @ q))"
  using assms
proof (induction "length s" arbitrary: s m st rule: less_induct)
  case less
  show ?case
  proof (cases s rule: tokens_cases)
    case (3 c r k t rest)
    let ?p = "pstep m st (takeWhile is_ws s, t, k)"
    have run: "prun ?p (tokens rest) = Some (raw, v, ts)" using less.prems(1) 3(4) by simp
    have shorter: "length rest < length s"
      using lex1_split[OF 3(2,3)] 3(1) length_dropWhile_le[of is_ws s] by (cases t) auto
    show ?thesis
    proof (cases ?p)
      case (PRun m' st')
      then have "st' \<noteq> []" using pstep_open less.prems(2) by blast
      from less.hyps[OF shorter _ this] run PRun obtain rest' where
        r: "ts = tokens rest'" "prun (PRun m' st') (tokens (rest @ q)) = Some (raw, v, tokens (rest' @ q))" by auto
      have "rest \<noteq> []" using run PRun by auto
      with tokens_append[OF 3(1-3), of q] r PRun show ?thesis by auto
    next
      case (PDone raw' v')
      then have "k \<noteq> TScalar (VNum n)" for n
        using pstep_cases[OF less.prems(2), of m "takeWhile is_ws s" t k] by auto
      with tokens_append[OF 3(1-3), of q] run PDone show ?thesis by (intro exI[of _ rest]) auto
    qed (use run in simp)
  qed (use less.prems in simp_all)
qed

lemma tokens_Nil_iff: "tokens s = [] \<longleftrightarrow> dropWhile is_ws s = []"
  by (subst tokens.simps) (simp del: dropWhile_eq_Nil_conv add: Let_def split: list.split prod.split)

lemma json_scan_append:
  assumes "json_scan (CHR ''{'' # s) = Some (raw, v, ts)"
  shows "\<exists>rest. ts = tokens rest \<and> json_scan (CHR ''{'' # s @ q) = Some (raw, v, tokens (rest @ q))"
proof -
  have "json_scan (CHR ''{'' # s) = prun (PRun NeedKeyOrEnd [FObj ''{'' [] []]) (tokens s)" for s
    by (simp add: json_scan_def lex_punct pstep_def open_value_def maxNestingDepth_def)
  with assms prun_append[of NeedKeyOrEnd "[FObj ''{'' [] []]" s raw v ts q] show ?thesis by simp
qed

text \<open>An object that is cut off anywhere is not read, neither from a packet nor from a stream.\<close>

lemma truncated_object:
  assumes "fits maxNestingDepth (JObj ms)" and "n < length (json_write (JObj ms))"
  shows "json_scan (take n (json_write (JObj ms))) = None"
proof (rule ccontr)
  let ?t = "json_write (JObj ms)"
  assume "json_scan (take n ?t) \<noteq> None"
  then obtain raw v ts where s: "json_scan (take n ?t) = Some (raw, v, ts)" by auto
  then have "n \<noteq> 0" by (cases n) (simp_all add: json_scan_def)
  then obtain p where p: "take n ?t = CHR ''{'' # p" by (cases n) simp_all
  from json_scan_append[OF s[unfolded p], of "drop n ?t"] obtain rest where
    "json_scan (take n ?t @ drop n ?t) = Some (raw, v, tokens (rest @ drop n ?t))" unfolding p by auto
  then have "json_scan ?t = Some (raw, v, tokens (rest @ drop n ?t))" by (simp only: append_take_drop_id)
  with json_scan_write[OF assms(1), of "[]"] have "tokens (rest @ drop n ?t) = []"
    by (simp del: json_write.simps jv_of.simps)
  then have ws: "\<forall>c \<in> set (drop n ?t). is_ws c" by (simp add: tokens_Nil_iff dropWhile_eq_Nil_conv)
  have "drop n ?t \<noteq> []" using assms(2) by simp
  then have "is_ws (last (drop n ?t))" using ws last_in_set by blast
  moreover have "last (drop n ?t) = last ?t" using assms(2) by (rule last_drop)
  ultimately show False by simp
qed

section \<open>What is read is well formed\<close>

text \<open>Strings are valid UTF-8, and arrays and objects are nested at most \<open>n\<close> deep.\<close>

fun well_read :: "nat \<Rightarrow> jval \<Rightarrow> bool" and well_read_member :: "nat \<Rightarrow> string \<times> string \<times> jval \<Rightarrow> bool" where
  "well_read n (VStr s) = valid_utf8 s"
| "well_read n (VArr vs) = (0 < n \<and> list_all (well_read (n - 1)) vs)"
| "well_read n (VObj ms) = (0 < n \<and> list_all (well_read_member (n - 1)) ms)"
| "well_read n VNull = True"
| "well_read n (VBool b) = True"
| "well_read n (VNum t) = True"
| "well_read_member n (k, raw, v) = (valid_utf8 k \<and> well_read n v)"

fun stack_ok :: "frame list \<Rightarrow> bool" where
  "stack_ok [] = True"
| "stack_ok (FArr r vs # st) =
     (length st < maxNestingDepth \<and> list_all (well_read (maxNestingDepth - Suc (length st))) vs \<and> stack_ok st)"
| "stack_ok (FObj r ms k # st) =
     (length st < maxNestingDepth \<and> list_all (well_read_member (maxNestingDepth - Suc (length st))) ms \<and> valid_utf8 k \<and> stack_ok st)"

fun state_ok :: "pstate \<Rightarrow> bool" where
  "state_ok (PDone raw v) = well_read maxNestingDepth v"
| "state_ok (PRun m st) = stack_ok st"
| "state_ok PFail = True"

definition token_ok :: "token \<Rightarrow> bool" where
  "token_ok tk \<longleftrightarrow> (\<forall>v. snd (snd tk) = TScalar v \<longrightarrow> (\<forall>n. well_read n v))"

lemma lex1_scalar:
  "fst (lex1 c s) = TScalar v \<Longrightarrow> (\<exists>b. v = VStr (unquote b)) \<or> (\<exists>n. v = VNum n) \<or> (\<exists>b. v = VBool b) \<or> v = VNull"
  unfolding lex1_def by (simp split: if_split_asm option.split_asm prod.split_asm) (blast+)?

lemma lex1_ok: "lex1 c s = (k, t, rest) \<Longrightarrow> token_ok (w, t, k)"
  using lex1_scalar[of c s] by (auto simp: token_ok_def)

lemma tokens_ok: "tk \<in> set (tokens s) \<Longrightarrow> token_ok tk"
proof (induction "length s" arbitrary: s rule: less_induct)
  case less
  show ?case
  proof (cases s rule: tokens_cases)
    case (3 c r k t rest)
    have "length rest < length s"
      using lex1_split[OF 3(2,3)] 3(1) length_dropWhile_le[of is_ws s] by (cases t) auto
    with less 3 lex1_ok show ?thesis by auto
  qed (use less.prems in \<open>auto simp: token_ok_def\<close>)
qed

lemma put_ok: "stack_ok st \<Longrightarrow> well_read (maxNestingDepth - length st) v \<Longrightarrow> state_ok (put raw v st)"
  by (cases "(raw, v, st)" rule: put.cases) auto

lemma add_raw_ok [simp]: "stack_ok (add_raw w st) = stack_ok st" "length (add_raw w st) = length st"
  by (cases "(w, st)" rule: add_raw.cases; simp)+

lemma close_frame_ok: "stack_ok st \<Longrightarrow> state_ok (close_frame t k st)"
  by (cases "(t, k, st)" rule: close_frame.cases) (auto intro!: put_ok)

lemma open_value_ok: "stack_ok st \<Longrightarrow> token_ok (w, t, k) \<Longrightarrow> state_ok (open_value t k st)"
  by (cases k) (auto simp: open_value_def token_ok_def intro!: put_ok)

lemma read_key_ok: "stack_ok st \<Longrightarrow> token_ok (w, t, k) \<Longrightarrow> state_ok (read_key t k st)"
  by (auto simp: read_key_def token_ok_def split: tok.splits jval.splits list.splits frame.splits)

lemma next_element_ok: "stack_ok st \<Longrightarrow> state_ok (next_element t st)"
  by (auto simp: next_element_def split: list.splits frame.splits)

lemma pstep_ok: "stack_ok st \<Longrightarrow> token_ok (w, t, k) \<Longrightarrow> state_ok (pstep m st (w, t, k))"
  by (cases m) (auto simp: pstep_def Let_def close_frame_ok open_value_ok read_key_ok next_element_ok)

lemma prun_ok: "state_ok p \<Longrightarrow> \<forall>tk \<in> set ts. token_ok tk \<Longrightarrow> prun p ts = Some (raw, v, rest) \<Longrightarrow> well_read maxNestingDepth v"
proof (induction p ts rule: prun.induct)
  case (4 m st tk ts)
  then have "state_ok (pstep m st tk)" using pstep_ok[of st "fst tk" "fst (snd tk)" "snd (snd tk)"] by simp
  with 4 show ?case by simp
qed auto

lemma json_decode_well_read: "json_decode s = Some v \<Longrightarrow> well_read maxNestingDepth v"
  using prun_ok[of "PRun NeedValue []" "tokens s"] tokens_ok by (auto simp: json_decode_def json_scan_def)

lemma json_unmarshal_decode: "json_unmarshal s = Some v \<Longrightarrow> json_decode s = Some v"
  by (auto simp: json_unmarshal_def json_decode_def split: option.splits list.splits)

end
