(* ===== verification/Go_Json_Struct.thy ===== *)
theory Go_Json_Struct
  imports Go_Json_Safety "HOL-Library.Monad_Syntax"
begin

text \<open>
  How \<open>encoding/json\<close> fills a struct from a value: the members in their order, each into the field of its name, or
  else into the first field whose name is the same up to case; other members are ignored and a
  later member overwrites an earlier one. A type that does not fit makes the whole decoding an
  error, \<open>null\<close> leaves a string, a number, a flag or a struct as it is. Decoding starts from what the target
  holds, so a reader takes the old one.
\<close>

text \<open>A reader takes the source text and the value, and what the target holds.\<close>

type_synonym 'a reader = "string \<Rightarrow> jval \<Rightarrow> 'a \<Rightarrow> 'a option"
type_synonym 'a fields = "(string \<times> 'a reader) list"

text \<open>
  \<open>foldName\<close>: the smallest rune of each case orbit. The long s and the Kelvin sign fold to ASCII, every
  other rune beyond ASCII to one beyond ASCII, which no field name of the program has.
\<close>

definition fold_rune :: "nat \<Rightarrow> nat" where
  "fold_rune r = (if 97 \<le> r \<and> r \<le> 122 then r - 32 else if r = 383 then 83 else if r = 8490 then 75 else r)"

definition fold_name :: "string \<Rightarrow> nat list" where
  "fold_name s = map fold_rune (runes s)"

definition find_field :: "'a fields \<Rightarrow> string \<Rightarrow> 'a reader option" where
  "find_field fs k =
     (case map_of fs k of
        Some f \<Rightarrow> Some f
      | None \<Rightarrow> map_option snd (List.find (\<lambda>(n, _). fold_name n = fold_name k) fs))"

fun set_members :: "'a fields \<Rightarrow> (string \<times> string \<times> jval) list \<Rightarrow> 'a \<Rightarrow> 'a option" where
  "set_members fs [] x = Some x"
| "set_members fs ((k, raw, v) # ms) x =
     (case find_field fs k of
        None \<Rightarrow> set_members fs ms x
      | Some f \<Rightarrow> (case f raw v x of None \<Rightarrow> None | Some y \<Rightarrow> set_members fs ms y))"

definition decode_struct :: "'a fields \<Rightarrow> jval \<Rightarrow> 'a \<Rightarrow> 'a option" where
  "decode_struct fs v x =
     (case v of VNull \<Rightarrow> Some x | VObj ms \<Rightarrow> set_members fs ms x | _ \<Rightarrow> None)"

section \<open>Fields\<close>

definition read_string :: "string reader" where
  "read_string raw v x = (case v of VStr s \<Rightarrow> Some s | VNull \<Rightarrow> Some x | _ \<Rightarrow> None)"

definition read_bool :: "bool reader" where
  "read_bool raw v x = (case v of VBool b \<Rightarrow> Some b | VNull \<Rightarrow> Some x | _ \<Rightarrow> None)"

text \<open>An \<open>int\<close> or \<open>int64\<close>: a fraction, an exponent and a number out of range are errors.\<close>

definition read_int :: "int reader" where
  "read_int raw v x = (case v of VNum t \<Rightarrow> Atoi t | VNull \<Rightarrow> Some x | _ \<Rightarrow> None)"

text \<open>A \<open>json.RawMessage\<close> takes the source text, of \<open>null\<close> too.\<close>

definition read_raw :: "string reader" where
  "read_raw raw v x = Some raw"

definition read_struct :: "'a fields \<Rightarrow> 'a reader" where
  "read_struct fs raw v x = decode_struct fs v x"

text \<open>A pointer is nil after \<open>null\<close>, and otherwise the target is made if it is nil.\<close>

definition read_ptr :: "'a reader \<Rightarrow> 'a \<Rightarrow> 'a option reader" where
  "read_ptr r zero raw v x =
     (case v of
        VNull \<Rightarrow> Some None
      | _ \<Rightarrow> map_option Some (r raw v (case x of None \<Rightarrow> zero | Some y \<Rightarrow> y)))"

text \<open>The field of a record, given by its selector and its update.\<close>

definition struct_field :: "('a \<Rightarrow> 'b) \<Rightarrow> (('b \<Rightarrow> 'b) \<Rightarrow> 'a \<Rightarrow> 'a) \<Rightarrow> 'b reader \<Rightarrow> 'a reader" where
  "struct_field get upd r raw v x = map_option (\<lambda>y. upd (\<lambda>_. y) x) (r raw v (get x))"

lemmas reader_defs = read_string_def read_bool_def read_int_def read_raw_def read_struct_def read_ptr_def struct_field_def

section \<open>Whole texts\<close>

text \<open>\<open>json.Unmarshal\<close> into a struct that holds \<open>x\<close>, and \<open>Decode\<close> of the first value of a stream.\<close>

definition unmarshal_into :: "'a fields \<Rightarrow> 'a \<Rightarrow> string \<Rightarrow> 'a option" where
  "unmarshal_into fs x s = (case json_unmarshal s of None \<Rightarrow> None | Some v \<Rightarrow> decode_struct fs v x)"

definition decode_into :: "'a fields \<Rightarrow> 'a \<Rightarrow> string \<Rightarrow> 'a option" where
  "decode_into fs x s = (case json_decode s of None \<Rightarrow> None | Some v \<Rightarrow> decode_struct fs v x)"

lemma unmarshal_write:
  "fits maxNestingDepth v \<Longrightarrow> unmarshal_into fs x (json_write v) = decode_struct fs (jv_of v) x"
  by (simp add: unmarshal_into_def json_unmarshal_write)

lemma decode_write:
  "fits maxNestingDepth v \<Longrightarrow> ends_value t \<Longrightarrow> decode_into fs x (json_write v @ t) = decode_struct fs (jv_of v) x"
  by (simp add: decode_into_def json_decode_write)

lemma truncated_struct:
  assumes "fits maxNestingDepth (JObj ms)" and "n < length (json_write (JObj ms))"
  shows "unmarshal_into fs x (take n (json_write (JObj ms))) = None" "decode_into fs x (take n (json_write (JObj ms))) = None"
  using truncated_object[OF assms]
  by (simp_all add: unmarshal_into_def decode_into_def json_unmarshal_def json_decode_def)

text \<open>Members without a field are as good as absent, wherever they stand.\<close>

lemma set_members_known:
  "set_members fs ms x = set_members fs (filter (\<lambda>m. find_field fs (fst m) \<noteq> None) ms) x"
  by (induction fs ms x rule: set_members.induct) (auto split: option.splits)

definition known_members :: "'a fields \<Rightarrow> (string \<times> json) list \<Rightarrow> (string \<times> json) list" where
  "known_members fs ms = filter (\<lambda>m. find_field fs (to_valid (fst m)) \<noteq> None) ms"

lemma decode_struct_known:
  "decode_struct fs (jv_of (JObj ms)) x = decode_struct fs (jv_of (JObj (known_members fs ms))) x"
proof -
  have "filter (\<lambda>m. find_field fs (fst m) \<noteq> None) (map jm_of ms) = map jm_of (known_members fs ms)"
    by (induction ms) (auto simp: known_members_def)
  with set_members_known[of fs "map jm_of ms"] show ?thesis by (simp add: decode_struct_def)
qed

text \<open>A list of structs into a fresh slice; \<open>null\<close> is the nil slice.\<close>

fun decode_list :: "'a fields \<Rightarrow> 'a \<Rightarrow> jval list \<Rightarrow> 'a list option" where
  "decode_list fs zero [] = Some []"
| "decode_list fs zero (v # vs) =
     (case decode_struct fs v zero of
        None \<Rightarrow> None
      | Some x \<Rightarrow> map_option (\<lambda>xs. x # xs) (decode_list fs zero vs))"

definition unmarshal_list :: "'a fields \<Rightarrow> 'a \<Rightarrow> string \<Rightarrow> 'a list option" where
  "unmarshal_list fs zero s =
     (case json_unmarshal s of Some (VArr vs) \<Rightarrow> decode_list fs zero vs | Some VNull \<Rightarrow> Some [] | _ \<Rightarrow> None)"

lemma decode_list_map:
  "(\<And>x. x \<in> set xs \<Longrightarrow> decode_struct fs (jv_of (f x)) zero = Some (g x)) \<Longrightarrow>
   decode_list fs zero (map (jv_of \<circ> f) xs) = Some (map g xs)"
  by (induction xs) auto

section \<open>The order of the members\<close>

text \<open>Different fields do not disturb each other, so the members of an object may come in any order.\<close>

definition commute :: "'a reader \<Rightarrow> 'a reader \<Rightarrow> bool" where
  "commute f g \<longleftrightarrow> (\<forall>r v r' v' x. f r v x \<bind> g r' v' = g r' v' x \<bind> f r v)"

definition commuting :: "'a fields \<Rightarrow> bool" where
  "commuting fs \<longleftrightarrow> sorted_wrt commute (map snd fs)"

lemma commute_sym: "commute f g \<Longrightarrow> commute g f"
  by (simp add: commute_def)

lemma commuting_fields:
  assumes "commuting fs" and "map_of fs k = Some f" and "map_of fs l = Some g" and "k \<noteq> l"
  shows "commute f g"
proof -
  obtain i where i: "i < length fs" "fs ! i = (k, f)" using map_of_SomeD[OF assms(2)] by (auto simp: in_set_conv_nth)
  obtain j where j: "j < length fs" "fs ! j = (l, g)" using map_of_SomeD[OF assms(3)] by (auto simp: in_set_conv_nth)
  have "i \<noteq> j" using i j assms(4) by auto
  moreover have "a < b \<Longrightarrow> b < length fs \<Longrightarrow> commute (snd (fs ! a)) (snd (fs ! b))" for a b
    using sorted_wrt_nth_less[OF assms(1)[unfolded commuting_def], of a b] by simp
  ultimately show ?thesis
    using i j commute_sym by (metis nat_neq_iff snd_conv)
qed

lemma set_members_bind:
  "map_of fs k = Some f \<Longrightarrow> set_members fs ((k, raw, v) # ms) = (\<lambda>x. Option.bind (f raw v x) (set_members fs ms))"
  by (simp add: find_field_def fun_eq_iff split: option.split)

lemma set_members_swap:
  assumes "commuting fs" and "map_of fs (fst m) = Some f" and "map_of fs (fst m') = Some g" and "fst m \<noteq> fst m'"
  shows "set_members fs (m # m' # ms) = set_members fs (m' # m # ms)"
proof -
  obtain k raw v where m: "m = (k, raw, v)" by (cases m)
  obtain k' raw' v' where m': "m' = (k', raw', v')" by (cases m')
  have f: "map_of fs k = Some f" "map_of fs k' = Some g" "k \<noteq> k'" using assms(2-4) m m' by simp_all
  have c: "Option.bind (f raw v x) (g raw' v') = Option.bind (g raw' v' x) (f raw v)" for x
    using commuting_fields[OF assms(1) f] by (simp add: commute_def)
  show ?thesis
  proof
    fix x
    have "set_members fs (m # m' # ms) x = Option.bind (Option.bind (f raw v x) (g raw' v')) (set_members fs ms)"
      unfolding m m' by (simp only: set_members_bind[OF f(1)] set_members_bind[OF f(2)] bind_assoc)
    also have "\<dots> = set_members fs (m' # m # ms) x"
      unfolding c m m' by (simp only: set_members_bind[OF f(1)] set_members_bind[OF f(2)] bind_assoc)
    finally show "set_members fs (m # m' # ms) x = set_members fs (m' # m # ms) x" .
  qed
qed

lemma set_members_cong: "set_members fs ms = set_members fs ms' \<Longrightarrow> set_members fs (m # ms) = set_members fs (m # ms')"
  by (cases m) (auto simp: fun_eq_iff split: option.split)

lemma set_members_front:
  assumes "commuting fs" and "distinct (map fst (a @ m # b))" and "\<forall>m \<in> set (a @ m # b). map_of fs (fst m) \<noteq> None"
  shows "set_members fs (a @ m # b) = set_members fs (m # a @ b)"
  using assms(2,3)
proof (induction a)
  case (Cons n a)
  then have IH: "set_members fs (a @ m # b) = set_members fs (m # a @ b)" by simp
  obtain f g where "map_of fs (fst n) = Some f" "map_of fs (fst m) = Some g" using Cons.prems(2) by auto
  moreover have "fst n \<noteq> fst m" using Cons.prems(1) by auto
  ultimately show ?case
    using set_members_cong[OF IH, of n] set_members_swap[OF assms(1), of n f m g "a @ b"] by simp
qed simp

lemma set_members_permute:
  assumes "commuting fs" and "distinct (map fst ms)" and "\<forall>m \<in> set ms. map_of fs (fst m) \<noteq> None" and "mset ms' = mset ms"
  shows "set_members fs ms' = set_members fs ms"
  using assms(2-4)
proof (induction ms arbitrary: ms')
  case (Cons m ms)
  have "m \<in> set ms'" using Cons.prems(3) by (metis list.set_intros(1) set_mset_mset)
  then obtain a b where ms': "ms' = a @ m # b" by (meson split_list)
  then have ab: "mset (a @ b) = mset ms" using Cons.prems(3) by simp
  have "mset (map fst ms') = mset (map fst (m # ms))" using Cons.prems(3) by (simp only: mset_map)
  then have d: "distinct (map fst ms')" using Cons.prems(1) by (metis mset_eq_imp_distinct_iff)
  have "set ms' = set (m # ms)" using Cons.prems(3) by (metis set_mset_mset)
  then have s: "\<forall>m \<in> set ms'. map_of fs (fst m) \<noteq> None" using Cons.prems(2) by simp
  have "set_members fs ms' = set_members fs (m # a @ b)"
    unfolding ms' by (rule set_members_front[OF assms(1) d[unfolded ms'] s[unfolded ms']])
  also have "\<dots> = set_members fs (m # ms)"
    by (rule set_members_cong, rule Cons.IH) (use Cons.prems ab in simp_all)
  finally show ?case .
qed simp

text \<open>
  An object that has the given members, each under the name of a field, in any order and among
  others that no field is named after.
\<close>

definition has_members :: "'a fields \<Rightarrow> (string \<times> json) list \<Rightarrow> json \<Rightarrow> bool" where
  "has_members fs ms j \<longleftrightarrow> (case j of JObj all \<Rightarrow> mset (known_members fs all) = mset ms | _ \<Rightarrow> False)"

definition field_members :: "'a fields \<Rightarrow> (string \<times> json) list \<Rightarrow> bool" where
  "field_members fs ms \<longleftrightarrow> distinct (map fst ms) \<and> (\<forall>m \<in> set ms. ascii (fst m) \<and> map_of fs (fst m) \<noteq> None)"

lemma decode_has_members:
  assumes "commuting fs" and "field_members fs ms" and "has_members fs ms j"
  shows "decode_struct fs (jv_of j) x = set_members fs (map jm_of ms) x"
proof -
  obtain all where j: "j = JObj all" "mset (known_members fs all) = mset ms"
    using assms(3) by (cases j) (auto simp: has_members_def)
  have key: "fst (jm_of m) = fst m" if "m \<in> set ms" for m
  proof -
    have "ascii (fst m)" using that assms(2) by (simp add: field_members_def)
    then show ?thesis by (cases m) (simp add: to_valid_ascii)
  qed
  then have "map fst (map jm_of ms) = map fst ms" by simp
  then have dist: "distinct (map fst (map jm_of ms))" using assms(2) by (simp only: field_members_def)
  have all: "\<forall>m \<in> set (map jm_of ms). map_of fs (fst m) \<noteq> None"
    using assms(2) key by (auto simp: field_members_def)
  have "mset (map jm_of (known_members fs all)) = mset (map jm_of ms)" using j(2) by (simp only: mset_map)
  note set_members_permute[OF assms(1) dist all this]
  then show ?thesis unfolding j(1) decode_struct_known[of fs all] by (simp add: decode_struct_def)
qed

lemma commute_field:
  assumes "\<And>x y. get (upd' (\<lambda>_. y) x) = get x" and "\<And>x y. get' (upd (\<lambda>_. y) x) = get' x"
    and "\<And>x y z. upd (\<lambda>_. y) (upd' (\<lambda>_. z) x) = upd' (\<lambda>_. z) (upd (\<lambda>_. y) x)"
  shows "commute (struct_field get upd r) (struct_field get' upd' r')"
  unfolding commute_def struct_field_def
proof (intro allI)
  fix a v a' v' x
  show "map_option (\<lambda>y. upd (\<lambda>_. y) x) (r a v (get x)) \<bind> (\<lambda>x. map_option (\<lambda>y. upd' (\<lambda>_. y) x) (r' a' v' (get' x))) =
       map_option (\<lambda>y. upd' (\<lambda>_. y) x) (r' a' v' (get' x)) \<bind> (\<lambda>x. map_option (\<lambda>y. upd (\<lambda>_. y) x) (r a v (get x)))"
    by (cases "r a v (get x)"; cases "r' a' v' (get' x)") (simp_all add: assms)
qed

end
