(* ===== verification/Manifest_Canonical.thy ===== *)
theory Manifest_Canonical
  imports Tool_Registry Go_Json_Struct Go_Float "HOL-Library.List_Lexorder" "HOL-Library.Char_ord"
begin

text \<open>
  The canonical form over which a manifest is signed (\<open>core/security/manifest_validator.go\<close>): the text is decoded
  into a \<open>map[string]interface{}\<close> and encoded again, so that the last of several members of one name counts, the
  members are sorted and white space is gone. Every number goes through a \<open>float64\<close>: an integer of
  at most \<open>2\<^sup>5\<^sup>3\<close> comes out as it is, for every other number \<open>flt\<close> is what \<open>strconv\<close> makes of it, or an error.
\<close>

section \<open>Decoding and encoding again\<close>

definition canon_number :: "(string \<Rightarrow> string option) \<Rightarrow> string \<Rightarrow> string option" where
  "canon_number flt t =
     (case Atoi t of
        Some i \<Rightarrow> if \<bar>i\<bar> \<le> 2 ^ 53 \<and> t = show_int i then Some t else flt t
      | None \<Rightarrow> flt t)"

text \<open>A later member of the same name replaces an earlier one.\<close>

fun last_members :: "(string \<times> 'a) list \<Rightarrow> (string \<times> 'a) list" where
  "last_members [] = []"
| "last_members (m # ms) = (if fst m \<in> fst ` set ms then last_members ms else m # last_members ms)"

definition write_member :: "string \<times> string \<Rightarrow> string" where
  "write_member m = json_string (fst m) @ '':'' @ snd m"

fun canon :: "(string \<Rightarrow> string option) \<Rightarrow> jval \<Rightarrow> string option"
  and canon_member :: "(string \<Rightarrow> string option) \<Rightarrow> string \<times> string \<times> jval \<Rightarrow> (string \<times> string) option" where
  "canon flt VNull = Some ''null''"
| "canon flt (VBool b) = Some (if b then ''true'' else ''false'')"
| "canon flt (VNum t) = canon_number flt t"
| "canon flt (VStr s) = Some (json_string s)"
| "canon flt (VArr vs) = map_option (\<lambda>ws. ''['' @ join_comma ws @ '']'') (those (map (canon flt) vs))"
| "canon flt (VObj ms) =
     map_option (\<lambda>ws. ''{'' @ join_comma (map write_member (sort_key fst (last_members ws))) @ ''}'')
       (those (map (canon_member flt) ms))"
| "canon_member flt (k, raw, v) = map_option (\<lambda>w. (k, w)) (canon flt v)"

text \<open>A \<open>null\<close> leaves the map nil, which is written as \<open>null\<close> again; no other value fits the map.\<close>

definition canonicalize :: "(string \<Rightarrow> string option) \<Rightarrow> string \<Rightarrow> string option" where
  "canonicalize flt raw =
     (case json_unmarshal raw of
        Some VNull \<Rightarrow> Some ''null''
      | Some (VObj ms) \<Rightarrow> canon flt (VObj ms)
      | _ \<Rightarrow> None)"

text \<open>The validator, with its ring of keys.\<close>

definition Keys :: "KeyRing \<Rightarrow> string list" where
  "Keys k = k"

record ManifestValidator =
  mv_keys :: KeyRing

definition NewManifestValidator :: "KeyRing \<Rightarrow> ManifestValidator" where
  "NewManifestValidator kr = \<lparr>mv_keys = kr\<rparr>"

definition validator_Verify ::
    "(string \<Rightarrow> string option) \<Rightarrow> (string \<Rightarrow> string \<Rightarrow> string \<Rightarrow> bool) \<Rightarrow> ManifestValidator \<Rightarrow> verify_fn" where
  "validator_Verify flt ed25519_verify v = ManifestValidator_Verify (canonicalize flt) ed25519_verify (Keys (mv_keys v))"

section \<open>The content of a manifest\<close>

text \<open>What of a text counts: its strings made valid, its members sorted, the last of each name.\<close>

fun canon_json :: "json \<Rightarrow> json" and canon_jm :: "string \<times> json \<Rightarrow> string \<times> json" where
  "canon_json JNull = JNull"
| "canon_json (JBool b) = JBool b"
| "canon_json (JInt i) = JInt i"
| "canon_json (JStr s) = JStr (to_valid s)"
| "canon_json (JArr vs) = JArr (map canon_json vs)"
| "canon_json (JObj ms) = JObj (sort_key fst (last_members (map canon_jm ms)))"
| "canon_jm (k, v) = (to_valid k, canon_json v)"

text \<open>Its integers are those that a \<open>float64\<close> holds.\<close>

fun exact :: "json \<Rightarrow> bool" and exact_member :: "string \<times> json \<Rightarrow> bool" where
  "exact (JInt i) = (\<bar>i\<bar> \<le> 2 ^ 53)"
| "exact (JArr vs) = list_all exact vs"
| "exact (JObj ms) = list_all exact_member ms"
| "exact JNull = True"
| "exact (JBool b) = True"
| "exact (JStr s) = True"
| "exact_member (k, v) = exact v"

lemma last_members_map: "last_members (map (\<lambda>m. (fst m, g (snd m))) ms) = map (\<lambda>m. (fst m, g (snd m))) (last_members ms)"
  by (induction ms) (auto simp: image_image)

lemma insort_key_map: "insort_key fst (fst x, g (snd x)) (map (\<lambda>m. (fst m, g (snd m))) xs) =
    map (\<lambda>m. (fst m, g (snd m))) (insort_key fst x xs)"
  by (induction xs) auto

lemma sort_key_map: "sort_key fst (map (\<lambda>m. (fst m, g (snd m))) xs) = map (\<lambda>m. (fst m, g (snd m))) (sort_key fst xs)"
proof (induction xs)
  case (Cons x xs)
  then show ?case using insort_key_map[of x g "sort_key fst xs"] by simp
qed simp

lemma those_map_Some: "(\<And>x. x \<in> set xs \<Longrightarrow> f x = Some (g x)) \<Longrightarrow> those (map f xs) = Some (map g xs)"
  by (induction xs) auto

lemma canon_write:
  "exact v \<Longrightarrow> canon flt (jv_of v) = Some (json_write (canon_json v))"
  "exact_member m \<Longrightarrow> canon_member flt (jm_of m) = Some (to_valid (fst m), json_write (canon_json (snd m)))"
proof (induction v and m rule: exact_exact_member.induct)
  case (1 i)
  then have "in_int64 i" by (auto simp: in_int64_def int64_min_def int64_max_def)
  with 1 show ?case by (simp add: canon_number_def Atoi_show_int)
next
  case (2 vs)
  then have "those (map (canon flt) (map jv_of vs)) = Some (map (json_write \<circ> canon_json) vs)"
    unfolding map_map by (intro those_map_Some) (auto simp: list_all_iff)
  then show ?case by simp
next
  case (3 ms)
  let ?g = "\<lambda>m. (fst m, json_write (snd m))"
  have cm: "canon_jm m = (to_valid (fst m), canon_json (snd m))" for m by (cases m) simp
  have "those (map (canon_member flt) (map jm_of ms)) = Some (map (?g \<circ> canon_jm) ms)"
    unfolding map_map by (intro those_map_Some) (use 3 in \<open>auto simp: list_all_iff cm\<close>)
  moreover have "json_member m = write_member (?g m)" for m by (cases m) (simp add: write_member_def)
  then have "map write_member (map ?g xs) = map json_member xs" for xs by simp
  ultimately show ?case
    by (simp del: map_map add: last_members_map sort_key_map flip: map_map)
qed simp_all

lemma canonicalize_write:
  assumes "exact (JObj ms)" and "fits maxNestingDepth (JObj ms)"
  shows "canonicalize flt (json_write (JObj ms)) = Some (json_write (canon_json (JObj ms)))"
  using json_unmarshal_write(1)[OF assms(2)] canon_write(1)[OF assms(1), of flt]
  by (simp add: canonicalize_def del: json_write.simps canon_json.simps)

section \<open>What a signature covers\<close>

fun valid_json :: "json \<Rightarrow> bool" and valid_member :: "string \<times> json \<Rightarrow> bool" where
  "valid_json (JInt i) = in_int64 i"
| "valid_json (JStr s) = valid_utf8 s"
| "valid_json (JArr vs) = list_all valid_json vs"
| "valid_json (JObj ms) = list_all valid_member ms"
| "valid_json JNull = True"
| "valid_json (JBool b) = True"
| "valid_member (k, v) = (valid_utf8 k \<and> valid_json v)"

lemma map_eq_elements:
  "map f xs = map f ys \<Longrightarrow> (\<And>x y. x \<in> set xs \<Longrightarrow> y \<in> set ys \<Longrightarrow> f x = f y \<Longrightarrow> x = y) \<Longrightarrow> xs = ys"
proof (induction xs arbitrary: ys)
  case (Cons x xs)
  then obtain y ys' where ys: "ys = y # ys'" "f x = f y" "map f xs = map f ys'" by (cases ys) auto
  have "xs = ys'" by (rule Cons.IH[OF ys(3)]) (use Cons.prems(2) ys(1) in auto)
  moreover have "x = y" using Cons.prems(2) ys(1,2) by simp
  ultimately show ?case using ys(1) by simp
qed simp

lemma jv_of_inject:
  "valid_json a \<Longrightarrow> valid_json b \<Longrightarrow> jv_of a = jv_of b \<Longrightarrow> a = b"
  "valid_member x \<Longrightarrow> valid_member y \<Longrightarrow> jm_of x = jm_of y \<Longrightarrow> x = y"
proof (induction a and x arbitrary: b and y rule: valid_json_valid_member.induct)
  case (1 i)
  then obtain j where b: "b = JInt j" "in_int64 j" "show_int i = show_int j" by (cases b) auto
  have "Some i = Some j" using Atoi_show_int[of i] Atoi_show_int[of j] 1(1) b by simp
  with b show ?case by simp
next
  case (2 s)
  then show ?case by (cases b) (auto simp: to_valid_id)
next
  case (3 vs)
  then obtain ws where b: "b = JArr ws" "map jv_of vs = map jv_of ws" by (cases b) auto
  have "vs = ws" by (rule map_eq_elements[OF b(2)]) (use 3 b(1) in \<open>auto simp: list_all_iff\<close>)
  with b show ?case by simp
next
  case (4 ms)
  then obtain ns where b: "b = JObj ns" "map jm_of ms = map jm_of ns" by (cases b) auto
  have "ms = ns" by (rule map_eq_elements[OF b(2)]) (use 4 b(1) in \<open>auto simp: list_all_iff\<close>)
  with b show ?case by simp
next
  case (7 k v)
  obtain k' v' where y: "y = (k', v')" by force
  have "v = v'" by (rule "7.IH") (use "7.prems" y in simp_all)
  moreover have "k = k'" using "7.prems" y by (simp add: to_valid_id)
  ultimately show ?case using y by simp
next
  case 5
  then show ?case by (cases b) simp_all
next
  case (6 c)
  then show ?case by (cases b) simp_all
qed

lemma set_last_members: "set (last_members ms) \<subseteq> set ms"
  by (induction ms) auto

lemma canon_json_ok:
  "exact v \<Longrightarrow> valid_json (canon_json v)" "exact_member m \<Longrightarrow> valid_member (canon_jm m)"
proof (induction v and m rule: exact_exact_member.induct)
  case (1 i)
  then show ?case by (auto simp: in_int64_def int64_min_def int64_max_def)
next
  case (3 ms)
  then show ?case using set_last_members[of "map canon_jm ms"] by (auto simp: list_all_iff)
qed (simp_all add: list_all_iff)

lemma canon_json_fits:
  "fits n v \<Longrightarrow> fits n (canon_json v)" "fits_member n m \<Longrightarrow> fits_member n (canon_jm m)"
proof (induction n v and n m rule: fits_fits_member.induct)
  case (2 n ms)
  then show ?case using set_last_members[of "map canon_jm ms"] by (auto simp: list_all_iff)
qed (simp_all add: list_all_iff)

lemma json_write_inject:
  assumes "valid_json a" and "valid_json b" and "fits maxNestingDepth a" and "fits maxNestingDepth b" and "json_write a = json_write b"
  shows "a = b"
proof -
  have "jv_of a = jv_of b" using json_unmarshal_write(1)[OF assms(3)] json_unmarshal_write(1)[OF assms(4)] assms(5) by simp
  then show ?thesis using jv_of_inject(1)[OF assms(1,2)] by simp
qed

text \<open>
  C18: What the signature of a manifest covers, for manifests as \<open>encoding/json\<close> writes them, without white space, nested at most 10000 deep,
  whose numbers are integers of at most \<open>2\<^sup>5\<^sup>3\<close>: two of them have the same canonical form exactly if their content is the
  same, which is their members by name, wherever these stand, the last of each name, down to the nested objects; so a
  signature holds for every such text with that content and for no message of another one. Other numbers go through a
  \<open>float64\<close> and are not covered; for them this fails (\<open>large_integers_collide\<close>).
\<close>

theorem canonical_form_is_the_content:
  assumes "exact (JObj ms)" and "fits maxNestingDepth (JObj ms)" and "exact (JObj ns)" and "fits maxNestingDepth (JObj ns)"
  shows "canonicalize flt (json_write (JObj ms)) = canonicalize flt (json_write (JObj ns)) \<longleftrightarrow>
    canon_json (JObj ms) = canon_json (JObj ns)"
proof
  assume "canonicalize flt (json_write (JObj ms)) = canonicalize flt (json_write (JObj ns))"
  then have "json_write (canon_json (JObj ms)) = json_write (canon_json (JObj ns))"
    unfolding canonicalize_write[OF assms(1,2)] canonicalize_write[OF assms(3,4)] by simp
  then show "canon_json (JObj ms) = canon_json (JObj ns)"
    by (rule json_write_inject[OF canon_json_ok(1)[OF assms(1)] canon_json_ok(1)[OF assms(3)]
          canon_json_fits(1)[OF assms(2)] canon_json_fits(1)[OF assms(4)]])
next
  assume "canon_json (JObj ms) = canon_json (JObj ns)"
  then show "canonicalize flt (json_write (JObj ms)) = canonicalize flt (json_write (JObj ns))"
    unfolding canonicalize_write[OF assms(1,2)] canonicalize_write[OF assms(3,4)] by simp
qed

lemma same_content_same_verdict:
  assumes "exact (JObj ms)" and "fits maxNestingDepth (JObj ms)" and "exact (JObj ns)" and "fits maxNestingDepth (JObj ns)"
    and "canon_json (JObj ms) = canon_json (JObj ns)"
  shows "validator_Verify flt ed v (json_write (JObj ms)) sig = validator_Verify flt ed v (json_write (JObj ns)) sig"
  using assms(5) by (simp only: validator_Verify_def ManifestValidator_Verify_def canonicalize_write[OF assms(1,2)] canonicalize_write[OF assms(3,4)])

text \<open>The order of the members of an object without repetitions is no part of its content.\<close>

lemma last_members_distinct: "distinct (map fst ms) \<Longrightarrow> last_members ms = ms"
  by (induction ms) auto

lemma content_has_no_order:
  assumes "distinct (map (to_valid \<circ> fst) ms)" and "mset ns = mset ms"
  shows "canon_json (JObj ns) = canon_json (JObj ms)"
proof -
  have f: "map fst (map canon_jm xs) = map (to_valid \<circ> fst) xs" for xs by (induction xs) auto
  have m: "mset (map canon_jm ns) = mset (map canon_jm ms)" using assms(2) by (simp only: mset_map)
  have d: "distinct (map fst (map canon_jm ms))" using assms(1) by (simp only: f)
  have "mset (map fst (map canon_jm ns)) = mset (map fst (map canon_jm ms))" using m by (metis mset_map)
  then have d': "distinct (map fst (map canon_jm ns))" using d by (metis mset_eq_imp_distinct_iff)
  have "inj_on fst (set (map canon_jm ns))" using d' by (simp only: distinct_map)
  then have "sort_key fst (map canon_jm ns) = sort_key fst (map canon_jm ms)"
    by (rule sort_key_inj_key_eq[rotated]) (simp_all add: assms(2))
  then show ?thesis by (simp only: canon_json.simps last_members_distinct[OF d] last_members_distinct[OF d'])
qed

text \<open>Beyond \<open>2\<^sup>5\<^sup>3\<close> integers are no longer kept apart: the canonical form of a number is that of its \<open>float64\<close>.\<close>

lemma last_place_53:
  assumes "2 ^ 53 \<le> x" and "x < 2 ^ 54"
  shows "last_place float64 x = 1"
proof -
  have "2 powr 53 \<le> x" "x < 2 powr 54" using assms by simp_all
  then have "53 \<le> log 2 x" "log 2 x < 54" using assms(1) by (simp_all add: le_log_iff log_less_iff)
  then have "\<lfloor>log 2 x\<rfloor> = 53" by linarith
  then show ?thesis using assms(1) by (simp add: last_place_def float64_def)
qed

lemma round_53:
  "float_round float64 9007199254740996 = Fin 9007199254740996" "float_round float64 9007199254740997 = Fin 9007199254740996"
proof -
  have r: "round_half_even 4503599627370498 = 4503599627370498" "round_half_even (9007199254740997 / 2) = 4503599627370498"
    by (simp_all add: round_half_even_def Let_def)
  have "last_place float64 9007199254740996 = 1" "last_place float64 9007199254740997 = 1"
    by (rule last_place_53; simp)+
  then show "float_round float64 9007199254740996 = Fin 9007199254740996" "float_round float64 9007199254740997 = Fin 9007199254740996"
    by (simp_all add: float_round_def float64_def r Let_def)
qed

lemma large_integers_collide:
  assumes "\<And>t i. Atoi t = Some i \<Longrightarrow> flt t = of_float (float_round float64 (of_int i))"
  shows "canonicalize flt (json_write (JObj [(k, JInt 9007199254740996)])) =
    canonicalize flt (json_write (JObj [(k, JInt 9007199254740997)]))"
proof -
  have n: "canon_number flt (show_int i) = of_float (float_round float64 (of_int i))" if "2 ^ 53 < i" "i < 2 ^ 62" for i :: int
  proof -
    have a: "Atoi (show_int i) = Some i" using that by (simp add: Atoi_show_int in_int64_def int64_min_def int64_max_def)
    then show ?thesis using that(1) assms[OF a] by (simp add: canon_number_def)
  qed
  have "canonicalize flt (json_write (JObj [(k, JInt i)])) = canon flt (jv_of (JObj [(k, JInt i)]))" for i
    using json_unmarshal_write(1)[of "JObj [(k, JInt i)]"] by (simp add: canonicalize_def maxNestingDepth_def del: json_write.simps)
  then show ?thesis by (simp add: n round_53)
qed

lemma canonical_form_is_the_content_witness:
  "canonicalize (\<lambda>_. None) (json_write (JObj [(''name'', JStr ''t''), (''v'', JInt 1)])) =
   canonicalize (\<lambda>_. None) (json_write (JObj [(''v'', JInt 1), (''name'', JStr ''t'')]))"
proof -
  have "canon_json (JObj [(''name'', JStr ''t''), (''v'', JInt 1)]) = canon_json (JObj [(''v'', JInt 1), (''name'', JStr ''t'')])"
    by (rule content_has_no_order) (simp_all add: to_valid_ascii byte_def)
  then show ?thesis
    by (subst canonical_form_is_the_content) (simp_all add: maxNestingDepth_def)
qed

end
