(* ===== verification/Mesh_Wire.thy ===== *)
theory Mesh_Wire
  imports Mesh Go_Json_Struct
begin

text \<open>
  The messages of the mesh as bytes: the decoders of beacons, tasks and results
  (\<open>core/mesh_discovery.go\<close>, \<open>core/mesh_propagation.go\<close>) and what they make of what the other node writes.
\<close>

section \<open>Beacons\<close>

definition zero_beacon :: PeerBeacon where
  "zero_beacon = \<lparr>beacon_NodeID = [], beacon_GRPCAddr = [], beacon_Version = [], beacon_Timestamp = 0\<rparr>"

definition beacon_fields :: "PeerBeacon fields" where
  "beacon_fields =
     [(''node_id'', struct_field beacon_NodeID beacon_NodeID_update read_string),
      (''grpc_addr'', struct_field beacon_GRPCAddr beacon_GRPCAddr_update read_string),
      (''version'', struct_field beacon_Version beacon_Version_update read_string),
      (''ts'', struct_field beacon_Timestamp beacon_Timestamp_update read_int)]"

definition unmarshal_beacon :: "string \<Rightarrow> PeerBeacon option" where
  "unmarshal_beacon = unmarshal_into beacon_fields zero_beacon"

text \<open>What of a beacon can arrive: its strings with invalid bytes replaced.\<close>

definition valid_beacon :: "PeerBeacon \<Rightarrow> PeerBeacon" where
  "valid_beacon b = b\<lparr>beacon_NodeID := to_valid (beacon_NodeID b), beacon_GRPCAddr := to_valid (beacon_GRPCAddr b),
     beacon_Version := to_valid (beacon_Version b)\<rparr>"

lemma valid_beacon_sel [simp]:
  "beacon_NodeID (valid_beacon b) = to_valid (beacon_NodeID b)" "beacon_GRPCAddr (valid_beacon b) = to_valid (beacon_GRPCAddr b)"
  "beacon_Version (valid_beacon b) = to_valid (beacon_Version b)"
  by (simp_all add: valid_beacon_def)

lemma beacon_json_obj: "\<exists>ms. beacon_json b = json_write (JObj ms) \<and> fits maxNestingDepth (JObj ms)"
  by (intro exI[of _ "[(''node_id'', JStr (beacon_NodeID b)), (''grpc_addr'', JStr (beacon_GRPCAddr b)),
     (''version'', JStr (beacon_Version b)), (''ts'', JInt (beacon_Timestamp b))]"])
    (simp add: beacon_json_def maxNestingDepth_def del: json_write.simps)

lemma unmarshal_beacon_json:
  assumes "in_int64 (beacon_Timestamp b)"
  shows "unmarshal_beacon (beacon_json b) = Some (valid_beacon b)"
  unfolding unmarshal_beacon_def beacon_json_def
  by (subst unmarshal_write)
    (simp_all add: maxNestingDepth_def decode_struct_def beacon_fields_def zero_beacon_def valid_beacon_def
      find_field_def reader_defs to_valid_ascii byte_def Atoi_show_int assms)

section \<open>Tasks\<close>

definition zero_task :: PropagatedTask where
  "zero_task = \<lparr>ptask_TaskID = [], ptask_SourceID = [], ptask_Prompt = [], ptask_Tools = None, ptask_Model = [],
     ptask_Timestamp = 0, DeadlineUnixNs = 0\<rparr>"

text \<open>
  A slice of strings is decoded into the elements its array already has, which is seen where a
  member occurs twice: a \<open>null\<close> element keeps what was there. The second component of the target is that array.
\<close>

fun slice_strings :: "jval list \<Rightarrow> string list \<Rightarrow> string list option" where
  "slice_strings [] old = Some old"
| "slice_strings (v # vs) old =
     (case (case v of VStr s \<Rightarrow> Some s | VNull \<Rightarrow> Some (case old of [] \<Rightarrow> [] | s # _ \<Rightarrow> s) | _ \<Rightarrow> None) of
        None \<Rightarrow> None
      | Some s \<Rightarrow> map_option (\<lambda>ss. s # ss) (slice_strings vs (tl old)))"

definition set_tools :: "(PropagatedTask \<times> string list) reader" where
  "set_tools raw v x =
     (let (t, back) = x in
      case v of
        VNull \<Rightarrow> Some (t\<lparr>ptask_Tools := None\<rparr>, [])
      | VArr vs \<Rightarrow>
          if vs = [] then Some (t\<lparr>ptask_Tools := Some []\<rparr>, [])
          else
            (case slice_strings vs back of
               None \<Rightarrow> None
             | Some back' \<Rightarrow> Some (t\<lparr>ptask_Tools := Some (take (length vs) back')\<rparr>, back'))
      | _ \<Rightarrow> None)"

definition task_setter :: "PropagatedTask reader \<Rightarrow> (PropagatedTask \<times> string list) reader" where
  "task_setter f raw v x = map_option (\<lambda>t. (t, snd x)) (f raw v (fst x))"

definition task_fields :: "(PropagatedTask \<times> string list) fields" where
  "task_fields =
     [(''task_id'', task_setter (struct_field ptask_TaskID ptask_TaskID_update read_string)),
      (''source_id'', task_setter (struct_field ptask_SourceID ptask_SourceID_update read_string)),
      (''prompt'', task_setter (struct_field ptask_Prompt ptask_Prompt_update read_string)),
      (''tools'', set_tools),
      (''model'', task_setter (struct_field ptask_Model ptask_Model_update read_string)),
      (''timestamp'', task_setter (struct_field ptask_Timestamp ptask_Timestamp_update read_int)),
      (''deadline_unix_ns'', task_setter (struct_field DeadlineUnixNs DeadlineUnixNs_update read_int))]"

definition decode_task :: "string \<Rightarrow> PropagatedTask option" where
  "decode_task s = map_option fst (decode_into task_fields (zero_task, []) s)"

definition valid_task :: "PropagatedTask \<Rightarrow> PropagatedTask" where
  "valid_task t = t\<lparr>ptask_TaskID := to_valid (ptask_TaskID t), ptask_SourceID := to_valid (ptask_SourceID t),
     ptask_Prompt := to_valid (ptask_Prompt t), ptask_Tools := map_option (map to_valid) (ptask_Tools t),
     ptask_Model := to_valid (ptask_Model t)\<rparr>"

lemma slice_strings_write:
  "slice_strings (map (jv_of \<circ> JStr) ss) old = Some (map to_valid ss @ drop (length ss) old)"
  by (induction ss arbitrary: old) (auto simp: drop_Suc split: list.splits)

lemma decode_task_json:
  assumes "in_int64 (ptask_Timestamp t)" and "in_int64 (DeadlineUnixNs t)"
  shows "decode_task (task_json t) = Some (valid_task t)"
  unfolding decode_task_def task_json_def
  apply (subst decode_write)
  apply (simp_all add: maxNestingDepth_def list_all_iff split: option.split)[2]
  apply (cases "ptask_Tools t"; cases "DeadlineUnixNs t = 0")
     apply (simp_all add: decode_struct_def task_fields_def zero_task_def valid_task_def set_tools_def task_setter_def
      find_field_def reader_defs to_valid_ascii byte_def Atoi_show_int slice_strings_write assms)
  done

section \<open>Results\<close>

definition zero_result :: PropagatedResult where
  "zero_result = \<lparr>pres_TaskID = [], pres_NodeID = [], pres_Output = [], pres_Error = [], DurationMS = 0\<rparr>"

definition result_fields :: "PropagatedResult fields" where
  "result_fields =
     [(''task_id'', struct_field pres_TaskID pres_TaskID_update read_string),
      (''node_id'', struct_field pres_NodeID pres_NodeID_update read_string),
      (''output'', struct_field pres_Output pres_Output_update read_string),
      (''error'', struct_field pres_Error pres_Error_update read_string),
      (''duration_ms'', struct_field DurationMS DurationMS_update read_int)]"

definition decode_result :: "string \<Rightarrow> PropagatedResult option" where
  "decode_result = decode_into result_fields zero_result"

definition valid_result :: "PropagatedResult \<Rightarrow> PropagatedResult" where
  "valid_result r = r\<lparr>pres_TaskID := to_valid (pres_TaskID r), pres_NodeID := to_valid (pres_NodeID r),
     pres_Output := to_valid (pres_Output r), pres_Error := to_valid (pres_Error r)\<rparr>"

lemma decode_result_json:
  assumes "in_int64 (DurationMS r)"
  shows "decode_result (result_json r) = Some (valid_result r)"
  unfolding decode_result_def result_json_def
  by (subst decode_write; cases "pres_Error r = []")
    (simp_all add: maxNestingDepth_def decode_struct_def result_fields_def zero_result_def valid_result_def
      find_field_def reader_defs to_valid_ascii byte_def Atoi_show_int assms)

lemma Milliseconds_in_int64: "in_int64 (Milliseconds (Time_Sub t u))"
proof -
  define d where "d = Time_Sub t u"
  have d: "int64_min \<le> d" "d \<le> int64_max" by (simp_all add: d_def Time_Sub_def int64_min_def int64_max_def)
  have q: "0 \<le> x \<Longrightarrow> x div 1000000 \<le> x \<and> 0 \<le> x div 1000000" for x :: int
    using zdiv_mono2[of x 1 1000000] by (simp add: pos_imp_zdiv_nonneg_iff)
  show ?thesis
    using d q[of d] q[of "- d"] unfolding d_def[symmetric]
    by (cases "d < 0") (simp_all add: in_int64_def Milliseconds_def Millisecond_def int64_min_def int64_max_def)
qed

section \<open>Between two nodes\<close>

text \<open>
  C8: A task passed to a peer comes back as the peer's handler answers it: the caller receives the result that
  the remote handler gives for the task, with the duration measured there, whatever the strings of the task
  and of the result contain, once invalid bytes have been replaced on the way (each direction does it once). A peer
  without a handler answers with an error, a nil result comes back as an empty success.
\<close>

theorem task_crosses_the_wire:
  assumes "dial (GRPCAddr peer) = Inr c"
    and "\<And>server bytes. exchange c server bytes = Inr (handleConn decode_task start stop remote bytes)"
    and "in_int64 (ptask_Timestamp task)" and "in_int64 (DeadlineUnixNs task)"
  shows "PropagateTask dial exchange splitHost decode_result peer task =
    Inr (valid_result (remote_answer start stop (prop_handler remote) (valid_task task)))"
proof -
  let ?answer = "remote_answer start stop (prop_handler remote) (valid_task task)"
  have "in_int64 (DurationMS ?answer)"
    by (simp add: remote_answer_def Let_def Milliseconds_in_int64 split: option.split) (simp add: in_int64_def int64_min_def int64_max_def)
  with assms show ?thesis
    by (simp add: PropagateTask_def handleConn_answer[of decode_task, OF decode_task_json[OF assms(3,4)]] decode_result_json)
qed

lemma task_crosses_the_wire_witness:
  "let task = \<lparr>ptask_TaskID = ''t1'', ptask_SourceID = ''a'', ptask_Prompt = ''say hi'', ptask_Tools = Some [''sh''], ptask_Model = ''m'',
       ptask_Timestamp = 7, DeadlineUnixNs = 0\<rparr>
   in PropagateTask (\<lambda>a. Inr ()) (\<lambda>c server b. Inr (handleConn decode_task 0 0 NewMeshPropagator b))
        (\<lambda>a. None) decode_result \<lparr>peer_NodeID = ''b'', GRPCAddr = ''h:1'', peer_Version = ''1'', LastSeen = 0\<rparr> task
      = Inr \<lparr>pres_TaskID = ''t1'', pres_NodeID = [], pres_Output = [], pres_Error = ''no handler registered'', DurationMS = 0\<rparr>"
  unfolding Let_def
  by (subst task_crosses_the_wire[where c = "()" and start = 0 and stop = 0 and remote = NewMeshPropagator])
    (simp_all add: NewMeshPropagator_def remote_answer_def Let_def valid_result_def valid_task_def to_valid_ascii byte_def
      in_int64_def int64_min_def int64_max_def)

text \<open>
  C19: A node that announces itself is discovered: the datagram of its tick, received by another node, makes the
  sender a live peer there under its announced identity and address, and touches no other peer. A datagram
  of more than 512 bytes is cut off by the receiver's buffer and then never registers anything, and a node never
  registers itself.
\<close>

theorem announced_node_is_discovered:
  assumes "in_int64 (Unix_seconds now)"
  shows "peers (receiveBeacon unmarshal_beacon heard (fst (announceTick now ord a)) b) i =
    (let d = fst (announceTick now ord a); sent = beacon a
     in if length d \<le> maxBeaconSize \<and> i = to_valid (beacon_NodeID sent) \<and> i \<noteq> beacon_NodeID (beacon b)
        then Some (case peers b i of
               Some p \<Rightarrow> if GRPCAddr p = to_valid (beacon_GRPCAddr sent) then p\<lparr>LastSeen := heard\<rparr>
                 else \<lparr>peer_NodeID = i, GRPCAddr = to_valid (beacon_GRPCAddr sent), peer_Version = to_valid (beacon_Version sent), LastSeen = heard\<rparr>
             | None \<Rightarrow> \<lparr>peer_NodeID = i, GRPCAddr = to_valid (beacon_GRPCAddr sent), peer_Version = to_valid (beacon_Version sent), LastSeen = heard\<rparr>)
        else peers b i)"
proof -
  let ?s = "beacon (stampBeacon now a)"
  have d: "fst (announceTick now ord a) = beacon_json ?s" by (simp add: announceTick_def Let_def)
  have s: "beacon_NodeID ?s = beacon_NodeID (beacon a)" "beacon_GRPCAddr ?s = beacon_GRPCAddr (beacon a)"
    "beacon_Version ?s = beacon_Version (beacon a)" "in_int64 (beacon_Timestamp ?s)"
    using assms by (simp_all add: stampBeacon_def)
  show ?thesis
  proof (cases "length (beacon_json ?s) \<le> maxBeaconSize")
    case True
    then have "receiveBeacon unmarshal_beacon heard (beacon_json ?s) b = upsertPeer heard (valid_beacon ?s) b"
      by (simp add: receiveBeacon_def unmarshal_beacon_json[OF s(4)])
    with True show ?thesis unfolding d Let_def
      by (cases "i = to_valid (beacon_NodeID (beacon a))") (auto simp: upsertPeer_peers s split: option.split)
  next
    case False
    obtain ms where ms: "beacon_json ?s = json_write (JObj ms)" "fits maxNestingDepth (JObj ms)" using beacon_json_obj by blast
    have "unmarshal_beacon (take maxBeaconSize (beacon_json ?s)) = None"
      unfolding ms(1) unmarshal_beacon_def
      by (rule truncated_struct(1)[OF ms(2)]) (use False in \<open>simp only: ms(1) not_le\<close>)
    with False show ?thesis unfolding d Let_def by (simp add: receiveBeacon_def)
  qed
qed

lemma announced_node_is_discovered_witness:
  "peers (receiveBeacon unmarshal_beacon 9 (fst (announceTick unix_epoch [] (NewMeshDiscovery ''a'' ''h:1'' ''1''))) (NewMeshDiscovery ''b'' ''h:2'' ''1'')) ''a'' =
     Some \<lparr>peer_NodeID = ''a'', GRPCAddr = ''h:1'', peer_Version = ''1'', LastSeen = 9\<rparr>"
proof -
  have e: "Unix_seconds unix_epoch = 0" by (simp add: Unix_seconds_def unix_epoch_def Second_def)
  have "length (fst (announceTick unix_epoch [] (NewMeshDiscovery ''a'' ''h:1'' ''1''))) \<le> maxBeaconSize"
    by (simp add: announceTick_def Let_def stampBeacon_def NewMeshDiscovery_def beacon_json_def json_string_plain plain_char_def
        byte_def e show_int_def show_nat.simps maxBeaconSize_def)
  then show ?thesis
    by (subst announced_node_is_discovered)
      (simp_all add: e in_int64_def int64_min_def int64_max_def NewMeshDiscovery_def to_valid_ascii byte_def)
qed

end
