(* ===== verification/Chat_Wire.thy ===== *)
theory Chat_Wire
  imports Telegram Discord Go_Json_Struct
begin

text \<open>
  The messages of the two chat services as bytes: the decoders of \<open>gateway/telegram\<close> and
  \<open>gateway/discord\<close>, one field of a struct after the other, and what the clients and the session make of what
  the services write.
\<close>

section \<open>Telegram\<close>

definition zero_tg_user :: tg_User where
  "zero_tg_user = \<lparr>tg_UserID = 0, tg_IsBot = False, tg_FirstName = [], tg_LastName = [], tg_Username = []\<rparr>"

definition tg_user_fields :: "tg_User fields" where
  "tg_user_fields =
     [(''id'', struct_field tg_UserID tg_UserID_update read_int),
      (''is_bot'', struct_field tg_IsBot tg_IsBot_update read_bool),
      (''first_name'', struct_field tg_FirstName tg_FirstName_update read_string),
      (''last_name'', struct_field tg_LastName tg_LastName_update read_string),
      (''username'', struct_field tg_Username tg_Username_update read_string)]"

definition zero_tg_chat :: tg_Chat where
  "zero_tg_chat = \<lparr>tg_ChatID = 0, tg_ChatType = [], tg_Title = []\<rparr>"

definition tg_chat_fields :: "tg_Chat fields" where
  "tg_chat_fields =
     [(''id'', struct_field tg_ChatID tg_ChatID_update read_int),
      (''type'', struct_field tg_ChatType tg_ChatType_update read_string),
      (''title'', struct_field tg_Title tg_Title_update read_string)]"

definition zero_tg_message :: tg_Message where
  "zero_tg_message = \<lparr>tg_MessageID = 0, tg_From = None, tg_MsgChat = zero_tg_chat, tg_Date = 0, tg_Text = []\<rparr>"

definition tg_message_fields :: "tg_Message fields" where
  "tg_message_fields =
     [(''message_id'', struct_field tg_MessageID tg_MessageID_update read_int),
      (''from'', struct_field tg_From tg_From_update (read_ptr (read_struct tg_user_fields) zero_tg_user)),
      (''chat'', struct_field tg_MsgChat tg_MsgChat_update (read_struct tg_chat_fields)),
      (''date'', struct_field tg_Date tg_Date_update read_int),
      (''text'', struct_field tg_Text tg_Text_update read_string)]"

definition zero_update :: Update where
  "zero_update = \<lparr>UpdateID = 0, upd_Message = None\<rparr>"

definition update_fields :: "Update fields" where
  "update_fields =
     [(''update_id'', struct_field UpdateID UpdateID_update read_int),
      (''message'', struct_field upd_Message upd_Message_update (read_ptr (read_struct tg_message_fields) zero_tg_message))]"

definition zero_api :: apiResponse where
  "zero_api = \<lparr>api_OK = False, api_Result = [], api_ErrorCode = 0, api_Description = []\<rparr>"

definition api_fields :: "apiResponse fields" where
  "api_fields =
     [(''ok'', struct_field api_OK api_OK_update read_bool),
      (''result'', struct_field api_Result api_Result_update read_raw),
      (''error_code'', struct_field api_ErrorCode api_ErrorCode_update read_int),
      (''description'', struct_field api_Description api_Description_update read_string)]"

text \<open>The envelope is read from the stream of the body, the result from the text in it.\<close>

definition decode_api :: "string \<Rightarrow> apiResponse option" where
  "decode_api = decode_into api_fields zero_api"

definition unmarshal_tg_user :: "string \<Rightarrow> tg_User option" where
  "unmarshal_tg_user = unmarshal_into tg_user_fields zero_tg_user"

definition unmarshal_tg_message :: "string \<Rightarrow> tg_Message option" where
  "unmarshal_tg_message = unmarshal_into tg_message_fields zero_tg_message"

definition unmarshal_updates :: "string \<Rightarrow> Update list option" where
  "unmarshal_updates = unmarshal_list update_fields zero_update"

section \<open>Discord\<close>

definition zero_dc_user :: dc_User where
  "zero_dc_user = \<lparr>dc_UserID = [], dc_Username = [], dc_Discriminator = [], dc_GlobalName = [], dc_Bot = False\<rparr>"

definition dc_user_fields :: "dc_User fields" where
  "dc_user_fields =
     [(''id'', struct_field dc_UserID dc_UserID_update read_string),
      (''username'', struct_field dc_Username dc_Username_update read_string),
      (''discriminator'', struct_field dc_Discriminator dc_Discriminator_update read_string),
      (''global_name'', struct_field dc_GlobalName dc_GlobalName_update read_string),
      (''bot'', struct_field dc_Bot dc_Bot_update read_bool)]"

definition zero_dc_message :: dc_Message where
  "zero_dc_message = \<lparr>dc_MessageID = [], dc_ChannelID = [], dc_Author = None, dc_Content = [], dc_Timestamp = []\<rparr>"

definition dc_message_fields :: "dc_Message fields" where
  "dc_message_fields =
     [(''id'', struct_field dc_MessageID dc_MessageID_update read_string),
      (''channel_id'', struct_field dc_ChannelID dc_ChannelID_update read_string),
      (''author'', struct_field dc_Author dc_Author_update (read_ptr (read_struct dc_user_fields) zero_dc_user)),
      (''content'', struct_field dc_Content dc_Content_update read_string),
      (''timestamp'', struct_field dc_Timestamp dc_Timestamp_update read_string)]"

definition zero_payload :: GatewayPayload where
  "zero_payload = \<lparr>gp_Op = 0, gp_Data = [], gp_Seq = None, gp_Type = []\<rparr>"

definition payload_fields :: "GatewayPayload fields" where
  "payload_fields =
     [(''op'', struct_field gp_Op gp_Op_update read_int),
      (''d'', struct_field gp_Data gp_Data_update read_raw),
      (''s'', struct_field gp_Seq gp_Seq_update (read_ptr read_int 0)),
      (''t'', struct_field gp_Type gp_Type_update read_string)]"

text \<open>The heartbeat interval of a hello.\<close>

definition hello_fields :: "int fields" where
  "hello_fields = [(''heartbeat_interval'', read_int)]"

record ReadyEvent =
  ready_V :: int
  ready_User :: "dc_User option"

definition ready_fields :: "ReadyEvent fields" where
  "ready_fields =
     [(''v'', struct_field ready_V ready_V_update read_int),
      (''user'', struct_field ready_User ready_User_update (read_ptr (read_struct dc_user_fields) zero_dc_user))]"

definition zero_dc_err :: dc_APIError where
  "zero_dc_err = \<lparr>dc_Code = 0, dc_ErrMessage = []\<rparr>"

definition dc_err_fields :: "dc_APIError fields" where
  "dc_err_fields =
     [(''code'', struct_field dc_Code dc_Code_update read_int),
      (''message'', struct_field dc_ErrMessage dc_ErrMessage_update read_string)]"

definition url_fields :: "string fields" where
  "url_fields = [(''url'', read_string)]"

definition unmarshal_payload :: "string \<Rightarrow> GatewayPayload option" where
  "unmarshal_payload = unmarshal_into payload_fields zero_payload"

definition unmarshal_hello :: "string \<Rightarrow> int option" where
  "unmarshal_hello = unmarshal_into hello_fields 0"

definition unmarshal_ready :: "string \<Rightarrow> ReadyEvent option" where
  "unmarshal_ready = unmarshal_into ready_fields \<lparr>ready_V = 0, ready_User = None\<rparr>"

definition unmarshal_dc_message :: "string \<Rightarrow> dc_Message option" where
  "unmarshal_dc_message = unmarshal_into dc_message_fields zero_dc_message"

definition unmarshal_dc_err :: "string \<Rightarrow> dc_APIError option" where
  "unmarshal_dc_err = unmarshal_into dc_err_fields zero_dc_err"

definition unmarshal_url :: "string \<Rightarrow> string option" where
  "unmarshal_url = unmarshal_into url_fields []"

section \<open>What a Discord session makes of its messages\<close>

text \<open>The members of the service's objects; a user and a message may come with many more.\<close>

definition dc_user_members :: "dc_User \<Rightarrow> (string \<times> json) list" where
  "dc_user_members u =
     [(''id'', JStr (dc_UserID u)), (''username'', JStr (dc_Username u)), (''discriminator'', JStr (dc_Discriminator u)),
      (''global_name'', if dc_GlobalName u = [] then JNull else JStr (dc_GlobalName u))]
     @ (if dc_Bot u then [(''bot'', JBool True)] else [])"

definition dc_message_members :: "dc_Message \<Rightarrow> json \<Rightarrow> (string \<times> json) list" where
  "dc_message_members msg author =
     [(''id'', JStr (dc_MessageID msg)), (''channel_id'', JStr (dc_ChannelID msg))]
     @ (if dc_Author msg = None then [] else [(''author'', author)])
     @ [(''content'', JStr (dc_Content msg)), (''timestamp'', JStr (dc_Timestamp msg))]"

definition is_message_object :: "dc_Message \<Rightarrow> json \<Rightarrow> bool" where
  "is_message_object msg j \<longleftrightarrow>
     (\<exists>author. has_members dc_message_fields (dc_message_members msg author) j
        \<and> (\<forall>u. dc_Author msg = Some u \<longrightarrow> has_members dc_user_fields (dc_user_members u) author))"

definition valid_dc_user :: "dc_User \<Rightarrow> dc_User" where
  "valid_dc_user u = u\<lparr>dc_UserID := to_valid (dc_UserID u), dc_Username := to_valid (dc_Username u),
     dc_Discriminator := to_valid (dc_Discriminator u), dc_GlobalName := to_valid (dc_GlobalName u)\<rparr>"

definition valid_dc_message :: "dc_Message \<Rightarrow> dc_Message" where
  "valid_dc_message msg = msg\<lparr>dc_MessageID := to_valid (dc_MessageID msg), dc_ChannelID := to_valid (dc_ChannelID msg),
     dc_Author := map_option valid_dc_user (dc_Author msg), dc_Content := to_valid (dc_Content msg),
     dc_Timestamp := to_valid (dc_Timestamp msg)\<rparr>"

lemma commuting_dc: "commuting dc_user_fields" "commuting dc_message_fields" "commuting payload_fields"
  by (simp_all add: dc_user_fields_def dc_message_fields_def payload_fields_def commuting_def commute_field)

lemma dc_user_read:
  assumes "has_members dc_user_fields (dc_user_members u) j"
  shows "decode_struct dc_user_fields (jv_of j) zero_dc_user = Some (valid_dc_user u)"
proof -
  have f: "field_members dc_user_fields (dc_user_members u)"
    by (simp add: field_members_def dc_user_fields_def dc_user_members_def byte_def)
  show ?thesis
    unfolding decode_has_members[OF commuting_dc(1) f assms]
    by (cases u) (simp add: dc_user_fields_def dc_user_members_def zero_dc_user_def valid_dc_user_def find_field_def reader_defs
        to_valid_ascii byte_def)
qed

lemma dc_message_read:
  assumes "is_message_object msg j"
  shows "decode_struct dc_message_fields (jv_of j) zero_dc_message = Some (valid_dc_message msg)"
proof -
  obtain author where j: "has_members dc_message_fields (dc_message_members msg author) j"
    and a: "\<And>u. dc_Author msg = Some u \<Longrightarrow> has_members dc_user_fields (dc_user_members u) author"
    using assms by (auto simp: is_message_object_def)
  have f: "field_members dc_message_fields (dc_message_members msg author)"
    by (simp add: field_members_def dc_message_fields_def dc_message_members_def byte_def)
  note s = dc_message_fields_def dc_message_members_def zero_dc_message_def valid_dc_message_def find_field_def reader_defs
    to_valid_ascii byte_def
  show ?thesis
    unfolding decode_has_members[OF commuting_dc(2) f j]
  proof (cases "dc_Author msg")
    case None
    then show "set_members dc_message_fields (map jm_of (dc_message_members msg author)) zero_dc_message = Some (valid_dc_message msg)"
      by (cases msg) (simp add: s)
  next
    case (Some u)
    have "jv_of author \<noteq> VNull" using a[OF Some] by (cases author) (simp_all add: has_members_def)
    then have "read_ptr (read_struct dc_user_fields) zero_dc_user raw (jv_of author) None = Some (Some (valid_dc_user u))" for raw
      using dc_user_read[OF a[OF Some]] by (cases "jv_of author") (simp_all add: read_ptr_def read_struct_def)
    with Some show "set_members dc_message_fields (map jm_of (dc_message_members msg author)) zero_dc_message = Some (valid_dc_message msg)"
      by (cases msg) (simp add: dc_message_fields_def dc_message_members_def zero_dc_message_def valid_dc_message_def find_field_def
          read_string_def struct_field_def to_valid_ascii byte_def)
  qed
qed

text \<open>A payload of the gateway, with its members in any order.\<close>

definition payload_members :: "int \<Rightarrow> json \<Rightarrow> int option \<Rightarrow> string \<Rightarrow> (string \<times> json) list" where
  "payload_members op d s t =
     [(''t'', if t = [] then JNull else JStr t), (''s'', case s of None \<Rightarrow> JNull | Some n \<Rightarrow> JInt n),
      (''op'', JInt op), (''d'', d)]"

lemma payload_read:
  assumes "has_members payload_fields (payload_members op d s t) j" and "fits maxNestingDepth j"
    and "in_int64 op" and "\<And>n. s = Some n \<Longrightarrow> in_int64 n"
  shows "unmarshal_payload (json_write j) = Some \<lparr>gp_Op = op, gp_Data = json_write d, gp_Seq = s, gp_Type = to_valid t\<rparr>"
proof -
  have f: "field_members payload_fields (payload_members op d s t)"
    by (simp add: field_members_def payload_fields_def payload_members_def byte_def)
  show ?thesis
    unfolding unmarshal_payload_def unmarshal_write[OF assms(2)] decode_has_members[OF commuting_dc(3) f assms(1)]
    using assms(3,4)
    by (cases s) (simp_all add: payload_fields_def payload_members_def zero_payload_def find_field_def reader_defs
        to_valid_ascii byte_def Atoi_show_int)
qed

lemma fits_mono:
  "fits n v \<Longrightarrow> n \<le> k \<Longrightarrow> fits k v"
  "fits_member n x \<Longrightarrow> n \<le> k \<Longrightarrow> fits_member k x"
  by (induction n v and n x arbitrary: k and k rule: fits_fits_member.induct)
    (fastforce simp: list_all_iff intro: diff_le_mono)+

lemma has_members_fits:
  assumes "has_members fs ms j" and "fits n j" and "(k, v) \<in> set ms"
  shows "fits n v"
proof -
  obtain all where j: "j = JObj all" "mset (known_members fs all) = mset ms"
    using assms(1) by (cases j) (auto simp: has_members_def)
  then have "(k, v) \<in> set (known_members fs all)" using assms(3) by (metis set_mset_mset)
  then have "(k, v) \<in> set all" by (simp add: known_members_def)
  with assms(2) j(1) have "fits_member (n - 1) (k, v)" by (auto simp: list_all_iff)
  then show ?thesis using fits_mono(1)[of "n - 1" v n] by simp
qed

text \<open>What a text tells a session: a new message, or nothing that it starts a handler for.\<close>

definition announces :: "string \<Rightarrow> dc_Message option \<Rightarrow> bool" where
  "announces t mo \<longleftrightarrow>
     (\<exists>j op d s ev. t = json_write j \<and> fits maxNestingDepth j \<and> has_members payload_fields (payload_members op d s ev) j
        \<and> in_int64 op \<and> (\<forall>n. s = Some n \<longrightarrow> in_int64 n) \<and> valid_utf8 ev
        \<and> (if op = OpcodeDispatch \<and> ev = ''MESSAGE_CREATE'' then \<exists>msg. mo = Some msg \<and> is_message_object msg d else mo = None))"

definition announces_hello :: "string \<Rightarrow> int \<Rightarrow> bool" where
  "announces_hello t ms \<longleftrightarrow>
     (\<exists>j d s ev. t = json_write j \<and> fits maxNestingDepth j \<and> has_members payload_fields (payload_members OpcodeHello d s ev) j
        \<and> (\<forall>n. s = Some n \<longrightarrow> in_int64 n) \<and> has_members hello_fields [(''heartbeat_interval'', JInt ms)] d \<and> in_int64 ms)"

lemma new_message_read:
  assumes "announces t mo"
  shows "new_message unmarshal_payload unmarshal_dc_message t = map_option valid_dc_message mo"
proof -
  obtain j op d s ev where t: "t = json_write j" "fits maxNestingDepth j" "has_members payload_fields (payload_members op d s ev) j"
      "in_int64 op" "\<And>n. s = Some n \<Longrightarrow> in_int64 n" "valid_utf8 ev"
    and mo: "if op = OpcodeDispatch \<and> ev = ''MESSAGE_CREATE'' then \<exists>msg. mo = Some msg \<and> is_message_object msg d else mo = None"
    using assms by (auto simp: announces_def)
  note p = payload_read[OF t(3,2,4,5)]
  show ?thesis
  proof (cases "op = OpcodeDispatch \<and> ev = ''MESSAGE_CREATE''")
    case True
    then obtain msg where msg: "mo = Some msg" "is_message_object msg d" using mo by auto
    have "fits maxNestingDepth d" by (rule has_members_fits[OF t(3,2), of "''d''"]) (simp add: payload_members_def)
    then have "unmarshal_dc_message (json_write d) = Some (valid_dc_message msg)"
      by (simp add: unmarshal_dc_message_def unmarshal_write dc_message_read[OF msg(2)])
    with True msg p t(1,6) show ?thesis by (simp add: new_message_def to_valid_id)
  next
    case False
    with mo p t(1,6) show ?thesis by (auto simp: new_message_def to_valid_id)
  qed
qed

lemma by_human_valid [simp]: "by_human (valid_dc_message msg) = by_human msg"
  by (cases "dc_Author msg") (simp_all add: by_human_def valid_dc_message_def valid_dc_user_def)

lemma human_messages_read:
  "list_all2 announces ts mos \<Longrightarrow> human_messages unmarshal_payload unmarshal_dc_message ts =
     map valid_dc_message (filter by_human (List.map_filter (\<lambda>x. x) mos))"
proof (induction ts mos rule: list_all2_induct)
  case (Cons t ts mo mos)
  then show ?case by (cases mo) (simp_all add: new_message_read List.map_filter_simps)
qed (simp add: List.map_filter_simps)

lemma hello_read:
  assumes "announces_hello t ms"
  obtains p where "unmarshal_payload t = Some p" "gp_Op p = OpcodeHello" "unmarshal_hello (gp_Data p) = Some ms"
proof -
  obtain j d s ev where t: "t = json_write j" "fits maxNestingDepth j" "has_members payload_fields (payload_members OpcodeHello d s ev) j"
      "\<And>n. s = Some n \<Longrightarrow> in_int64 n" and d: "has_members hello_fields [(''heartbeat_interval'', JInt ms)] d" "in_int64 ms"
    using assms by (auto simp: announces_hello_def)
  have "in_int64 OpcodeHello" by (simp add: OpcodeHello_def in_int64_def int64_min_def int64_max_def)
  note p = payload_read[OF t(3,2) this t(4)]
  have "fits maxNestingDepth d" by (rule has_members_fits[OF t(3,2), of "''d''"]) (simp add: payload_members_def)
  moreover have "commuting hello_fields" by (simp add: commuting_def hello_fields_def)
  moreover have "field_members hello_fields [(''heartbeat_interval'', JInt ms)]"
    by (simp add: field_members_def hello_fields_def byte_def)
  ultimately have "unmarshal_hello (json_write d) = Some ms"
    using d by (simp add: unmarshal_hello_def unmarshal_write decode_has_members)
      (simp add: hello_fields_def find_field_def reader_defs to_valid_ascii byte_def Atoi_show_int)
  with that p t(1) show ?thesis by simp
qed

text \<open>
  C7: A Discord session, over the bytes that the service sends: it identifies itself once, after the hello, and then starts the
  handler exactly for the messages that are announced and not from bots, its own included, in their order, with their
  author, channel and content, in whatever order the service writes the members of its objects, whatever other
  members they have, however the payloads are cut into fragments and whatever pings come between; besides the
  identification it writes only the pongs to these pings, and the close. No payload ends the session: the
  gateway's requests to reconnect and its notice that the session is invalid are passed over, so that the session
  then waits until the server closes it.
\<close>

theorem session_starts_handlers_for_messages:
  assumes "\<forall>w \<in> set (hello # ws). wire_ok m w" and "m \<le> 2 ^ 63 - 1" and "\<forall>n. env n = (Some (key n), None)"
    and "gw_handler g" and "\<forall>k. \<not> cancelled k"
    and "dial wsURL = Inr \<lparr>ws_in = concat (map wire_bytes (hello # ws)), ws_out = [], ws_writes = 0\<rparr>"
    and "announces_hello (wire_text hello) ms" and "0 < heartbeat_interval ms"
    and "list_all2 announces (map wire_text ws) mos"
  shows "connect_gateway env m unmarshal_payload unmarshal_hello unmarshal_dc_message (\<lambda>d. unmarshal_ready d \<noteq> None) cancelled g dial wsURL =
    (let j = length (wire_pings hello); ds = concat (map wire_pings ws)
     in (SessionFailed (GwRecv (ReadFailed ReadHeader0)),
         pong_bytes env 0 (wire_pings hello) @ frame_bytes wsOpText (identify_text g) (key j)
         @ pong_bytes env (Suc j) ds @ frame_bytes wsOpClose [] (key (Suc j + length ds)),
         map valid_dc_message (filter by_human (List.map_filter (\<lambda>x. x) mos))))"
proof -
  obtain p where p: "unmarshal_payload (wire_text hello) = Some p" "gp_Op p = OpcodeHello" "unmarshal_hello (gp_Data p) = Some ms"
    using hello_read[OF assms(7)] .
  show ?thesis
    using session_dispatches_human_messages[where ready_ok = "\<lambda>d. unmarshal_ready d \<noteq> None" and cancelled = cancelled
        and key = key and decode = unmarshal_payload and decode_hello = unmarshal_hello and decode_msg = unmarshal_dc_message
        and dial = dial, OF assms(1-6) p assms(8)]
    unfolding human_messages_read[OF assms(9)] .
qed

definition hello_json :: json where
  "hello_json = JObj [(''t'', JNull), (''s'', JNull), (''op'', JInt 10),
     (''d'', JObj [(''heartbeat_interval'', JInt 41250), (''_trace'', JArr [])])]"

definition create_json :: json where
  "create_json = JObj [(''t'', JStr ''MESSAGE_CREATE''), (''s'', JInt 2), (''op'', JInt 0),
     (''d'', JObj [(''type'', JInt 0), (''timestamp'', JStr ''now''), (''id'', JStr ''7''), (''content'', JStr ''hi''), (''channel_id'', JStr ''c'')])]"

lemma session_starts_handlers_for_messages_witness:
  "snd (snd (connect_gateway (\<lambda>n. (Some ''kkkk'', None)) 1000 unmarshal_payload unmarshal_hello unmarshal_dc_message
      (\<lambda>d. unmarshal_ready d \<noteq> None) (\<lambda>_. False) (NewGateway ''t'' DefaultIntents True)
      (\<lambda>u. Inr \<lparr>ws_in = wire_bytes ([], wsOpText, json_write hello_json) @ wire_bytes ([], wsOpText, json_write create_json),
         ws_out = [], ws_writes = 0\<rparr>) ''wss://gw'')) =
   [\<lparr>dc_MessageID = ''7'', dc_ChannelID = ''c'', dc_Author = None, dc_Content = ''hi'', dc_Timestamp = ''now''\<rparr>]"
proof -
  let ?msg = "\<lparr>dc_MessageID = ''7'', dc_ChannelID = ''c'', dc_Author = None, dc_Content = ''hi'', dc_Timestamp = ''now''\<rparr>"
  let ?hello = "([] :: server_item list, wsOpText, json_write hello_json)"
  let ?ws = "[([] :: server_item list, wsOpText, json_write create_json)]"
  note known = known_members_def find_field_def fold_name_def runes_ascii fold_rune_def to_valid_ascii byte_def
  note small = in_int64_def int64_min_def int64_max_def
  have plain: "length (json_write hello_json) \<le> 1000" "length (json_write create_json) \<le> 1000"
    by (simp_all add: hello_json_def create_json_def json_string_plain plain_char_def byte_def show_int_def show_nat.simps)
  have h: "announces_hello (json_write hello_json) 41250"
    unfolding announces_hello_def
    by (intro exI[of _ hello_json] exI[of _ "JObj [(''heartbeat_interval'', JInt 41250), (''_trace'', JArr [])]"] exI[of _ None] exI[of _ "[]"])
      (simp add: hello_json_def maxNestingDepth_def has_members_def payload_fields_def hello_fields_def payload_members_def known OpcodeHello_def small)
  have m: "is_message_object ?msg (JObj [(''type'', JInt 0), (''timestamp'', JStr ''now''), (''id'', JStr ''7''), (''content'', JStr ''hi''), (''channel_id'', JStr ''c'')])"
    unfolding is_message_object_def
    by (intro exI[of _ JNull]) (simp add: has_members_def dc_message_fields_def dc_message_members_def known)
  have c: "announces (json_write create_json) (Some ?msg)"
    unfolding announces_def
    by (intro exI[of _ create_json] exI[of _ "0 :: int"]
        exI[of _ "JObj [(''type'', JInt 0), (''timestamp'', JStr ''now''), (''id'', JStr ''7''), (''content'', JStr ''hi''), (''channel_id'', JStr ''c'')]"]
        exI[of _ "Some 2"] exI[of _ "''MESSAGE_CREATE''"])
      (use m in \<open>simp add: create_json_def maxNestingDepth_def has_members_def payload_fields_def payload_members_def known OpcodeDispatch_def small valid_ascii\<close>)
  have "snd (snd (connect_gateway (\<lambda>n. (Some ''kkkk'', None)) 1000 unmarshal_payload unmarshal_hello unmarshal_dc_message
      (\<lambda>d. unmarshal_ready d \<noteq> None) (\<lambda>_. False) (NewGateway ''t'' DefaultIntents True)
      (\<lambda>u. Inr \<lparr>ws_in = concat (map wire_bytes (?hello # ?ws)), ws_out = [], ws_writes = 0\<rparr>) ''wss://gw'')) =
    map valid_dc_message (filter by_human (List.map_filter (\<lambda>x. x) [Some ?msg]))"
    by (subst session_starts_handlers_for_messages[where hello = ?hello and ws = ?ws and key = "\<lambda>_. ''kkkk''" and ms = 41250 and mos = "[Some ?msg]"])
      (use plain h c in \<open>simp_all add: data_op_def NewGateway_def heartbeat_interval_def Millisecond_def wrap64_def Let_def\<close>)
  then show ?thesis
    by (simp add: List.map_filter_simps by_human_def valid_dc_message_def to_valid_ascii byte_def)
qed

section \<open>What the Telegram client makes of an answer\<close>

definition tg_user_members :: "tg_User \<Rightarrow> (string \<times> json) list" where
  "tg_user_members u =
     [(''id'', JInt (tg_UserID u)), (''is_bot'', JBool (tg_IsBot u)), (''first_name'', JStr (tg_FirstName u)),
      (''last_name'', JStr (tg_LastName u)), (''username'', JStr (tg_Username u))]"

definition tg_chat_members :: "tg_Chat \<Rightarrow> (string \<times> json) list" where
  "tg_chat_members c =
     [(''id'', JInt (tg_ChatID c)), (''type'', JStr (tg_ChatType c)), (''title'', JStr (tg_Title c))]"

definition tg_message_members :: "tg_Message \<Rightarrow> json \<Rightarrow> json \<Rightarrow> (string \<times> json) list" where
  "tg_message_members msg sender chat =
     (''message_id'', JInt (tg_MessageID msg)) # (if tg_From msg = None then [] else [(''from'', sender)])
     @ [(''chat'', chat), (''date'', JInt (tg_Date msg)), (''text'', JStr (tg_Text msg))]"

definition is_tg_message :: "tg_Message \<Rightarrow> json \<Rightarrow> bool" where
  "is_tg_message msg j \<longleftrightarrow>
     in_int64 (tg_MessageID msg) \<and> in_int64 (tg_Date msg) \<and> in_int64 (tg_ChatID (tg_MsgChat msg))
     \<and> (\<exists>sender chat. has_members tg_message_fields (tg_message_members msg sender chat) j
        \<and> has_members tg_chat_fields (tg_chat_members (tg_MsgChat msg)) chat
        \<and> (\<forall>u. tg_From msg = Some u \<longrightarrow> in_int64 (tg_UserID u) \<and> has_members tg_user_fields (tg_user_members u) sender))"

definition is_update :: "Update \<Rightarrow> json \<Rightarrow> bool" where
  "is_update u j \<longleftrightarrow> in_int64 (UpdateID u) \<and>
     (\<exists>mj. has_members update_fields ((''update_id'', JInt (UpdateID u)) # (if upd_Message u = None then [] else [(''message'', mj)])) j
        \<and> (\<forall>msg. upd_Message u = Some msg \<longrightarrow> is_tg_message msg mj))"

definition valid_tg_user :: "tg_User \<Rightarrow> tg_User" where
  "valid_tg_user u = u\<lparr>tg_FirstName := to_valid (tg_FirstName u), tg_LastName := to_valid (tg_LastName u),
     tg_Username := to_valid (tg_Username u)\<rparr>"

definition valid_tg_chat :: "tg_Chat \<Rightarrow> tg_Chat" where
  "valid_tg_chat c = c\<lparr>tg_ChatType := to_valid (tg_ChatType c), tg_Title := to_valid (tg_Title c)\<rparr>"

definition valid_tg_message :: "tg_Message \<Rightarrow> tg_Message" where
  "valid_tg_message msg = msg\<lparr>tg_From := map_option valid_tg_user (tg_From msg), tg_MsgChat := valid_tg_chat (tg_MsgChat msg),
     tg_Text := to_valid (tg_Text msg)\<rparr>"

definition valid_update :: "Update \<Rightarrow> Update" where
  "valid_update u = u\<lparr>upd_Message := map_option valid_tg_message (upd_Message u)\<rparr>"

lemma commuting_tg: "commuting tg_user_fields" "commuting tg_chat_fields" "commuting tg_message_fields" "commuting update_fields"
  "commuting api_fields"
  by (simp_all add: tg_user_fields_def tg_chat_fields_def tg_message_fields_def update_fields_def api_fields_def commuting_def commute_field)

lemma tg_user_read:
  assumes "has_members tg_user_fields (tg_user_members u) j" and "in_int64 (tg_UserID u)"
  shows "decode_struct tg_user_fields (jv_of j) zero_tg_user = Some (valid_tg_user u)"
proof -
  have f: "field_members tg_user_fields (tg_user_members u)"
    by (simp add: field_members_def tg_user_fields_def tg_user_members_def byte_def)
  show ?thesis
    unfolding decode_has_members[OF commuting_tg(1) f assms(1)]
    using assms(2)
    by (cases u) (simp add: tg_user_fields_def tg_user_members_def zero_tg_user_def valid_tg_user_def find_field_def reader_defs
        to_valid_ascii byte_def Atoi_show_int)
qed

lemma tg_chat_read:
  assumes "has_members tg_chat_fields (tg_chat_members c) j" and "in_int64 (tg_ChatID c)"
  shows "decode_struct tg_chat_fields (jv_of j) zero_tg_chat = Some (valid_tg_chat c)"
proof -
  have f: "field_members tg_chat_fields (tg_chat_members c)"
    by (simp add: field_members_def tg_chat_fields_def tg_chat_members_def byte_def)
  show ?thesis
    unfolding decode_has_members[OF commuting_tg(2) f assms(1)]
    using assms(2)
    by (cases c) (simp add: tg_chat_fields_def tg_chat_members_def zero_tg_chat_def valid_tg_chat_def find_field_def reader_defs
        to_valid_ascii byte_def Atoi_show_int)
qed

text \<open>A pointer that is nil is filled from an object.\<close>

lemma read_ptr_object:
  assumes "has_members fs ms j" and "decode_struct fs (jv_of j) zero = Some x"
  shows "read_ptr (read_struct fs) zero raw (jv_of j) None = Some (Some x)"
  using assms by (cases j) (simp_all add: has_members_def read_ptr_def read_struct_def)

lemma tg_message_read:
  assumes "is_tg_message msg j"
  shows "decode_struct tg_message_fields (jv_of j) zero_tg_message = Some (valid_tg_message msg)"
proof -
  obtain sender chat where n: "in_int64 (tg_MessageID msg)" "in_int64 (tg_Date msg)" "in_int64 (tg_ChatID (tg_MsgChat msg))"
    and j: "has_members tg_message_fields (tg_message_members msg sender chat) j"
    and c: "has_members tg_chat_fields (tg_chat_members (tg_MsgChat msg)) chat"
    and u: "\<And>u. tg_From msg = Some u \<Longrightarrow> in_int64 (tg_UserID u) \<and> has_members tg_user_fields (tg_user_members u) sender"
    using assms by (auto simp: is_tg_message_def)
  have f: "field_members tg_message_fields (tg_message_members msg sender chat)"
    by (simp add: field_members_def tg_message_fields_def tg_message_members_def byte_def)
  note chat = tg_chat_read[OF c n(3)]
  note s = tg_message_fields_def tg_message_members_def zero_tg_message_def valid_tg_message_def find_field_def
    read_string_def read_int_def struct_field_def to_valid_ascii byte_def Atoi_show_int n
  show ?thesis
    unfolding decode_has_members[OF commuting_tg(3) f j]
  proof (cases "tg_From msg")
    case None
    then show "set_members tg_message_fields (map jm_of (tg_message_members msg sender chat)) zero_tg_message = Some (valid_tg_message msg)"
      using chat n by (cases msg) (simp add: s read_struct_def)
  next
    case (Some w)
    have "read_ptr (read_struct tg_user_fields) zero_tg_user raw (jv_of sender) None = Some (Some (valid_tg_user w))" for raw
      using u[OF Some] by (intro read_ptr_object[of _ "tg_user_members w"] tg_user_read) simp_all
    with Some show "set_members tg_message_fields (map jm_of (tg_message_members msg sender chat)) zero_tg_message = Some (valid_tg_message msg)"
      using chat n by (cases msg) (simp add: s read_struct_def[of tg_chat_fields])
  qed
qed

lemma update_read:
  assumes "is_update u j"
  shows "decode_struct update_fields (jv_of j) zero_update = Some (valid_update u)"
proof -
  obtain mj where n: "in_int64 (UpdateID u)"
    and j: "has_members update_fields ((''update_id'', JInt (UpdateID u)) # (if upd_Message u = None then [] else [(''message'', mj)])) j"
    and msg: "\<And>msg. upd_Message u = Some msg \<Longrightarrow> is_tg_message msg mj"
    using assms by (auto simp: is_update_def)
  have f: "field_members update_fields ((''update_id'', JInt (UpdateID u)) # (if upd_Message u = None then [] else [(''message'', mj)]))"
    by (simp add: field_members_def update_fields_def byte_def)
  note s = update_fields_def zero_update_def valid_update_def find_field_def read_int_def struct_field_def to_valid_ascii byte_def
    Atoi_show_int
  show ?thesis
    unfolding decode_has_members[OF commuting_tg(4) f j]
  proof (cases "upd_Message u")
    case None
    then show "set_members update_fields (map jm_of ((''update_id'', JInt (UpdateID u)) # (if upd_Message u = None then [] else [(''message'', mj)])))
        zero_update = Some (valid_update u)"
      using n by (cases u) (simp add: s)
  next
    case (Some m)
    obtain ms where "has_members tg_message_fields ms mj" using msg[OF Some] by (auto simp: is_tg_message_def)
    then have "read_ptr (read_struct tg_message_fields) zero_tg_message raw (jv_of mj) None = Some (Some (valid_tg_message m))" for raw
      using tg_message_read[OF msg[OF Some]] by (rule read_ptr_object)
    with Some show "set_members update_fields (map jm_of ((''update_id'', JInt (UpdateID u)) # (if upd_Message u = None then [] else [(''message'', mj)])))
        zero_update = Some (valid_update u)"
      using n by (cases u) (simp add: s)
  qed
qed

lemma updates_read:
  assumes "list_all2 is_update us js"
  shows "decode_list update_fields zero_update (map jv_of js) = Some (map valid_update us)"
  using assms by (induction us js rule: list_all2_induct) (simp_all add: update_read)

definition api_members :: "bool \<Rightarrow> json \<Rightarrow> int \<Rightarrow> string \<Rightarrow> (string \<times> json) list" where
  "api_members ok r code description =
     (''ok'', JBool ok) # (if ok then [(''result'', r)] else [(''error_code'', JInt code), (''description'', JStr description)])"

lemma api_read:
  assumes "has_members api_fields (api_members ok r code description) j" and "fits maxNestingDepth j" and "in_int64 code"
    and "ends_value t"
  shows "decode_api (json_write j @ t) = Some
    (if ok then zero_api\<lparr>api_OK := True, api_Result := json_write r\<rparr>
     else zero_api\<lparr>api_ErrorCode := code, api_Description := to_valid description\<rparr>)"
proof -
  have f: "field_members api_fields (api_members ok r code description)"
    by (simp add: field_members_def api_fields_def api_members_def byte_def)
  show ?thesis
    unfolding decode_api_def decode_write[OF assms(2,4)] decode_has_members[OF commuting_tg(5) f assms(1)]
    using assms(3) by (simp add: api_fields_def api_members_def zero_api_def find_field_def reader_defs to_valid_ascii byte_def Atoi_show_int)
qed

text \<open>
  What a poll returns, over the bytes of the server's answer: the updates of the answer in their order,
  each with its id, its message, chat and sender, in whatever order the server writes the members, whatever
  other members it sends; an answer that is not \<open>ok\<close> is the API's error with its code and description, whatever
  the status of the HTTP response.
\<close>

lemma updates_are_read_from_answer:
  assumes "url_ok (tg_url c ''getUpdates'')"
    and "env (length (http_log st)) (tg_post_request c ''getUpdates'' (updates_request off timeout)) = Inr (status, json_write j @ t)"
    and "ends_value t" and "fits maxNestingDepth j"
    and "has_members api_fields (api_members ok (JArr js) code description) j" and "in_int64 code"
    and "list_all2 is_update us js"
  shows "fst (GetUpdates url_ok decode_api unmarshal_updates env c off timeout st) =
    (if ok then Inr (map valid_update us) else Inl (TgAPIError code (to_valid description)))"
proof (cases ok)
  case True
  have "fits maxNestingDepth (JArr js)"
    by (rule has_members_fits[OF assms(5,4), of "''result''"]) (simp add: api_members_def True)
  then have "unmarshal_updates (json_write (JArr js)) = Some (map valid_update us)"
    using json_unmarshal_write(1)[of "JArr js"] updates_read[OF assms(7)] by (simp add: unmarshal_updates_def unmarshal_list_def del: json_write.simps fits.simps)
  with True assms(1,2) api_read[OF assms(5,4,6,3)] show ?thesis
    by (simp add: GetUpdates_def tg_post_def tg_do_def http_Do_def zero_api_def del: json_write.simps)
next
  case False
  with assms(1,2) api_read[OF assms(5,4,6,3)] show ?thesis
    by (simp add: GetUpdates_def tg_post_def tg_do_def http_Do_def zero_api_def del: json_write.simps)
qed

definition updates_answer :: json where
  "updates_answer = JObj [(''ok'', JBool True), (''result'', JArr [JObj [(''update_id'', JInt 12), (''poll'', JNull)]])]"

lemma updates_are_read_from_answer_witness:
  "fst (GetUpdates (\<lambda>_. True) decode_api unmarshal_updates (\<lambda>_ _. Inr (200, json_write updates_answer @ [CHR 0x0A])) (tg_NewClient ''t'') 0 30
      \<lparr>chat_world = (), http_log = []\<rparr>) = Inr [\<lparr>UpdateID = 12, upd_Message = None\<rparr>]"
proof -
  note known = known_members_def find_field_def fold_name_def runes_ascii fold_rune_def to_valid_ascii byte_def
  note small = in_int64_def int64_min_def int64_max_def
  let ?u = "\<lparr>UpdateID = 12, upd_Message = None\<rparr>"
  have u: "is_update ?u (JObj [(''update_id'', JInt 12), (''poll'', JNull)])"
    by (simp add: is_update_def has_members_def update_fields_def known small)
  have "fst (GetUpdates (\<lambda>_. True) decode_api unmarshal_updates (\<lambda>_ _. Inr (200, json_write updates_answer @ [CHR 0x0A])) (tg_NewClient ''t'') 0 30
      \<lparr>chat_world = (), http_log = []\<rparr>) = (if True then Inr (map valid_update [?u]) else Inl (TgAPIError 0 (to_valid [])))"
    by (rule updates_are_read_from_answer[where j = updates_answer and t = "[CHR 0x0A]" and status = 200 and js = "[JObj [(''update_id'', JInt 12), (''poll'', JNull)]]"])
      (use u in \<open>simp_all add: updates_answer_def maxNestingDepth_def has_members_def api_fields_def api_members_def known small\<close>)
  then show ?thesis by (simp add: valid_update_def)
qed

end
