(* ===== verification/Auth_Wire.thy ===== *)
theory Auth_Wire
  imports Auth_Tokens Go_Path Go_Json_Struct
begin

text \<open>
  The session of a node as it is set up (\<open>NewTokenStore\<close>, \<open>NewVerifier\<close>, \<open>NewAuthManager\<close> of \<open>core/auth.go\<close>, \<open>openBrowser\<close>
  of \<open>cmd/aether/auth.go\<close>) and with the decoders of the claims and of the refresh answer: a session whose token
  has expired is renewed from the bytes that the auth server sends.
\<close>

section \<open>Setting up\<close>

record TokenStore =
  ConfigDir :: string

definition tokenFileName :: string where "tokenFileName = ''token''"

text \<open>\<open>UserConfigDir\<close> gives an error or the directory, \<open>MkdirAll\<close> an error or nothing.\<close>

definition NewTokenStore :: "(string + string) \<Rightarrow> (string \<Rightarrow> string option) \<Rightarrow> string + TokenStore" where
  "NewTokenStore UserConfigDir MkdirAll =
     (case UserConfigDir of
        Inl e \<Rightarrow> Inl e
      | Inr configDir \<Rightarrow>
          (let aetherDir = filepath_Join configDir ''aether''
           in case MkdirAll aetherDir of Some e \<Rightarrow> Inl e | None \<Rightarrow> Inr \<lparr>ConfigDir = aetherDir\<rparr>))"

text \<open>The file that \<open>Save\<close>, \<open>Load\<close> and \<open>Delete\<close> work on.\<close>

definition token_path :: "TokenStore \<Rightarrow> string" where
  "token_path s = filepath_Join (ConfigDir s) tokenFileName"

record 'key Verifier =
  publicKey :: "'key option"

definition NewVerifier :: "'key option \<Rightarrow> 'key Verifier" where
  "NewVerifier pubKey = \<lparr>publicKey = pubKey\<rparr>"

record 'key AuthManager =
  am_store :: TokenStore
  am_verifier :: "'key Verifier"

definition NewAuthManager :: "(string + string) \<Rightarrow> (string \<Rightarrow> string option) \<Rightarrow> 'key option \<Rightarrow> string + 'key AuthManager" where
  "NewAuthManager UserConfigDir MkdirAll pubKey =
     (case NewTokenStore UserConfigDir MkdirAll of
        Inl e \<Rightarrow> Inl e
      | Inr store \<Rightarrow> Inr \<lparr>am_store = store, am_verifier = NewVerifier pubKey\<rparr>)"

lemma token_is_in_config_dir:
  assumes "cs \<noteq> []" and "\<forall>c \<in> set cs. path_name c" and "NewAuthManager (Inr (abs_path cs)) MkdirAll key = Inr m"
  shows "token_path (am_store m) = abs_path (cs @ [''aether'', ''token''])"
proof -
  have n: "path_name ''aether''" "path_name ''token''" by (simp_all add: path_name_def)
  have c: "ConfigDir (am_store m) = abs_path (cs @ [''aether''])"
    using assms(3) Join_abs_path[OF assms(1,2) n(1)]
    by (auto simp: NewAuthManager_def NewTokenStore_def Let_def split: option.splits)
  have "filepath_Join (abs_path (cs @ [''aether''])) ''token'' = abs_path ((cs @ [''aether'']) @ [''token''])"
    by (rule Join_abs_path) (use assms n in auto)
  with c show ?thesis by (simp add: token_path_def tokenFileName_def)
qed

text \<open>The command that opens the login page, if the platform has one.\<close>

definition openBrowser :: "string \<Rightarrow> string \<Rightarrow> (string \<times> string list) option" where
  "openBrowser GOOS url =
     (if GOOS = ''linux'' then Some (''xdg-open'', [url])
      else if GOOS = ''windows'' then Some (''rundll32'', [''url.dll,FileProtocolHandler'', url])
      else if GOOS = ''darwin'' then Some (''open'', [url])
      else None)"

section \<open>The claims and the answer of the server\<close>

definition zero_claims :: JWTPayload where
  "zero_claims = \<lparr>Subject = [], Email = [], IssuedAt = 0, ExpiresAt = 0, jwt_Version = [], Issuer = []\<rparr>"

definition claims_fields :: "JWTPayload fields" where
  "claims_fields =
     [(''sub'', struct_field Subject Subject_update read_string),
      (''email'', struct_field Email Email_update read_string),
      (''iat'', struct_field IssuedAt IssuedAt_update read_int),
      (''exp'', struct_field ExpiresAt ExpiresAt_update read_int),
      (''ver'', struct_field jwt_Version jwt_Version_update read_string),
      (''iss'', struct_field Issuer Issuer_update read_string)]"

definition unmarshal_claims :: "string \<Rightarrow> JWTPayload option" where
  "unmarshal_claims = unmarshal_into claims_fields zero_claims"

definition unmarshal_refresh :: "string \<Rightarrow> string option" where
  "unmarshal_refresh = unmarshal_into [(''token'', read_string)] []"

definition claims_members :: "JWTPayload \<Rightarrow> (string \<times> json) list" where
  "claims_members p =
     [(''sub'', JStr (Subject p)), (''email'', JStr (Email p)), (''iat'', JInt (IssuedAt p)), (''exp'', JInt (ExpiresAt p)),
      (''ver'', JStr (jwt_Version p)), (''iss'', JStr (Issuer p))]"

definition valid_claims :: "JWTPayload \<Rightarrow> JWTPayload" where
  "valid_claims p = p\<lparr>Subject := to_valid (Subject p), Email := to_valid (Email p), jwt_Version := to_valid (jwt_Version p),
     Issuer := to_valid (Issuer p)\<rparr>"

text \<open>The claims of a token, as a text of the issuer: an object with these members, in any order and among others.\<close>

definition is_claims :: "JWTPayload \<Rightarrow> json \<Rightarrow> bool" where
  "is_claims p j \<longleftrightarrow> has_members claims_fields (claims_members p) j \<and> fits maxNestingDepth j
     \<and> in_int64 (IssuedAt p) \<and> in_int64 (ExpiresAt p)"

lemma claims_read:
  assumes "is_claims p j"
  shows "unmarshal_claims (json_write j) = Some (valid_claims p)"
proof -
  have c: "commuting claims_fields" by (simp add: claims_fields_def commuting_def commute_field)
  have f: "field_members claims_fields (claims_members p)"
    by (simp add: field_members_def claims_fields_def claims_members_def byte_def)
  have a: "has_members claims_fields (claims_members p) j" "fits maxNestingDepth j"
    "in_int64 (IssuedAt p)" "in_int64 (ExpiresAt p)"
    using assms by (simp_all add: is_claims_def)
  show ?thesis
    unfolding unmarshal_claims_def unmarshal_write[OF a(2)] decode_has_members[OF c f a(1)]
    using a(3,4) by (cases p) (simp add: claims_fields_def claims_members_def zero_claims_def valid_claims_def find_field_def reader_defs
        to_valid_ascii byte_def Atoi_show_int)
qed

lemma refresh_read:
  assumes "has_members [(''token'', read_string)] [(''token'', JStr token)] j" and "fits maxNestingDepth j"
  shows "unmarshal_refresh (json_write j) = Some (to_valid token)"
proof -
  let ?fs = "[(''token'', read_string)]"
  have c: "commuting ?fs" by (simp add: commuting_def)
  have f: "field_members ?fs [(''token'', JStr token)]"
    by (simp add: field_members_def byte_def)
  show ?thesis
    unfolding unmarshal_refresh_def unmarshal_write[OF assms(2)] decode_has_members[OF c f assms(1)]
    by (simp add: find_field_def reader_defs to_valid_ascii byte_def)
qed

lemma raw_url_base64_ascii: "ascii (raw_url_base64 s)"
proof -
  have "byte (b64_char 45 95 n) < 128" if "n < 64" for n using that by (auto simp: b64_char_def)
  then show ?thesis using b64_text_encode[of s] by (auto simp: b64_text_def raw_url_base64_def ascii_def)
qed

lemma jwt_token_ascii: "ascii (jwt_token header body sig)"
  by (simp add: jwt_token_def raw_url_base64_ascii byte_def)

lemma jwt_token_graphic: "c \<in> set (jwt_token header body sig) \<Longrightarrow> graphic c"
proof -
  have "graphic (b64_char 45 95 n)" if "n < 64" for n
    using that by (auto simp: graphic_def IsSpace_def b64_char_def)
  then have "graphic c" if "c \<in> set (raw_url_base64 s)" for c s
    using that b64_text_encode[of s] by (auto simp: b64_text_def raw_url_base64_def)
  moreover have "graphic (CHR ''.'')" by (simp add: graphic_def IsSpace_def byte_def)
  ultimately show "c \<in> set (jwt_token header body sig) \<Longrightarrow> graphic c" by (auto simp: jwt_token_def)
qed

lemma TrimSpace_jwt: "TrimSpace (jwt_token header body sig) = jwt_token header body sig"
proof -
  have "jwt_token header body sig \<noteq> []" by (simp add: jwt_token_def)
  then show ?thesis
    using jwt_token_graphic[of _ header body sig] by (intro TrimSpace_id jwt_token_ascii) simp_all
qed

text \<open>Verifying a token that was issued for given claims.\<close>

lemma Verify_issued:
  assumes "is_claims p j"
  shows "Verify unmarshal_claims sha256 rsa_ok pubkey now (jwt_token header (json_write j) sig) =
    (if Unix_seconds now > ExpiresAt p then Inl ErrTokenExpired
     else if to_valid (Issuer p) \<noteq> authDomain then Inl ErrInvalidIssuer
     else case pubkey of None \<Rightarrow> Inr (valid_claims p)
          | Some key \<Rightarrow>
              if rsa_ok key (sha256 (raw_url_base64 header @ ''.'' @ raw_url_base64 (json_write j))) sig then Inr (valid_claims p)
              else Inl ErrSignatureInvalid)"
  by (simp add: Verify_parts[OF jwt_token_parts] claims_def raw_url_base64_roundtrip claims_read[OF assms]
      valid_claims_def split: option.split)

text \<open>
  C10: A session renews itself: when the token on disk has expired, exactly one request is sent, with that token, and the
  token in its answer, read from the bytes of the body, replaces the one on disk; the node then works with the new claims,
  as the issuer wrote them, without another login.
\<close>

theorem expired_session_is_renewed:
  assumes "token_Load d = Inr old" and "old = jwt_token h (json_write j) s" and "is_claims p j" and "ExpiresAt p < Unix_seconds now"
    and "server (refresh_body old) = Answer 200 (Some (json_write body))"
    and "has_members [(''token'', read_string)] [(''token'', JStr new)] body" and "fits maxNestingDepth body"
    and "new = jwt_token h' (json_write j') s'" and "is_claims p' j'" and "Unix_seconds now \<le> ExpiresAt p'" and "Issuer p' = authDomain"
    and "\<forall>key. pubkey = Some key \<longrightarrow> rsa_ok key (sha256 (raw_url_base64 h' @ ''.'' @ raw_url_base64 (json_write j'))) s'"
    and "\<not> write_fails d"
  shows "Authenticate unmarshal_refresh (Verify unmarshal_claims sha256 rsa_ok pubkey now) server now d =
    (Inr (valid_claims p'), d\<lparr>token_file := Some new, sent := sent d @ [refresh_body old]\<rparr>, None)"
proof -
  let ?verify = "Verify unmarshal_claims sha256 rsa_ok pubkey now"
  have old: "?verify old = Inl ErrTokenExpired" unfolding assms(2) using assms(4) by (simp add: Verify_issued[OF assms(3)])
  have "ascii authDomain" by (simp add: authDomain_def byte_def)
  then have iss: "to_valid (Issuer p') = authDomain" using assms(11) by (simp add: to_valid_ascii)
  have new: "?verify new = Inr (valid_claims p')"
    unfolding assms(8) using assms(10,12) iss by (simp add: Verify_issued[OF assms(9)] split: option.split)
  have "unmarshal_refresh (json_write body) = Some new"
    using refresh_read[OF assms(6,7)] jwt_token_ascii by (simp add: assms(8) to_valid_ascii)
  then show ?thesis
    using assms(1,5,13) old new by (simp add: Authenticate_def SilentRefresh_def token_Save_ok Let_def write_fails_def)
qed

definition demo_claims :: "int \<Rightarrow> JWTPayload" where
  "demo_claims e = \<lparr>Subject = ''u'', Email = [], IssuedAt = 1, ExpiresAt = e, jwt_Version = ''1'', Issuer = authDomain\<rparr>"

definition demo_token :: "int \<Rightarrow> string" where
  "demo_token e = jwt_token ''{}'' (json_write (JObj (claims_members (demo_claims e)))) ''sig''"

lemma demo_is_claims: "0 \<le> e \<Longrightarrow> e < 100 \<Longrightarrow> is_claims (demo_claims e) (JObj (claims_members (demo_claims e)))"
  by (simp add: is_claims_def has_members_def known_members_def find_field_def claims_fields_def claims_members_def demo_claims_def
      to_valid_ascii byte_def maxNestingDepth_def in_int64_def int64_min_def int64_max_def)

lemma expired_session_is_renewed_witness:
  "Authenticate unmarshal_refresh (Verify unmarshal_claims id (\<lambda>k h s. True) (Some ''key'') (unix_epoch + 50 * Second))
       (\<lambda>b. Answer 200 (Some (json_write (JObj [(''token'', JStr (demo_token 90))])))) (unix_epoch + 50 * Second)
       \<lparr>token_file = Some (demo_token 10), sent = [], read_fails = False, writing = WriteOk, remove_fails = False\<rparr> =
     (Inr (demo_claims 90), \<lparr>token_file = Some (demo_token 90), sent = [refresh_body (demo_token 10)], read_fails = False, writing = WriteOk, remove_fails = False\<rparr>, None)"
proof -
  let ?d = "\<lparr>token_file = Some (demo_token 10), sent = [], read_fails = False, writing = WriteOk, remove_fails = False\<rparr>"
  have u: "Unix_seconds (unix_epoch + 50 * Second) = 50" by (simp add: Unix_seconds_def unix_epoch_def Second_def)
  have l: "token_Load ?d = Inr (demo_token 10)" by (simp add: token_Load_def demo_token_def TrimSpace_jwt)
  have v: "valid_claims (demo_claims 90) = demo_claims 90"
    by (simp add: valid_claims_def demo_claims_def to_valid_ascii authDomain_def byte_def)
  have "Authenticate unmarshal_refresh (Verify unmarshal_claims id (\<lambda>k h s. True) (Some ''key'') (unix_epoch + 50 * Second))
       (\<lambda>b. Answer 200 (Some (json_write (JObj [(''token'', JStr (demo_token 90))])))) (unix_epoch + 50 * Second) ?d =
     (Inr (valid_claims (demo_claims 90)), ?d\<lparr>token_file := Some (demo_token 90), sent := sent ?d @ [refresh_body (demo_token 10)]\<rparr>, None)"
    by (rule expired_session_is_renewed[OF l demo_token_def demo_is_claims _ refl _ _ demo_token_def demo_is_claims])
      (simp_all add: u demo_claims_def has_members_def known_members_def find_field_def to_valid_ascii byte_def maxNestingDepth_def write_fails_def)
  then show ?thesis by (simp add: v)
qed

end
