(* ===== verification/Wire_Types.thy ===== *)
theory Wire_Types
  imports Mesh_Wire Chat_Wire Auth_Wire
begin

text \<open>
  What the bytes of another party can become: every message that a decoder of the program gives has the types of its
  struct, with integers of 64 bits and strings of valid UTF-8, whatever bytes were received.
\<close>

section \<open>Fields keep the types\<close>

definition typed_field :: "('a \<Rightarrow> bool) \<Rightarrow> 'a reader \<Rightarrow> bool" where
  "typed_field P f \<longleftrightarrow> (\<forall>n raw v x y. well_read n v \<longrightarrow> P x \<longrightarrow> f raw v x = Some y \<longrightarrow> P y)"

definition typed_fields :: "('a \<Rightarrow> bool) \<Rightarrow> 'a fields \<Rightarrow> bool" where
  "typed_fields P fs \<longleftrightarrow> (\<forall>f \<in> set fs. typed_field P (snd f))"

definition typed_option :: "('a \<Rightarrow> bool) \<Rightarrow> 'a option \<Rightarrow> bool" where
  "typed_option P mo \<longleftrightarrow> (\<forall>x. mo = Some x \<longrightarrow> P x)"

lemma typed_option_simps [simp]: "typed_option P None" "typed_option P (Some x) \<longleftrightarrow> P x"
  by (simp_all add: typed_option_def)

lemma find_field_in: "find_field fs k = Some f \<Longrightarrow> \<exists>n. (n, f) \<in> set fs"
  by (auto simp: find_field_def find_Some_iff split: option.splits dest: map_of_SomeD) (metis nth_mem)

lemma set_members_typed:
  "typed_fields P fs \<Longrightarrow> list_all (well_read_member n) ms \<Longrightarrow> P x \<Longrightarrow> set_members fs ms x = Some y \<Longrightarrow> P y"
proof (induction fs ms x rule: set_members.induct)
  case (2 fs k raw v ms x)
  show ?case
  proof (cases "find_field fs k")
    case None
    with 2 show ?thesis by simp
  next
    case (Some f)
    then obtain z where z: "f raw v x = Some z" "set_members fs ms z = Some y" using "2.prems"(4) by (auto split: option.splits)
    have "typed_field P f" using find_field_in[OF Some] "2.prems"(1) by (auto simp: typed_fields_def)
    then have "P z" using z(1) "2.prems"(2,3) unfolding typed_field_def list.pred_inject(2) well_read_member.simps by blast
    with "2.IH"(2)[OF Some z(1)] "2.prems" z(2) show ?thesis by simp
  qed
qed simp

lemma decode_struct_typed:
  "typed_fields P fs \<Longrightarrow> well_read n v \<Longrightarrow> P x \<Longrightarrow> decode_struct fs v x = Some y \<Longrightarrow> P y"
  by (cases v) (auto simp: decode_struct_def intro: set_members_typed)

lemma unmarshal_into_typed:
  "typed_fields P fs \<Longrightarrow> P x \<Longrightarrow> unmarshal_into fs x s = Some y \<Longrightarrow> P y"
  using json_decode_well_read[OF json_unmarshal_decode]
  by (auto simp: unmarshal_into_def split: option.splits intro: decode_struct_typed)

lemma decode_into_typed:
  "typed_fields P fs \<Longrightarrow> P x \<Longrightarrow> decode_into fs x s = Some y \<Longrightarrow> P y"
  using json_decode_well_read by (auto simp: decode_into_def split: option.splits intro: decode_struct_typed)

lemma decode_list_typed:
  "typed_fields P fs \<Longrightarrow> P zero \<Longrightarrow> list_all (well_read n) vs \<Longrightarrow> decode_list fs zero vs = Some ys \<Longrightarrow> list_all P ys"
  by (induction fs zero vs arbitrary: ys rule: decode_list.induct) (auto split: option.splits intro: decode_struct_typed)

lemma unmarshal_list_typed:
  assumes "typed_fields P fs" and "P zero" and "unmarshal_list fs zero s = Some ys"
  shows "list_all P ys"
proof (cases "json_unmarshal s")
  case (Some v)
  with json_decode_well_read[OF json_unmarshal_decode] have v: "well_read maxNestingDepth v" by blast
  show ?thesis
    using assms(3) Some v decode_list_typed[OF assms(1,2)] by (cases v) (auto simp: unmarshal_list_def)
qed (use assms(3) in \<open>simp add: unmarshal_list_def\<close>)

lemma typed_readers:
  "typed_field valid_utf8 read_string" "typed_field in_int64 read_int" "typed_field (\<lambda>_. True) read_bool" "typed_field (\<lambda>_. True) read_raw"
  by (auto simp: typed_field_def read_string_def read_int_def Atoi_in_int64 split: jval.splits)

lemma typed_struct: "typed_fields P fs \<Longrightarrow> typed_field P (read_struct fs)"
  by (auto simp: typed_field_def read_struct_def intro: decode_struct_typed)

lemma typed_ptr: "typed_field P r \<Longrightarrow> P zero \<Longrightarrow> typed_field (typed_option P) (read_ptr r zero)"
  unfolding typed_field_def
proof (intro allI impI)
  fix n raw v x y
  assume r: "\<forall>n raw v x y. well_read n v \<longrightarrow> P x \<longrightarrow> r raw v x = Some y \<longrightarrow> P y" "P zero"
    and v: "well_read n v" "typed_option P x" "read_ptr r zero raw v x = Some y"
  have old: "P (case x of None \<Rightarrow> zero | Some z \<Rightarrow> z)" using r(2) v(2) by (cases x) simp_all
  show "typed_option P y"
  proof (cases "v = VNull")
    case False
    then obtain z where "r raw v (case x of None \<Rightarrow> zero | Some z \<Rightarrow> z) = Some z" "y = Some z"
      using v(3) by (cases v) (auto simp: read_ptr_def)
    with r(1) v(1) old show ?thesis by auto
  qed (use v(3) in \<open>simp add: read_ptr_def\<close>)
qed

lemma typed_struct_field:
  assumes "typed_field Q r" and "\<And>x. P x \<Longrightarrow> Q (get x)" and "\<And>x y. P x \<Longrightarrow> Q y \<Longrightarrow> P (upd (\<lambda>_. y) x)"
  shows "typed_field P (struct_field get upd r)"
  using assms unfolding typed_field_def struct_field_def by fastforce

section \<open>The types of the messages\<close>

definition typed_beacon :: "PeerBeacon \<Rightarrow> bool" where
  "typed_beacon b \<longleftrightarrow> valid_utf8 (beacon_NodeID b) \<and> valid_utf8 (beacon_GRPCAddr b) \<and> valid_utf8 (beacon_Version b)
     \<and> in_int64 (beacon_Timestamp b)"

definition typed_task :: "PropagatedTask \<Rightarrow> bool" where
  "typed_task t \<longleftrightarrow> valid_utf8 (ptask_TaskID t) \<and> valid_utf8 (ptask_SourceID t) \<and> valid_utf8 (ptask_Prompt t)
     \<and> valid_utf8 (ptask_Model t) \<and> typed_option (list_all valid_utf8) (ptask_Tools t)
     \<and> in_int64 (ptask_Timestamp t) \<and> in_int64 (DeadlineUnixNs t)"

definition typed_result :: "PropagatedResult \<Rightarrow> bool" where
  "typed_result r \<longleftrightarrow> valid_utf8 (pres_TaskID r) \<and> valid_utf8 (pres_NodeID r) \<and> valid_utf8 (pres_Output r)
     \<and> valid_utf8 (pres_Error r) \<and> in_int64 (DurationMS r)"

definition typed_claims :: "JWTPayload \<Rightarrow> bool" where
  "typed_claims p \<longleftrightarrow> valid_utf8 (Subject p) \<and> valid_utf8 (Email p) \<and> valid_utf8 (jwt_Version p) \<and> valid_utf8 (Issuer p)
     \<and> in_int64 (IssuedAt p) \<and> in_int64 (ExpiresAt p)"

definition typed_payload :: "GatewayPayload \<Rightarrow> bool" where
  "typed_payload p \<longleftrightarrow> in_int64 (gp_Op p) \<and> typed_option in_int64 (gp_Seq p) \<and> valid_utf8 (gp_Type p)"

definition typed_dc_user :: "dc_User \<Rightarrow> bool" where
  "typed_dc_user u \<longleftrightarrow> valid_utf8 (dc_UserID u) \<and> valid_utf8 (dc_Username u) \<and> valid_utf8 (dc_Discriminator u)
     \<and> valid_utf8 (dc_GlobalName u)"

definition typed_dc_message :: "dc_Message \<Rightarrow> bool" where
  "typed_dc_message msg \<longleftrightarrow> valid_utf8 (dc_MessageID msg) \<and> valid_utf8 (dc_ChannelID msg) \<and> typed_option typed_dc_user (dc_Author msg)
     \<and> valid_utf8 (dc_Content msg) \<and> valid_utf8 (dc_Timestamp msg)"

definition typed_tg_user :: "tg_User \<Rightarrow> bool" where
  "typed_tg_user u \<longleftrightarrow> in_int64 (tg_UserID u) \<and> valid_utf8 (tg_FirstName u) \<and> valid_utf8 (tg_LastName u) \<and> valid_utf8 (tg_Username u)"

definition typed_tg_chat :: "tg_Chat \<Rightarrow> bool" where
  "typed_tg_chat c \<longleftrightarrow> in_int64 (tg_ChatID c) \<and> valid_utf8 (tg_ChatType c) \<and> valid_utf8 (tg_Title c)"

definition typed_tg_message :: "tg_Message \<Rightarrow> bool" where
  "typed_tg_message msg \<longleftrightarrow> in_int64 (tg_MessageID msg) \<and> typed_option typed_tg_user (tg_From msg) \<and> typed_tg_chat (tg_MsgChat msg)
     \<and> in_int64 (tg_Date msg) \<and> valid_utf8 (tg_Text msg)"

definition typed_update :: "Update \<Rightarrow> bool" where
  "typed_update u \<longleftrightarrow> in_int64 (UpdateID u) \<and> typed_option typed_tg_message (upd_Message u)"

lemmas typed_flat_defs = typed_beacon_def typed_result_def typed_claims_def typed_dc_user_def typed_tg_user_def typed_tg_chat_def

lemma in_int64_0 [simp]: "in_int64 0"
  by (simp add: in_int64_def int64_min_def int64_max_def)

lemma typed_flat:
  "typed_fields typed_beacon beacon_fields" "typed_fields typed_result result_fields" "typed_fields typed_claims claims_fields"
  "typed_fields typed_dc_user dc_user_fields" "typed_fields typed_tg_user tg_user_fields" "typed_fields typed_tg_chat tg_chat_fields"
  unfolding typed_fields_def beacon_fields_def result_fields_def claims_fields_def dc_user_fields_def tg_user_fields_def tg_chat_fields_def
  by (auto intro!: typed_struct_field typed_readers simp: typed_flat_defs)

lemma typed_zero:
  "typed_beacon zero_beacon" "typed_result zero_result" "typed_claims zero_claims" "typed_dc_user zero_dc_user"
  "typed_tg_user zero_tg_user" "typed_tg_chat zero_tg_chat" "typed_dc_message zero_dc_message" "typed_payload zero_payload"
  "typed_tg_message zero_tg_message" "typed_update zero_update" "typed_task zero_task"
  by (simp_all add: typed_flat_defs typed_dc_message_def typed_payload_def typed_tg_message_def typed_update_def typed_task_def
      zero_beacon_def zero_result_def zero_claims_def zero_dc_user_def zero_tg_user_def zero_tg_chat_def zero_dc_message_def
      zero_payload_def zero_tg_message_def zero_update_def zero_task_def)

lemma typed_payload_fields: "typed_fields typed_payload payload_fields"
  unfolding typed_fields_def payload_fields_def
  by (auto intro!: typed_struct_field typed_readers typed_ptr[OF typed_readers(2)] simp: typed_payload_def)

lemma typed_dc_message_fields: "typed_fields typed_dc_message dc_message_fields"
  unfolding typed_fields_def dc_message_fields_def
  by (auto intro!: typed_struct_field typed_readers typed_ptr[OF typed_struct[OF typed_flat(4)] typed_zero(4)] simp: typed_dc_message_def)

lemma typed_tg_message_fields: "typed_fields typed_tg_message tg_message_fields"
  unfolding typed_fields_def tg_message_fields_def
  by (auto intro!: typed_struct_field typed_readers typed_struct[OF typed_flat(6)]
      typed_ptr[OF typed_struct[OF typed_flat(5)] typed_zero(5)] simp: typed_tg_message_def)

lemma typed_update_fields: "typed_fields typed_update update_fields"
  unfolding typed_fields_def update_fields_def
  by (auto intro!: typed_struct_field typed_readers typed_ptr[OF typed_struct[OF typed_tg_message_fields] typed_zero(9)] simp: typed_update_def)

text \<open>The tools of a task are read into an array that stays behind them.\<close>

definition typed_task_state :: "PropagatedTask \<times> string list \<Rightarrow> bool" where
  "typed_task_state x \<longleftrightarrow> typed_task (fst x) \<and> list_all valid_utf8 (snd x)"

lemma slice_strings_typed:
  "list_all (well_read n) vs \<Longrightarrow> list_all valid_utf8 old \<Longrightarrow> slice_strings vs old = Some ss \<Longrightarrow> list_all valid_utf8 ss"
proof (induction vs old arbitrary: ss rule: slice_strings.induct)
  case (2 v vs old)
  have old: "list_all valid_utf8 (tl old)" "valid_utf8 (case old of [] \<Rightarrow> [] | s # ss \<Rightarrow> s)"
    using "2.prems"(2) by (cases old; simp)+
  obtain s where s: "(case v of VStr s \<Rightarrow> Some s | VNull \<Rightarrow> Some (case old of [] \<Rightarrow> [] | s # _ \<Rightarrow> s) | _ \<Rightarrow> None) = Some s"
    using "2.prems"(3) by (fastforce split: option.splits)
  then have "valid_utf8 s" using "2.prems"(1) old(2) by (cases v) auto
  moreover obtain ss' where "slice_strings vs (tl old) = Some ss'" "ss = s # ss'" using "2.prems"(3) s by auto
  ultimately show ?case using "2.IH"[OF s] "2.prems"(1) old(1) by simp
qed simp

lemma typed_take: "list_all P xs \<Longrightarrow> list_all P (take n xs)"
  by (auto simp: list_all_iff dest: in_set_takeD)

lemma typed_set_tools: "typed_field typed_task_state set_tools"
  unfolding typed_field_def
proof (intro allI impI)
  fix n raw v x y
  assume "well_read n v" "typed_task_state x" "set_tools raw v x = Some y"
  then show "typed_task_state y"
    by (cases x; cases v) (auto simp: typed_task_state_def typed_task_def set_tools_def
        split: if_splits option.splits intro: slice_strings_typed intro!: typed_take)
qed

lemma typed_task_setter: "typed_field typed_task f \<Longrightarrow> typed_field typed_task_state (task_setter f)"
  by (auto simp: typed_field_def typed_task_state_def task_setter_def)

lemma typed_task_fields: "typed_fields typed_task_state task_fields"
  unfolding typed_fields_def task_fields_def
  by (auto intro!: typed_set_tools typed_task_setter typed_struct_field typed_readers simp: typed_task_def)

section \<open>Every decoder\<close>

text \<open>
  Whatever bytes arrive from a peer, from the auth server or from a chat service, what the program decodes from them is
  of its types: every integer in 64 bits, every string valid UTF-8, nested structs and lists included.
\<close>

lemma decoded_messages_are_typed:
  "typed_option typed_beacon (unmarshal_beacon s) \<and> typed_option typed_task (decode_task s) \<and> typed_option typed_result (decode_result s)
   \<and> typed_option typed_claims (unmarshal_claims s) \<and> typed_option typed_payload (unmarshal_payload s)
   \<and> typed_option typed_dc_message (unmarshal_dc_message s) \<and> typed_option (list_all typed_update) (unmarshal_updates s)"
proof -
  have "typed_option typed_task (decode_task s)"
    using decode_into_typed[OF typed_task_fields, of "(zero_task, [])" s] typed_zero(11)
    by (cases "decode_into task_fields (zero_task, []) s") (auto simp: decode_task_def typed_task_state_def)
  then show ?thesis
    using unmarshal_into_typed[OF typed_flat(1) typed_zero(1)] decode_into_typed[OF typed_flat(2) typed_zero(2)]
      unmarshal_into_typed[OF typed_flat(3) typed_zero(3)] unmarshal_into_typed[OF typed_payload_fields typed_zero(8)]
      unmarshal_into_typed[OF typed_dc_message_fields typed_zero(7)] unmarshal_list_typed[OF typed_update_fields typed_zero(10)]
    by (simp add: typed_option_def unmarshal_beacon_def decode_result_def unmarshal_claims_def unmarshal_payload_def
        unmarshal_dc_message_def unmarshal_updates_def)
qed

end
