(* ===== verification/Wire_Fields.thy ===== *)
theory Wire_Fields
  imports Mesh_Wire Auth_Wire
begin

text \<open>
  The decoders of session tokens, beacons and results by the tags of their structs (\<open>core/auth.go\<close>,
  \<open>core/mesh.go\<close>, \<open>core/mesh_propagation.go\<close>): which member of a received object each field takes, and which
  objects are refused.
\<close>

section \<open>Fields by their names\<close>

text \<open>
  What a decoder of flat structs means, without the order in which it stores: a field has the value of the last
  member whose name is its tag up to case, and its zero value if there is none, or \<open>null\<close> only.
\<close>

definition named :: "string \<Rightarrow> string \<Rightarrow> bool" where
  "named tag k \<longleftrightarrow> fold_name k = fold_name tag"

type_synonym members = "(string \<times> string \<times> jval) list"

fun text_member :: "string \<Rightarrow> string \<Rightarrow> members \<Rightarrow> string" where
  "text_member tag old [] = old"
| "text_member tag old ((k, raw, v) # ms) =
     text_member tag (if named tag k then case v of VStr s \<Rightarrow> s | _ \<Rightarrow> old else old) ms"

fun int_member :: "string \<Rightarrow> int \<Rightarrow> members \<Rightarrow> int" where
  "int_member tag old [] = old"
| "int_member tag old ((k, raw, v) # ms) =
     int_member tag (if named tag k then case v of VNum t \<Rightarrow> the (Atoi t) | _ \<Rightarrow> old else old) ms"

definition text_ok :: "jval \<Rightarrow> bool" where
  "text_ok v \<longleftrightarrow> (case v of VStr s \<Rightarrow> True | VNull \<Rightarrow> True | _ \<Rightarrow> False)"

definition int_ok :: "jval \<Rightarrow> bool" where
  "int_ok v \<longleftrightarrow> (case v of VNum t \<Rightarrow> Atoi t \<noteq> None | VNull \<Rightarrow> True | _ \<Rightarrow> False)"

definition members_ok :: "string list \<Rightarrow> string list \<Rightarrow> members \<Rightarrow> bool" where
  "members_ok texts ints ms \<longleftrightarrow>
     list_all (\<lambda>(k, raw, v). (list_ex (\<lambda>tag. named tag k) texts \<longrightarrow> text_ok v) \<and> (list_ex (\<lambda>tag. named tag k) ints \<longrightarrow> int_ok v)) ms"

definition object_members :: "jval option \<Rightarrow> members option" where
  "object_members w = (case w of Some (VObj ms) \<Rightarrow> Some ms | Some VNull \<Rightarrow> Some [] | _ \<Rightarrow> None)"

text \<open>If no two tags are the same up to case, an exact match is a match up to case.\<close>

definition distinct_tags :: "'a fields \<Rightarrow> bool" where
  "distinct_tags fs \<longleftrightarrow> distinct (map (fold_name \<circ> fst) fs)"

lemma find_field_named:
  assumes "distinct_tags fs"
  shows "find_field fs k = map_option snd (List.find (\<lambda>(n, _). named n k) fs)"
proof (cases "map_of fs k")
  case (Some f)
  then have "List.find (\<lambda>(n, _). named n k) fs = Some (k, f)"
    using assms by (induction fs) (force simp: distinct_tags_def named_def dest: map_of_SomeD split: if_splits)+
  with Some show ?thesis by (simp add: find_field_def)
qed (simp add: find_field_def named_def eq_commute)

lemma object_members_struct:
  "decode_struct fs v x = (case object_members (Some v) of None \<Rightarrow> None | Some ms \<Rightarrow> set_members fs ms x)"
  by (cases v) (simp_all add: decode_struct_def object_members_def)

lemma members_ok_simps:
  "members_ok texts ints []"
  "members_ok texts ints ((k, raw, v) # ms) \<longleftrightarrow>
     (list_ex (\<lambda>tag. named tag k) texts \<longrightarrow> text_ok v) \<and> (list_ex (\<lambda>tag. named tag k) ints \<longrightarrow> int_ok v) \<and> members_ok texts ints ms"
  by (simp_all add: members_ok_def)

lemma named_tags:
  "distinct_tags fs \<Longrightarrow> named tag k \<Longrightarrow> tag \<in> fst ` set fs \<Longrightarrow> \<forall>f \<in> set fs. named (fst f) k \<longleftrightarrow> fst f = tag"
  by (force simp: named_def distinct_tags_def distinct_map inj_on_def)

lemmas tag_simps = fold_name_def runes_ascii byte_def fold_rune_def

lemma distinct_tables:
  "distinct_tags claims_fields" "distinct_tags beacon_fields" "distinct_tags result_fields"
  by (simp_all add: distinct_tags_def claims_fields_def beacon_fields_def result_fields_def tag_simps)

lemmas by_name = reader_defs members_ok_simps text_ok_def int_ok_def

lemma claims_by_name:
  "set_members claims_fields ms p =
     (if members_ok [''sub'', ''email'', ''ver'', ''iss''] [''iat'', ''exp''] ms
      then Some \<lparr>Subject = text_member ''sub'' (Subject p) ms, Email = text_member ''email'' (Email p) ms,
        IssuedAt = int_member ''iat'' (IssuedAt p) ms, ExpiresAt = int_member ''exp'' (ExpiresAt p) ms,
        jwt_Version = text_member ''ver'' (jwt_Version p) ms, Issuer = text_member ''iss'' (Issuer p) ms\<rparr>
      else None)"
proof (induction ms arbitrary: p)
  case (Cons m ms)
  obtain k raw v where m: "m = (k, raw, v)" by (cases m) auto
  note s = m claims_fields_def find_field_named[OF distinct_tables(1), of k, unfolded claims_fields_def] by_name Cons.IH[unfolded claims_fields_def]
  show ?case
  proof (cases "\<exists>tag \<in> fst ` set claims_fields. named tag k")
    case True
    then obtain tag where t: "tag \<in> fst ` set claims_fields" "named tag k" by blast
    note same = named_tags[OF distinct_tables(1) t(2,1)]
    show ?thesis
      using t(1) same unfolding claims_fields_def list.set image_insert image_empty fst_conv
      by (elim insertE emptyE; hypsubst; cases v; simp add: s split: option.split)
  next
    case False
    then show ?thesis by (simp add: s)
  qed
qed (simp add: members_ok_simps)

lemma beacon_by_name:
  "set_members beacon_fields ms b =
     (if members_ok [''node_id'', ''grpc_addr'', ''version''] [''ts''] ms
      then Some \<lparr>beacon_NodeID = text_member ''node_id'' (beacon_NodeID b) ms, beacon_GRPCAddr = text_member ''grpc_addr'' (beacon_GRPCAddr b) ms,
        beacon_Version = text_member ''version'' (beacon_Version b) ms, beacon_Timestamp = int_member ''ts'' (beacon_Timestamp b) ms\<rparr>
      else None)"
proof (induction ms arbitrary: b)
  case (Cons m ms)
  obtain k raw v where m: "m = (k, raw, v)" by (cases m) auto
  note s = m beacon_fields_def find_field_named[OF distinct_tables(2), of k, unfolded beacon_fields_def] by_name Cons.IH[unfolded beacon_fields_def]
  show ?case
  proof (cases "\<exists>tag \<in> fst ` set beacon_fields. named tag k")
    case True
    then obtain tag where t: "tag \<in> fst ` set beacon_fields" "named tag k" by blast
    note same = named_tags[OF distinct_tables(2) t(2,1)]
    show ?thesis
      using t(1) same unfolding beacon_fields_def list.set image_insert image_empty fst_conv
      by (elim insertE emptyE; hypsubst; cases v; simp add: s split: option.split)
  next
    case False
    then show ?thesis by (simp add: s)
  qed
qed (simp add: members_ok_simps)

lemma result_by_name:
  "set_members result_fields ms r =
     (if members_ok [''task_id'', ''node_id'', ''output'', ''error''] [''duration_ms''] ms
      then Some \<lparr>pres_TaskID = text_member ''task_id'' (pres_TaskID r) ms, pres_NodeID = text_member ''node_id'' (pres_NodeID r) ms,
        pres_Output = text_member ''output'' (pres_Output r) ms, pres_Error = text_member ''error'' (pres_Error r) ms,
        DurationMS = int_member ''duration_ms'' (DurationMS r) ms\<rparr>
      else None)"
proof (induction ms arbitrary: r)
  case (Cons m ms)
  obtain k raw v where m: "m = (k, raw, v)" by (cases m) auto
  note s = m result_fields_def find_field_named[OF distinct_tables(3), of k, unfolded result_fields_def] by_name Cons.IH[unfolded result_fields_def]
  show ?case
  proof (cases "\<exists>tag \<in> fst ` set result_fields. named tag k")
    case True
    then obtain tag where t: "tag \<in> fst ` set result_fields" "named tag k" by blast
    note same = named_tags[OF distinct_tables(3) t(2,1)]
    show ?thesis
      using t(1) same unfolding result_fields_def list.set image_insert image_empty fst_conv
      by (elim insertE emptyE; hypsubst; cases v; simp add: s split: option.split)
  next
    case False
    then show ?thesis by (simp add: s)
  qed
qed (simp add: members_ok_simps)

section \<open>Theorem\<close>

text \<open>
  C26: What the claims of a session token, a beacon and the result of a task are, for every text received: each field is the value of the
  last member other than \<open>null\<close> whose name is its JSON tag up to case, or zero if there is none. The text is refused
  exactly if it is neither an object nor \<open>null\<close>, or if a member of one of these names has another type or is a number
  that is no integer of 64 bits.
\<close>

theorem fields_go_by_their_tags:
  "(unmarshal_claims s = Some p \<longleftrightarrow>
      (\<exists>ms. object_members (json_unmarshal s) = Some ms \<and> members_ok [''sub'', ''email'', ''ver'', ''iss''] [''iat'', ''exp''] ms \<and>
        p = \<lparr>Subject = text_member ''sub'' [] ms, Email = text_member ''email'' [] ms,
          IssuedAt = int_member ''iat'' 0 ms, ExpiresAt = int_member ''exp'' 0 ms,
          jwt_Version = text_member ''ver'' [] ms, Issuer = text_member ''iss'' [] ms\<rparr>)) \<and>
   (unmarshal_beacon s = Some b \<longleftrightarrow>
      (\<exists>ms. object_members (json_unmarshal s) = Some ms \<and> members_ok [''node_id'', ''grpc_addr'', ''version''] [''ts''] ms \<and>
        b = \<lparr>beacon_NodeID = text_member ''node_id'' [] ms, beacon_GRPCAddr = text_member ''grpc_addr'' [] ms,
          beacon_Version = text_member ''version'' [] ms, beacon_Timestamp = int_member ''ts'' 0 ms\<rparr>)) \<and>
   (decode_result s = Some r \<longleftrightarrow>
      (\<exists>ms. object_members (json_decode s) = Some ms \<and> members_ok [''task_id'', ''node_id'', ''output'', ''error''] [''duration_ms''] ms \<and>
        r = \<lparr>pres_TaskID = text_member ''task_id'' [] ms, pres_NodeID = text_member ''node_id'' [] ms,
          pres_Output = text_member ''output'' [] ms, pres_Error = text_member ''error'' [] ms,
          DurationMS = int_member ''duration_ms'' 0 ms\<rparr>))"
  by (auto simp: unmarshal_claims_def unmarshal_beacon_def decode_result_def unmarshal_into_def decode_into_def object_members_struct
      claims_by_name beacon_by_name result_by_name zero_claims_def zero_beacon_def zero_result_def object_members_def[of None]
      split: option.splits)

text \<open>A name in capitals after the right one takes its place.\<close>

lemma capitals_overwrite:
  "text_member ''sub'' [] [(''sub'', raw, VStr ''alice''), (''SUB'', raw', VStr ''mallory'')] = ''mallory''"
  by (simp add: named_def tag_simps)

end
