(* ===== verification/Spec2Isabelle.thy ===== *)
theory Spec2Isabelle
  imports Scheduler Core_Memory Net_Servers Node_Identity Command_Line
    Kernel_Safety Ipc_Client Manifest_Canonical Verdict_Wire Wire_Types Wire_Fields
begin

text \<open>
  A verification library for AetherCore, an agent kernel written in Go: it runs LLM tasks with
  tools under a prompt guard, keeps an audit chain, memory and sessions, talks to other nodes, and
  loads modules such as a cron scheduler.

  \<^bold>\<open>Parts and how they interact.\<close> The command line builds an \<open>Engine\<close> (\<open>core/event_loop.go\<close>) with an LLM
  adapter, a tool registry and a guard. \<open>Submit\<close> puts tasks on a queue, workers take them through
  the reason-and-act loop \<open>executeEphemeral\<close>, and results wait on a second queue. Modules
  (\<open>sdk\<close>) are loaded beside it; the scheduler module (\<open>modules/scheduler\<close>) dispatches jobs. Nodes find
  each other over UDP, pass tasks over mutual TLS and answer signed memory queries. The chat gateways
  (\<open>gateway\<close>) hand commands from Telegram and Discord to the loaded modules, and the command line
  (\<open>cmd/aether\<close>) starts all of this, one command at a time.

  \<^bold>\<open>Theories.\<close> The library of Go itself:

  \<^item> \<open>Go_Prelude\<close>: 64-bit integers, maps with the unspecified order of \<open>range\<close> as an argument, a file write that may fail half-way;
  \<^item> \<open>Go_Float\<close>: \<open>float64\<close> and \<open>float32\<close> with rounding to nearest even, infinities and NaN; \<open>Go_Disk\<close>: a tree of directories and
    files under \<open>os.Stat\<close>, \<open>os.MkdirAll\<close>, \<open>os.ReadDir\<close> and \<open>os.Create\<close>;
  \<^item> \<open>Go_Strings\<close>: UTF-8, \<open>strings\<close>, \<open>strconv\<close>; \<open>Go_Time\<close>: instants, calendar, zones;
  \<^item> \<open>Go_Encoding\<close>: hexadecimal, base64, big-endian; \<open>Go_Utf8\<close>: valid UTF-8 and the replacement of what is not;
  \<^item> \<open>Go_Json\<close>: what \<open>encoding/json\<close> writes; \<open>Go_Json_Decode\<close>: how it reads, as tokens and an automaton with a
    stack; \<open>Go_Json_Roundtrip\<close>: reading gives back what was written; \<open>Go_Json_Safety\<close>: what can be read at all, and
    that no cut-off object is; \<open>Go_Json_Struct\<close>: how a struct is filled, in any order of the members;
  \<^item> \<open>Go_Path\<close>: \<open>path/filepath\<close>; \<open>Go_Flag\<close>: what \<open>flag\<close> parses.

  The components, each with its records, operations, invariants and properties:

  \<^item> \<open>Registry_Interface\<close>: the contracts of a table whose names are taken once, with and without
    removal; the module registry, the job table and the tool registries interpret them;
  \<^item> \<open>Cron\<close> (\<open>cron.go\<close>): parsing to bit masks, matching, the next time; \<open>Scheduler\<close> (\<open>scheduler.go\<close>):
    jobs, ticks, and the goroutines of \<open>Start\<close> and \<open>Stop\<close> as a step relation;
  \<^item> \<open>Sdk_Registry\<close> (\<open>sdk/*.go\<close>): modules, their tools, starting and stopping;
  \<^item> \<open>Prompt_Guard\<close> (\<open>core/security\<close>): the scanners, under the contract \<open>prompt_guard\<close>;
    \<open>Verdict_Wire\<close>: the verdicts of the LLM firewall from their bytes;
  \<^item> \<open>Tool_Registry\<close> (\<open>core/tool.go\<close>, \<open>keyring.go\<close>, \<open>manifest_validator.go\<close>): tools and signed manifests;
    \<open>Manifest_Canonical\<close>: the canonical form that a signature covers;
  \<^item> \<open>Agent_Engine\<close> (\<open>event_loop.go\<close>, \<open>mock_ollama.go\<close>, \<open>sys_info.go\<close>): one task as a function; \<open>Ipc_Client\<close>
    (\<open>ipc_client.go\<close>): the connection to the sandbox;
  \<^item> \<open>Agent_Steps\<close>: the same task in the steps in which workers interleave; a worker alone
    computes what the function does, and every task ends;
  \<^item> \<open>Worker_Pool\<close> (\<open>event_loop.go\<close>): queues and workers as a step relation over all interleavings, with any outcome of
    a task, hand-overs on unbuffered queues, and workers that are started after \<open>Stop\<close>; \<open>Kernel\<close>: the pool whose workers take the
    steps of their tasks on one world, one list of requests and one audit chain; \<open>Kernel_Safety\<close>: what all its interleavings
    keep true;
  \<^item> \<open>Llm_Routing\<close> (\<open>core/llm\<close>): routers under the contract of \<open>sort.Slice\<close>, retries, orchestrator;
  \<^item> \<open>Audit_Chain\<close>, \<open>Audit_Appender\<close> (\<open>core/audit\<close>): the hash chain and its rotated log file;
  \<^item> \<open>Core_Memory\<close> (\<open>core/memory\<close>): the memory engine over the contract \<open>storage\<close>, which the in-memory
    adapter keeps; \<open>Vector_Store\<close>, \<open>Signed_Memory\<close> (\<open>memory\<close>): similarity search in floating point, signed queries and
    what the server sends for them;
  \<^item> \<open>Mesh\<close> (\<open>mesh_*.go\<close>): discovery, task passing, task log and deadlines; \<open>Net_Servers\<close>: the accept loops of the
    memory server and the task server and the goroutines of their connections as labelled steps, under the contract \<open>accept_loop\<close>;
  \<^item> \<open>Auth_Tokens\<close> (\<open>core/auth.go\<close>, \<open>cmd/aether/auth.go\<close>): session tokens;
  \<^item> \<open>Node_Identity\<close> (\<open>mtls.go\<close>): the store of a node's certificates;
  \<^item> \<open>Mesh_Wire\<close>, \<open>Auth_Wire\<close>, \<open>Chat_Wire\<close>: the decoders of what peers, the auth server and the chat services send, field by
    field, and the components run on the bytes; \<open>Wire_Fields\<close>: which member of a received object each field takes;
    \<open>Wire_Types\<close>: every decoded message has its types;
  \<^item> \<open>Chat_Gateway\<close>: what the gateways share, with the contract \<open>command_parser\<close> of their routers;
    \<open>Telegram\<close> (\<open>gateway/telegram\<close>): client, router, adapter, polling loop and bot;
  \<^item> \<open>Websocket\<close> (\<open>gateway/discord/websocket.go\<close>): frames, messages and the handshake; \<open>Discord\<close>
    (\<open>gateway/discord\<close>): the session on it, reconnection, client, router, adapter and bot;
  \<^item> \<open>Module_Scaffold\<close> (\<open>sdk/scaffold\<close>): the generator of module projects, on a disk;
  \<^item> \<open>Kernel_Log\<close> (\<open>telemetry.go\<close>, \<open>logger.go\<close>): boot latency, loggers and their lines;
  \<^item> \<open>Command_Line\<close> (\<open>cmd/aether\<close>): flags, dispatch and the commands, on
    the models of the components they call.

  \<^bold>\<open>How the code is modelled.\<close> A struct is a record, its methods are functions on the record that return
  the new one; an error is a constructor of the component's error type; a panic is \<open>None\<close>, a constructor or a flag;
  a mutex makes an operation atomic. Go's \<open>int\<close> is \<open>int\<close> with \<open>wrap64\<close> where a sum may leave the range.
  A loop over a map takes the order of the keys, and the theorems hold for every order.
  Clocks are arguments. SHA-256, RSA, ECDSA, Ed25519, X.509, PEM, the time zone
  database, the file system's failures and the network are parameters, and what a property relies
  on of them is a hypothesis with a witness. The component theories take the decoders of \<open>encoding/json\<close>
  as arguments; the theories \<open>Mesh_Wire\<close>, \<open>Auth_Wire\<close>, \<open>Chat_Wire\<close>, \<open>Verdict_Wire\<close> and \<open>Manifest_Canonical\<close>
  give them, so that their theorems are about received bytes.

  \<^bold>\<open>Bounds.\<close> The loops over a cron field are a \<open>partial_function\<close>, proved to return for every step that
  \<open>Atoi\<close> can give, wrapping ones included (\<open>ParseCron_returns\<close>). \<open>NextAfter\<close> searches the code's own
  \<open>maxIter\<close> minutes, the agent loop runs at most \<open>maxAgentIterations\<close> turns; both are counted down
  structurally. The readers of the WebSocket and of the flags end because each step shortens what is
  left to read. The endless loops of the poller and of the Discord gateway are run for any number \<open>n\<close>
  of iterations, and their properties hold for every \<open>n\<close>. A task in small steps ends by a lexicographic rank. No other
  fuel is used.

  \<^bold>\<open>Interfaces.\<close> The locales are \<open>register_once\<close> and \<open>removable_registry\<close> (registries), \<open>prompt_guard\<close>,
  \<open>slice_sort\<close> (sorting by a key) and \<open>less_sort\<close> (by a relation that need not be an order, as scores with NaN are not),
  \<open>router\<close>, \<open>storage\<close>, \<open>command_parser\<close> (the two chat routers) and \<open>accept_loop\<close> (the two servers); every one is interpreted on the model of the code.

  \<^bold>\<open>Not modelled.\<close> The calls by which components log, usage texts, generated protobuf code, numbers that are not
  integers in JSON (the canonical form takes their printing as an argument, and signed memory requests, which carry
  \<open>float32\<close> values, keep their decoder as one), prices of models other than finite ones, TLS, the socket deadlines of clients and
  of the WebSocket (a read that times out is a read that fails; the two servers have theirs), actions of \<open>text/template\<close>
  that the embedded templates do not use, and data races on what the code does not lock.
\<close>

end
